(* ===== verification/Prelude.thy ===== *)
theory Prelude
  imports Complex_Main "HOL-Library.Word" "HOL-Library.Multiset" "HOL-Library.Signed_Division"
begin

text \<open>
  Shared vocabulary of the diskspd development: the machine types of the C++ sources, the
  ways a call can fail to return a value, the operations of the C++ standard library that
  several components use (vector resizing, the associative containers), and the generic
  lemmas on words, lists and sums that the component proofs share.

  Machine integers are words of their width and wrap around: \<open>unsigned int\<close> is a
  32-bit word, \<open>uint64_t\<close>, \<open>size_t\<close> and pointers are 64-bit words read
  unsigned, \<open>off_t\<close> is a 64-bit word read as two's complement through \<open>sint\<close>.
  A \<open>double\<close> is a real number: rounding is not modelled, and a quotient that would be
  infinite or not a number is the fault \<open>Not_Finite\<close>.
\<close>

section \<open>Types\<close>

type_synonym u8 = "8 word"
type_synonym u32 = "32 word"
type_synonym u64 = "64 word"
type_synonym size_t = "64 word"
type_synonym off_t = "64 word"
type_synonym double = real

text \<open>Why a call does not return a value.\<close>

datatype fault =
    Assert_Failed      \<comment> \<open>an \<open>assert\<close> of the source does not hold: the process aborts\<close>
  | Exit_Failure       \<comment> \<open>the source calls \<open>exit(1)\<close>\<close>
  | Undefined          \<comment> \<open>an access out of range, a null dereference, a division by zero\<close>
  | Invalid_Argument   \<comment> \<open>\<open>std::invalid_argument\<close> is thrown\<close>
  | Runtime_Error      \<comment> \<open>\<open>std::runtime_error\<close> is thrown\<close>
  | Overflow_Error     \<comment> \<open>\<open>std::overflow_error\<close> is thrown\<close>
  | Logic_Error        \<comment> \<open>\<open>std::logic_error\<close> is thrown\<close>
  | Not_Finite         \<comment> \<open>a floating point result is infinite or not a number\<close>
  | Deadlock           \<comment> \<open>a mutex is locked that will never be released\<close>
  | Diverges           \<comment> \<open>a loop of the source does not end\<close>

named_theorems vec_simps \<open>how the elements of an updated vector read\<close>
named_theorems word_ranges \<open>bounds of machine integers as integers\<close>

section \<open>Results: fault or value\<close>

primrec bindE :: "'e + 'a \<Rightarrow> ('a \<Rightarrow> 'e + 'b) \<Rightarrow> 'e + 'b" where
  "bindE (Inl e) f = Inl e"
| "bindE (Inr a) f = f a"

lemma bindE_Inr_iff: "bindE m f = Inr b \<longleftrightarrow> (\<exists>a. m = Inr a \<and> f a = Inr b)"
  by (cases m) auto

lemma bindE_Inl_iff:
  "bindE m f = Inl e \<longleftrightarrow> m = Inl e \<or> (\<exists>a. m = Inr a \<and> f a = Inl e)"
  by (cases m) auto

text \<open>A loop body that can fail, run over a list of inputs; the first fault ends the loop.\<close>

primrec foldE :: "('b \<Rightarrow> 'a \<Rightarrow> 'e + 'a) \<Rightarrow> 'b list \<Rightarrow> 'a \<Rightarrow> 'e + 'a" where
  "foldE f [] a = Inr a"
| "foldE f (x # xs) a = bindE (f x a) (foldE f xs)"

lemma foldE_append: "foldE f (xs @ ys) a = bindE (foldE f xs a) (foldE f ys)"
proof (induction xs arbitrary: a)
  case Nil
  then show ?case by simp
next
  case (Cons x xs)
  then show ?case by (cases "f x a") auto
qed

lemma foldE_invariant:
  assumes "foldE f xs a = Inr b" and "P a"
    and "\<And>x a a'. x \<in> set xs \<Longrightarrow> P a \<Longrightarrow> f x a = Inr a' \<Longrightarrow> P a'"
  shows "P b"
  using assms by (induction xs arbitrary: a) (auto simp: bindE_Inr_iff)

lemma foldE_total:
  assumes "P a" and "\<And>x a. x \<in> set xs \<Longrightarrow> P a \<Longrightarrow> \<exists>a'. f x a = Inr a' \<and> P a'"
  shows "\<exists>b. foldE f xs a = Inr b \<and> P b"
  using assms
proof (induction xs arbitrary: a)
  case Nil
  then show ?case by simp
next
  case (Cons x xs)
  from Cons.prems obtain a' where "f x a = Inr a'" "P a'" by fastforce
  moreover have "\<exists>b. foldE f xs a' = Inr b \<and> P b"
    using Cons.IH [OF \<open>P a'\<close>] Cons.prems(2) by auto
  ultimately show ?case by simp
qed

lemma foldE_map: "foldE f (map g xs) = foldE (\<lambda>x. f (g x)) xs"
  by (induction xs) (auto intro!: ext)

lemma foldE_nested: "foldE (\<lambda>x. foldE f (g x)) xs = foldE f (concat (map g xs))"
  by (induction xs) (auto intro!: ext simp: foldE_append)

lemma foldE_cong: "(\<And>x. x \<in> set xs \<Longrightarrow> f x = g x) \<Longrightarrow> foldE f xs = foldE g xs"
  by (induction xs) (auto intro!: ext)

lemma foldE_Inr: "foldE (\<lambda>x a. Inr (f x a)) xs a = Inr (fold f xs a)"
  by (induction xs arbitrary: a) auto

text \<open>A quotient of two doubles that the caller uses as a number.\<close>

definition fdiv :: "double \<Rightarrow> double \<Rightarrow> fault + double" where
  "fdiv a b = (if b = 0 then Inl Not_Finite else Inr (a / b))"

lemma fdiv_Inr: "b \<noteq> 0 \<Longrightarrow> fdiv a b = Inr (a / b)"
  by (simp add: fdiv_def)

section \<open>Vectors\<close>

text \<open>\<open>v.resize(n)\<close> keeps the first elements and value-initializes new ones.\<close>

definition vec_resize :: "nat \<Rightarrow> 'a::zero list \<Rightarrow> 'a list" where
  "vec_resize n xs = take n xs @ replicate (n - length xs) 0"

text \<open>The element at an index, 0 beyond the end: the vector as a function of all indices.\<close>

definition nth0 :: "'a::zero list \<Rightarrow> nat \<Rightarrow> 'a" where
  "nth0 xs i = (if i < length xs then xs ! i else 0)"

lemma length_vec_resize [simp]: "length (vec_resize n xs) = n"
  by (simp add: vec_resize_def)

lemma nth0_vec_resize [vec_simps]: "length xs \<le> n \<Longrightarrow> nth0 (vec_resize n xs) = nth0 xs"
  by (auto simp: fun_eq_iff nth0_def vec_resize_def nth_append)

lemma nth0_list_update [vec_simps]:
  "i < length xs \<Longrightarrow> nth0 (xs[i := x]) = (nth0 xs)(i := x)"
  by (auto simp: fun_eq_iff nth0_def)

lemma nth_eq_nth0: "i < length xs \<Longrightarrow> xs ! i = nth0 xs i"
  by (simp add: nth0_def)

lemma nth0_Nil [simp]: "nth0 [] = (\<lambda>_. 0)"
  by (simp add: fun_eq_iff nth0_def)

lemma map_nth0: "n \<le> length xs \<Longrightarrow> map (nth0 xs) [0..<n] = take n xs"
  by (auto intro!: nth_equalityI simp: nth0_def)

lemma eq_nth0I: "length xs = length ys \<Longrightarrow> nth0 xs = nth0 ys \<Longrightarrow> xs = ys"
  by (rule nth_equalityI) (auto simp: nth0_def fun_eq_iff split: if_splits)

section \<open>Words\<close>

declare of_nat_unat [simp del]

lemma word_of_nat_unat [simp]: "word_of_nat (unat w) = w"
  by (simp add: of_nat_unat)

lemma uint_int: "uint (w :: u64) = int (unat w)"
  by (simp add: of_nat_unat)

lemma uint_le_max64 [word_ranges]: "uint (w :: u64) \<le> 2 ^ 64 - 1"
  using uint_lt2p [of w] by simp

lemma uint_less64 [word_ranges]: "uint (w :: u64) < 18446744073709551616"
  using uint_lt2p [of w] by simp

lemma uint_less32 [word_ranges]: "uint (w :: u32) < 4294967296"
  using uint_lt2p [of w] by simp

lemma unat_less64 [word_ranges]: "unat (w :: u64) < 18446744073709551616"
  using unsigned_less [of w, where ?'a = nat] by simp

lemma unat_less32 [word_ranges]: "unat (w :: u32) < 4294967296"
  using unsigned_less [of w, where ?'a = nat] by simp

lemma unat_of_nat_u64: "n < 2 ^ 64 \<Longrightarrow> unat (word_of_nat n :: u64) = n"
  by (simp add: unat_of_nat take_bit_nat_eq_self)

lemma unat_of_nat_u32: "n < 2 ^ 32 \<Longrightarrow> unat (word_of_nat n :: u32) = n"
  by (simp add: unat_of_nat take_bit_nat_eq_self)

lemma unat_div_word: "unat ((a :: 'a::len word) div b) = unat a div unat b"
  by (rule unat_div_distrib)

lemma unat_add_u32: "unat (a :: u32) + unat b < 2 ^ 32 \<Longrightarrow> unat (a + b) = unat a + unat b"
  by (simp add: unat_word_ariths)

lemma unat_add_u64: "unat (a :: u64) + unat b < 2 ^ 64 \<Longrightarrow> unat (a + b) = unat a + unat b"
  by (simp add: unat_word_ariths)

lemma uint_sub: "uint b \<le> uint a \<Longrightarrow> uint (a - b) = uint a - uint b"
  using uint_sub_lem by blast

text \<open>A 64-bit word as two's complement.\<close>

lemma sint64: "sint (w :: u64) = (if uint w < 2 ^ 63 then uint w else uint w - 2 ^ 64)"
proof -
  have "sint w = (uint w + 2 ^ 63) mod 2 ^ 64 - 2 ^ 63"
    by (simp add: sint_uint signed_take_bit_eq_take_bit_shift take_bit_eq_mod)
  moreover have "uint w < 2 ^ 64" using uint_lt2p [of w] by simp
  moreover have "(uint w + 2 ^ 63) mod 2 ^ 64 = (if uint w < 2 ^ 63 then uint w + 2 ^ 63 else uint w - 2 ^ 63)"
  proof (cases "uint w < 2 ^ 63")
    case True
    then show ?thesis by (simp add: mod_pos_pos_trivial)
  next
    case False
    then have "(uint w + 2 ^ 63) mod 2 ^ 64 = (uint w - 2 ^ 63 + 2 ^ 64) mod 2 ^ 64" by (simp add: add.commute)
    also have "\<dots> = (uint w - 2 ^ 63) mod 2 ^ 64" by (rule mod_add_self2)
    also have "\<dots> = uint w - 2 ^ 63" using False \<open>uint w < 2 ^ 64\<close> by (intro mod_pos_pos_trivial) auto
    finally show ?thesis using False by simp
  qed
  ultimately show ?thesis by simp
qed


lemma sless0_64: "(w :: u64) <s 0 \<longleftrightarrow> 2 ^ 63 \<le> uint w"
  using uint_lt2p [of w] by (simp add: word_sless_alt sint64)

lemma sless0_unat: "(w :: u64) <s 0 \<longleftrightarrow> 2 ^ 63 \<le> unat w"
  by (simp add: sless0_64 uint_int)

lemma sless64: "0 \<le>s a \<Longrightarrow> 0 \<le>s b \<Longrightarrow> (a :: u64) <s b \<longleftrightarrow> uint a < uint b"
  using uint_lt2p [of a] uint_lt2p [of b] by (auto simp: word_sless_alt word_sle_eq sint64 split: if_splits)

section \<open>The accumulator contract\<close>

text \<open>
  What the two statistics containers of diskspd (the latency histogram and the I/O
  bucketizer) promise to the code that fills and merges them: a container stands for the
  multiset of the samples recorded in it, \<open>Add\<close> records one more and \<open>Merge\<close>
  adds the samples of another container, as long as the number of samples stays within
  the 32-bit counters. \<open>cfg\<close> is the part of a container that \<open>Add\<close> never
  changes (the bucket duration) and \<open>ok\<close> says which samples it can record.
\<close>

locale accumulator =
  fixes add :: "'v \<Rightarrow> 'h \<Rightarrow> fault + 'h"
    and merge :: "'h \<Rightarrow> 'h \<Rightarrow> 'h"
    and samples_of :: "'h \<Rightarrow> 'k multiset"
    and inv :: "'h \<Rightarrow> bool"
    and cfg :: "'h \<Rightarrow> 'c"
    and ok :: "'c \<Rightarrow> 'v \<Rightarrow> bool"
    and key :: "'c \<Rightarrow> 'v \<Rightarrow> 'k"
  assumes add_step: "inv h \<Longrightarrow> ok (cfg h) v \<Longrightarrow> size (samples_of h) + 1 < 2 ^ 32 \<Longrightarrow>
      \<exists>h'. add v h = Inr h' \<and> inv h' \<and> cfg h' = cfg h \<and>
        samples_of h' = add_mset (key (cfg h) v) (samples_of h)"
    and merge_inv: "inv h \<Longrightarrow> inv g \<Longrightarrow> size (samples_of h) + size (samples_of g) < 2 ^ 32 \<Longrightarrow>
      inv (merge h g)"
    and merge_samples: "inv h \<Longrightarrow> inv g \<Longrightarrow> size (samples_of h) + size (samples_of g) < 2 ^ 32 \<Longrightarrow>
      samples_of (merge h g) = samples_of h + samples_of g"
begin

lemma collect:
  assumes "inv h" and "\<forall>v \<in> set vs. ok (cfg h) v"
    and "size (samples_of h) + length vs < 2 ^ 32"
  shows "\<exists>h'. foldE add vs h = Inr h' \<and> inv h' \<and> cfg h' = cfg h \<and>
    samples_of h' = samples_of h + mset (map (key (cfg h)) vs)"
  using assms
proof (induction vs arbitrary: h)
  case Nil
  then show ?case by simp
next
  case (Cons v vs)
  from Cons.prems have "size (samples_of h) + 1 < 2 ^ 32" and "ok (cfg h) v" by simp_all
  with Cons.prems(1) obtain h1 where h1: "add v h = Inr h1" "inv h1" "cfg h1 = cfg h"
    "samples_of h1 = add_mset (key (cfg h) v) (samples_of h)"
    using add_step by blast
  with Cons.IH [of h1] Cons.prems show ?case by auto
qed

lemma merge_all:
  assumes "inv h" and "\<forall>g \<in> set gs. inv g"
    and "size (samples_of h) + sum_list (map (\<lambda>g. size (samples_of g)) gs) < 2 ^ 32"
  shows "inv (fold (\<lambda>g h. merge h g) gs h) \<and>
    samples_of (fold (\<lambda>g h. merge h g) gs h) = samples_of h + sum_list (map samples_of gs)"
  using assms
proof (induction gs arbitrary: h)
  case Nil
  then show ?case by simp
next
  case (Cons g gs)
  then have "size (samples_of h) + size (samples_of g) < 2 ^ 32" by simp
  with Cons.prems have "inv (merge h g)" "samples_of (merge h g) = samples_of h + samples_of g"
    by (simp_all add: merge_inv merge_samples)
  with Cons show ?case by (simp add: add.assoc)
qed

text \<open>Collecting two streams apart and merging is collecting their concatenation.\<close>

lemma merge_collect:
  assumes "inv h" and "samples_of h = {#}" and "\<forall>v \<in> set (us @ vs). ok (cfg h) v"
    and "length us + length vs < 2 ^ 32"
    and "foldE add us h = Inr a" and "foldE add vs h = Inr b"
    and "foldE add (us @ vs) h = Inr c"
  shows "samples_of (merge a b) = samples_of c"
proof -
  from assms collect [of h us] collect [of h vs] collect [of h "us @ vs"]
  have "inv a" "inv b" "samples_of a = mset (map (key (cfg h)) us)"
    "samples_of b = mset (map (key (cfg h)) vs)"
    "samples_of c = mset (map (key (cfg h)) us) + mset (map (key (cfg h)) vs)"
    by auto
  with assms(4) show ?thesis by (simp add: merge_samples)
qed

end

end
