(* ===== verification/Histogram.thy ===== *)
theory Histogram
  imports Prelude
begin

text \<open>
  The latency histogram (\<open>src/src/Histogram.h\<close>), at its only instance
  \<open>Histogram<uint64_t>\<close>. The hash table is a list of key and count pairs with distinct
  keys; the list order stands for the unspecified iteration order of the
  \<open>unordered_map\<close>, and the properties hold for every order. Sums of doubles are sums
  of reals; a quotient by zero is the fault \<open>Not_Finite\<close>.
\<close>

section \<open>State and operations\<close>

record histogram =
  samples :: u32
  hdata :: "(u64 \<times> u32) list"

text \<open>\<open>_data[k] += d\<close>: the entry is inserted with value 0 when it is missing.\<close>

primrec bump :: "u64 \<Rightarrow> u32 \<Rightarrow> (u64 \<times> u32) list \<Rightarrow> (u64 \<times> u32) list" where
  "bump k d [] = [(k, 0 + d)]"
| "bump k d (e # m) = (if fst e = k then (k, snd e + d) # m else e # bump k d m)"

definition Histogram :: histogram where
  "Histogram = \<lparr>samples = 0, hdata = []\<rparr>"

definition GetSortedData :: "histogram \<Rightarrow> (u64 \<times> u32) list" where
  "GetSortedData h = sort_key fst (hdata h)"

definition Clear :: "histogram \<Rightarrow> histogram" where
  "Clear h = h\<lparr>hdata := [], samples := 0\<rparr>"

definition histogram_Add :: "u64 \<Rightarrow> histogram \<Rightarrow> histogram" where
  "histogram_Add v h = h\<lparr>hdata := bump v 1 (hdata h), samples := samples h + 1\<rparr>"

definition histogram_Merge :: "histogram \<Rightarrow> histogram \<Rightarrow> histogram" where
  "histogram_Merge h other =
    h\<lparr>hdata := fold (\<lambda>(k, c). bump k c) (hdata other) (hdata h),
      samples := samples h + samples other\<rparr>"

definition GetMin :: "histogram \<Rightarrow> u64" where
  "GetMin h = fold (\<lambda>i min. if fst i < min then fst i else min) (hdata h) (- 1)"

definition GetMax :: "histogram \<Rightarrow> u64" where
  "GetMax h = fold (\<lambda>i max. if fst i > max then fst i else max) (hdata h) 0"

definition GetSampleSize :: "histogram \<Rightarrow> u32" where
  "GetSampleSize h = samples h"

text \<open>The loop of \<open>GetPercentile\<close>: the counter \<open>cur\<close> is an \<open>unsigned\<close>.\<close>

primrec percentile_loop :: "(u64 \<times> u32) list \<Rightarrow> double \<Rightarrow> u32 \<Rightarrow> fault + u64" where
  "percentile_loop [] tgt cur = Inl Runtime_Error"
| "percentile_loop (i # is) tgt cur =
    (let cur = cur + snd i
     in if real (unat cur) \<ge> tgt then Inr (fst i) else percentile_loop is tgt cur)"

definition GetPercentile :: "double \<Rightarrow> histogram \<Rightarrow> fault + u64" where
  "GetPercentile p h =
    (if p < 0 \<or> p > 1 then Inl Invalid_Argument
     else percentile_loop (GetSortedData h) (real (unat (GetSampleSize h)) * p) 0)"

definition GetPercentile_int :: "int \<Rightarrow> histogram \<Rightarrow> fault + u64" where
  "GetPercentile_int p h = GetPercentile (real_of_int p / 100) h"

definition GetMedian :: "histogram \<Rightarrow> fault + u64" where
  "GetMedian h = GetPercentile 0.5 h"

text \<open>
  The loop of \<open>GetMean\<close> divides every contribution by the number of samples and throws
  when the running sum would turn negative.
\<close>

definition mean_step :: "u32 \<Rightarrow> u64 \<times> u32 \<Rightarrow> double \<Rightarrow> fault + double" where
  "mean_step n i acc =
    bindE (fdiv (real (unat (fst i)) * real (unat (snd i))) (real (unat n)))
      (\<lambda>bucket_val. if acc + bucket_val < 0 then Inl Overflow_Error else Inr (acc + bucket_val))"

definition GetMean :: "histogram \<Rightarrow> fault + double" where
  "GetMean h = foldE (mean_step (GetSampleSize h)) (hdata h) 0"

definition histogram_GetStandardDeviation :: "histogram \<Rightarrow> fault + double" where
  "histogram_GetStandardDeviation h =
    bindE (GetMean h) (\<lambda>mean.
      let ssd = fold (\<lambda>i ssd. let dev = real (unat (fst i)) - mean; sqdev = dev * dev
                              in ssd + real (unat (snd i)) * sqdev) (hdata h) 0
      in bindE (fdiv ssd (real (unat (GetSampleSize h)))) (\<lambda>x. Inr (sqrt x)))"

definition GetStdDev :: "histogram \<Rightarrow> fault + double" where
  "GetStdDev h = histogram_GetStandardDeviation h"

definition GetAvg :: "histogram \<Rightarrow> fault + double" where
  "GetAvg h = GetMean h"

section \<open>The samples of a histogram\<close>

definition data_samples :: "(u64 \<times> u32) list \<Rightarrow> u64 multiset" where
  "data_samples m = sum_list (map (\<lambda>(k, c). replicate_mset (unat c) k) m)"

definition hist_samples :: "histogram \<Rightarrow> u64 multiset" where
  "hist_samples h = data_samples (hdata h)"

text \<open>
  Well formed: the keys are distinct, no count is 0, and \<open>_samples\<close> is the sum of the
  counts without wrap-around.
\<close>

definition histogram_inv :: "histogram \<Rightarrow> bool" where
  "histogram_inv h \<longleftrightarrow> distinct (map fst (hdata h)) \<and> 0 \<notin> snd ` set (hdata h) \<and>
    unat (samples h) = size (hist_samples h)"

lemma data_samples_simps [simp]:
  "data_samples [] = {#}"
  "data_samples (e # m) = replicate_mset (unat (snd e)) (fst e) + data_samples m"
  by (simp_all add: data_samples_def case_prod_beta)

lemma data_samples_append [simp]: "data_samples (m @ n) = data_samples m + data_samples n"
  by (induction m) auto

lemma hist_samples_empty [simp]: "hist_samples Histogram = {#}"
  by (simp add: hist_samples_def Histogram_def)

lemma histogram_inv_empty [simp]: "histogram_inv Histogram"
  by (simp add: histogram_inv_def Histogram_def hist_samples_def)

lemma set_data_samples: "0 \<notin> snd ` set m \<Longrightarrow> set_mset (data_samples m) = fst ` set m"
proof (induction m)
  case (Cons e m)
  then have "unat (snd e) \<noteq> 0" by (auto simp: unat_eq_zero)
  with Cons show ?case by auto
qed simp

lemma data_samples_perm: "mset m = mset n \<Longrightarrow> data_samples m = data_samples n"
proof -
  assume "mset m = mset n"
  then have "mset (map (\<lambda>(k, c). replicate_mset (unat c) k) m)
      = mset (map (\<lambda>(k, c). replicate_mset (unat c) k) n)" by simp
  then show ?thesis
    unfolding data_samples_def sum_mset_sum_list [symmetric] by (rule arg_cong)
qed

lemma bump_keys: "fst ` set (bump k d m) = insert k (fst ` set m)"
  by (induction m) auto

lemma bump_distinct: "distinct (map fst m) \<Longrightarrow> distinct (map fst (bump k d m))"
  by (induction m) (auto simp: bump_keys)

lemma bump_step:
  assumes "0 \<notin> snd ` set m" and "d \<noteq> 0" and "size (data_samples m) + unat d < 2 ^ 32"
  shows "data_samples (bump k d m) = data_samples m + replicate_mset (unat d) k \<and>
    0 \<notin> snd ` set (bump k d m)"
  using assms
proof (induction m)
  case Nil
  then show ?case by auto
next
  case (Cons e m)
  then have "unat (snd e) + unat d < 2 ^ 32" by simp
  then have sum: "unat (snd e + d) = unat (snd e) + unat d" by (rule unat_add_u32)
  moreover have "unat d \<noteq> 0" using Cons.prems by (simp add: unat_eq_zero)
  ultimately have "snd e + d \<noteq> 0" by (auto simp flip: unat_eq_zero)
  with Cons sum show ?case by (auto simp: multiset_eq_iff)
qed

lemma bump_all:
  assumes "distinct (map fst m)" and "0 \<notin> snd ` set m" and "0 \<notin> snd ` set n"
    and "size (data_samples m) + size (data_samples n) < 2 ^ 32"
  defines "r \<equiv> fold (\<lambda>(k, c). bump k c) n m"
  shows "distinct (map fst r) \<and> 0 \<notin> snd ` set r \<and> data_samples r = data_samples m + data_samples n"
  using assms(1-4) unfolding r_def
proof (induction n arbitrary: m)
  case Nil
  then show ?case by simp
next
  case (Cons e n)
  then have "size (data_samples m) + unat (snd e) < 2 ^ 32" "snd e \<noteq> 0" by auto
  with Cons.prems bump_step [of m "snd e" "fst e"] bump_distinct [of m "fst e" "snd e"]
  have "distinct (map fst (bump (fst e) (snd e) m))" "0 \<notin> snd ` set (bump (fst e) (snd e) m)"
    "data_samples (bump (fst e) (snd e) m) = data_samples m + replicate_mset (unat (snd e)) (fst e)"
    by auto
  with Cons.IH [of "bump (fst e) (snd e) m"] Cons.prems show ?case
    by (simp add: case_prod_beta ac_simps)
qed

section \<open>The accumulator contract holds\<close>

interpretation histogram: accumulator "\<lambda>v h. Inr (histogram_Add v h)" histogram_Merge hist_samples
  histogram_inv "\<lambda>_. ()" "\<lambda>_ _. True" "\<lambda>_ v. v"
proof unfold_locales
  fix h v
  assume inv: "histogram_inv h" and few: "size (hist_samples h) + 1 < 2 ^ 32"
  then have "unat (samples h + 1) = unat (samples h) + 1"
    by (simp add: unat_add_u32 histogram_inv_def)
  with inv few bump_step [of "hdata h" 1 v] bump_distinct [of "hdata h" v 1]
  show "\<exists>h'. Inr (histogram_Add v h) = (Inr h' :: fault + histogram) \<and> histogram_inv h' \<and>
      () = () \<and> hist_samples h' = add_mset v (hist_samples h)"
    by (simp add: histogram_inv_def hist_samples_def histogram_Add_def)
next
  fix h g
  assume inv: "histogram_inv h" "histogram_inv g"
    and few: "size (hist_samples h) + size (hist_samples g) < 2 ^ 32"
  then have "unat (samples h + samples g) = unat (samples h) + unat (samples g)"
    by (simp add: unat_add_u32 histogram_inv_def)
  with inv few bump_all [of "hdata h" "hdata g"]
  show "histogram_inv (histogram_Merge h g)"
    "hist_samples (histogram_Merge h g) = hist_samples h + hist_samples g"
    by (auto simp: histogram_inv_def hist_samples_def histogram_Merge_def)
qed

section \<open>Percentiles by rank\<close>

text \<open>How many samples are at most \<open>v\<close>.\<close>

definition rank :: "u64 multiset \<Rightarrow> u64 \<Rightarrow> nat" where
  "rank M v = size {#x \<in># M. x \<le> v#}"

lemma rank_simps [simp]:
  "rank {#} v = 0"
  "rank (M + N) v = rank M v + rank N v"
  by (simp_all add: rank_def)

lemma rank_replicate [simp]: "rank (replicate_mset n k) v = (if k \<le> v then n else 0)"
  by (induction n) (auto simp: rank_def)

lemma rank_0: "\<forall>x \<in># M. v < x \<Longrightarrow> rank M v = 0"
  by (simp add: rank_def not_le)

lemma rank_le_size: "rank M v \<le> size M"
  by (simp add: rank_def size_filter_mset_lesseq)

lemma set_data_samples_subset: "set_mset (data_samples m) \<subseteq> fst ` set m"
  by (induction m) auto

lemma percentile_loop_Inr:
  assumes "percentile_loop xs t cur = Inr v"
    and "sorted_wrt (<) (map fst xs)" and "unat cur + size (data_samples xs) < 2 ^ 32"
  shows "v \<in> fst ` set xs \<and> t \<le> real (unat cur + rank (data_samples xs) v) \<and>
    (\<forall>w \<in> fst ` set xs. w < v \<longrightarrow> real (unat cur + rank (data_samples xs) w) < t)"
  using assms
proof (induction xs arbitrary: cur)
  case Nil
  then show ?case by simp
next
  case (Cons e xs)
  let ?cur = "cur + snd e"
  have above: "\<forall>x \<in> fst ` set xs. fst e < x" using Cons.prems(2) by simp
  have cur: "unat ?cur = unat cur + unat (snd e)"
    using Cons.prems(3) by (intro unat_add_u32) simp
  have rank_e: "rank (data_samples xs) (fst e) = 0"
    using above set_data_samples_subset [of xs] by (intro rank_0) blast
  show ?case
  proof (cases "t \<le> real (unat ?cur)")
    case True
    with Cons.prems(1) have "v = fst e" by simp
    with True above rank_e show ?thesis by (auto simp: cur)
  next
    case False
    with Cons.prems(1) have "percentile_loop xs t ?cur = Inr v" by (simp add: not_le)
    moreover have "unat ?cur + size (data_samples xs) < 2 ^ 32" using Cons.prems(3) by (simp add: cur)
    ultimately have IH: "v \<in> fst ` set xs" "t \<le> real (unat ?cur + rank (data_samples xs) v)"
      "\<forall>w \<in> fst ` set xs. w < v \<longrightarrow> real (unat ?cur + rank (data_samples xs) w) < t"
      using Cons.IH [of ?cur] Cons.prems(2) by auto
    have "real (unat cur + rank (data_samples (e # xs)) (fst e)) < t"
      using False by (simp add: rank_e cur)
    moreover have "rank (data_samples (e # xs)) w = unat (snd e) + rank (data_samples xs) w"
      if "w \<in> fst ` set xs" for w using above that by auto
    ultimately show ?thesis using IH by (auto simp: cur)
  qed
qed

lemma percentile_loop_total:
  assumes "xs \<noteq> []" and "t \<le> real (unat cur + size (data_samples xs))"
    and "unat cur + size (data_samples xs) < 2 ^ 32"
  shows "\<exists>v. percentile_loop xs t cur = Inr v"
  using assms
proof (induction xs arbitrary: cur)
  case Nil
  then show ?case by simp
next
  case (Cons e xs)
  have cur: "unat (cur + snd e) = unat cur + unat (snd e)"
    using Cons.prems(3) by (intro unat_add_u32) simp
  show ?case
  proof (cases "xs = []")
    case True
    with Cons.prems show ?thesis by (simp add: cur)
  next
    case False
    with Cons.IH [of "cur + snd e"] Cons.prems show ?thesis by (auto simp: cur Let_def)
  qed
qed

lemma sorted_data:
  assumes "histogram_inv h"
  shows "sorted_wrt (<) (map fst (GetSortedData h))" and "data_samples (GetSortedData h) = hist_samples h"
    and "fst ` set (GetSortedData h) = set_mset (hist_samples h)"
proof -
  have "sorted (map fst (GetSortedData h))" "distinct (map fst (GetSortedData h))"
    using assms by (simp_all add: GetSortedData_def histogram_inv_def distinct_map)
  then show "sorted_wrt (<) (map fst (GetSortedData h))" by (simp add: strict_sorted_iff)
  show "data_samples (GetSortedData h) = hist_samples h"
    unfolding hist_samples_def by (rule data_samples_perm) (simp add: GetSortedData_def)
  show "fst ` set (GetSortedData h) = set_mset (hist_samples h)"
    using assms by (simp add: GetSortedData_def hist_samples_def set_data_samples histogram_inv_def)
qed

lemma GetPercentile_Inr:
  assumes "histogram_inv h" and "GetPercentile p h = Inr v"
  shows "v \<in># hist_samples h \<and> p * real (size (hist_samples h)) \<le> real (rank (hist_samples h) v) \<and>
    (\<forall>w \<in># hist_samples h. w < v \<longrightarrow> real (rank (hist_samples h) w) < p * real (size (hist_samples h)))"
proof -
  have "unat (samples h) = size (hist_samples h)" using assms(1) by (simp add: histogram_inv_def)
  moreover have "percentile_loop (GetSortedData h) (real (unat (samples h)) * p) 0 = Inr v"
    using assms(2) by (simp add: GetPercentile_def GetSampleSize_def split: if_splits)
  ultimately show ?thesis
    using percentile_loop_Inr [OF _ sorted_data(1) [OF assms(1)], of _ 0 v] unat_less32 [of "samples h"]
    by (auto simp: sorted_data assms(1) mult.commute)
qed

lemma GetPercentile_total:
  assumes "histogram_inv h" and "hist_samples h \<noteq> {#}" and "0 \<le> p" and "p \<le> 1"
  shows "\<exists>v. GetPercentile p h = Inr v"
proof -
  have n: "unat (samples h) = size (hist_samples h)" using assms(1) by (simp add: histogram_inv_def)
  have "real (unat (samples h)) * p \<le> real (size (hist_samples h))"
    using assms(3,4) n by (simp add: mult_left_le)
  moreover have "GetSortedData h \<noteq> []" using assms(1,2) sorted_data(2) by fastforce
  ultimately have "\<exists>v. percentile_loop (GetSortedData h) (real (unat (samples h)) * p) 0 = Inr v"
    using percentile_loop_total [of "GetSortedData h" "real (unat (samples h)) * p" 0]
      unat_less32 [of "samples h"] by (simp add: sorted_data assms(1) n)
  with assms(3,4) show ?thesis by (simp add: GetPercentile_def GetSampleSize_def)
qed

section \<open>Extremes and moments\<close>

lemma fold_min_fst:
  "fold (\<lambda>i min. if fst i < min then fst i else min) xs a \<in> insert a (fst ` set xs) \<and>
   (\<forall>x \<in> insert a (fst ` set xs). fold (\<lambda>i min. if fst i < min then fst i else min) xs a \<le> (x :: u64))"
proof (induction xs arbitrary: a)
  case (Cons e xs)
  from Cons [of "if fst e < a then fst e else a"] show ?case
    by (auto split: if_splits intro: order_trans)
qed simp

lemma fold_max_fst:
  "fold (\<lambda>i max. if fst i > max then fst i else max) xs a \<in> insert a (fst ` set xs) \<and>
   (\<forall>x \<in> insert a (fst ` set xs). x \<le> (fold (\<lambda>i max. if fst i > max then fst i else max) xs a :: u64))"
proof (induction xs arbitrary: a)
  case (Cons e xs)
  from Cons [of "if fst e > a then fst e else a"] show ?case
    by (auto split: if_splits intro: order_trans)
qed simp

lemma inv_keys: "histogram_inv h \<Longrightarrow> fst ` set (hdata h) = set_mset (hist_samples h)"
  by (simp add: hist_samples_def histogram_inv_def set_data_samples)

lemma GetMin_Min:
  assumes "histogram_inv h" and "hist_samples h \<noteq> {#}"
  shows "GetMin h = Min (set_mset (hist_samples h))"
proof -
  from assms(2) obtain x where x: "x \<in># hist_samples h" by blast
  from fold_min_fst [of "hdata h" "- 1"] assms(1)
  have r: "GetMin h \<in> insert (- 1) (set_mset (hist_samples h))"
    "\<forall>y \<in># hist_samples h. GetMin h \<le> y" by (simp_all add: GetMin_def inv_keys)
  moreover have "GetMin h = - 1 \<Longrightarrow> x = - 1" using r(2) x by (metis word_order.extremum_unique)
  ultimately have "GetMin h \<in># hist_samples h" using x by auto
  with r(2) show ?thesis by (intro Min_eqI [symmetric]) auto
qed

lemma GetMax_Max:
  assumes "histogram_inv h" and "hist_samples h \<noteq> {#}"
  shows "GetMax h = Max (set_mset (hist_samples h))"
proof -
  from assms(2) obtain x where x: "x \<in># hist_samples h" by blast
  from fold_max_fst [of "hdata h" 0] assms(1)
  have r: "GetMax h \<in> insert 0 (set_mset (hist_samples h))"
    "\<forall>y \<in># hist_samples h. y \<le> GetMax h" by (simp_all add: GetMax_def inv_keys)
  moreover have "GetMax h = 0 \<Longrightarrow> x = 0" using r(2) x by (metis word_le_0_iff)
  ultimately have "GetMax h \<in># hist_samples h" using x by auto
  with r(2) show ?thesis by (intro Max_eqI [symmetric]) auto
qed

text \<open>The sum of a function over the samples, and the mean of the samples.\<close>

definition sample_sum :: "(real \<Rightarrow> real) \<Rightarrow> u64 multiset \<Rightarrow> real" where
  "sample_sum f M = (\<Sum>x\<in>#M. f (real (unat x)))"

definition sample_mean :: "u64 multiset \<Rightarrow> real" where
  "sample_mean M = sample_sum (\<lambda>x. x) M / real (size M)"

lemma sample_sum_simps [simp]:
  "sample_sum f {#} = 0"
  "sample_sum f (M + N) = sample_sum f M + sample_sum f N"
  "sample_sum f (replicate_mset n k) = real n * f (real (unat k))"
  by (simp_all add: sample_sum_def)

lemma sample_sum_data:
  "sample_sum f (data_samples m) = sum_list (map (\<lambda>e. real (unat (snd e)) * f (real (unat (fst e)))) m)"
  by (induction m) auto

lemma mean_loop:
  assumes "n \<noteq> 0" and "0 \<le> a"
  shows "foldE (mean_step n) m a = Inr (a + sample_sum (\<lambda>x. x) (data_samples m) / real (unat n))"
  using assms(2)
proof (induction m arbitrary: a)
  case (Cons e m)
  let ?v = "real (unat (fst e)) * real (unat (snd e)) / real (unat n)"
  have "mean_step n e a = Inr (a + ?v)" "0 \<le> a + ?v"
    using assms(1) Cons.prems by (simp_all add: mean_step_def fdiv_def unat_eq_zero not_less)
  with Cons.IH [of "a + ?v"] show ?case by (simp add: add_divide_distrib mult.commute)
qed simp

lemma GetMean_eq:
  assumes "histogram_inv h" and "hist_samples h \<noteq> {#}"
  shows "GetMean h = Inr (sample_mean (hist_samples h))"
proof -
  have n: "unat (samples h) = size (hist_samples h)" using assms(1) by (simp add: histogram_inv_def)
  with assms(2) have "samples h \<noteq> 0" by auto
  with mean_loop [of "samples h" 0 "hdata h"] n show ?thesis
    by (simp add: GetMean_def GetSampleSize_def sample_mean_def hist_samples_def)
qed

lemma fold_sum_list: "fold (\<lambda>i s. s + f i) xs (a :: real) = a + sum_list (map f xs)"
  by (induction xs arbitrary: a) auto

lemma GetStdDev_eq:
  assumes "histogram_inv h" and "hist_samples h \<noteq> {#}"
  shows "GetStdDev h = Inr (sqrt (sample_sum (\<lambda>x. (x - sample_mean (hist_samples h))\<^sup>2) (hist_samples h)
    / real (size (hist_samples h))))"
proof -
  have n: "unat (samples h) = size (hist_samples h)" using assms(1) by (simp add: histogram_inv_def)
  then show ?thesis
    using assms by (simp add: GetStdDev_def histogram_GetStandardDeviation_def GetMean_eq Let_def
        GetSampleSize_def fdiv_def fold_sum_list hist_samples_def sample_sum_data power2_eq_square)
qed

lemma sample_sum_bounds:
  assumes "\<forall>x \<in># M. a \<le> real (unat x) \<and> real (unat x) \<le> b"
  shows "real (size M) * a \<le> sample_sum (\<lambda>x. x) M \<and> sample_sum (\<lambda>x. x) M \<le> real (size M) * b"
  using assms by (induction M) (auto simp: sample_sum_def algebra_simps)

section \<open>Properties\<close>

text \<open>
  A histogram filled with a list of fewer than 2 to the 32 latencies, from the empty
  one, stands for exactly the multiset of these latencies, is well formed, and reports
  their number; merging two histograms adds the multisets of their samples.
\<close>

theorem histogram_collects:
  assumes "length us + length vs < 2 ^ 32"
  defines "a \<equiv> fold histogram_Add us Histogram" and "b \<equiv> fold histogram_Add vs Histogram"
  shows "hist_samples a = mset us \<and> unat (GetSampleSize a) = length us \<and>
    hist_samples (histogram_Merge a b) = mset (us @ vs) \<and>
    unat (GetSampleSize (histogram_Merge a b)) = length us + length vs \<and>
    histogram_inv (histogram_Merge a b)"
proof -
  have a: "histogram_inv a" "hist_samples a = mset us"
    and b: "histogram_inv b" "hist_samples b = mset vs"
    using histogram.collect [of Histogram us] histogram.collect [of Histogram vs] assms(1)
    by (auto simp: foldE_Inr a_def b_def)
  then have m: "histogram_inv (histogram_Merge a b)"
    "hist_samples (histogram_Merge a b) = mset us + mset vs"
    using assms(1) by (simp_all add: histogram.merge_inv histogram.merge_samples)
  with a show ?thesis by (simp add: histogram_inv_def GetSampleSize_def)
qed

theorem histogram_collects_witness:
  "hist_samples (histogram_Merge (fold histogram_Add [7, 3, 7] Histogram) (fold histogram_Add [3] Histogram))
    = {#7, 3, 7, 3#}"
  using histogram_collects [of "[7, 3, 7]" "[3]"] by simp

text \<open>
  C35. \<open>GetPercentile\<close> answers for every \<open>p\<close> in [0, 1] on a histogram with
  samples, and its answer is the nearest-rank percentile: a recorded latency such that at
  least the fraction \<open>p\<close> of all samples is no larger, and the smallest such one.
\<close>

theorem percentile_nearest_rank:
  assumes "histogram_inv h" and "hist_samples h \<noteq> {#}" and "0 \<le> p" and "p \<le> 1"
  shows "\<exists>v. GetPercentile p h = Inr v \<and> v \<in># hist_samples h \<and>
    p * real (size (hist_samples h)) \<le> real (size {#x \<in># hist_samples h. x \<le> v#}) \<and>
    (\<forall>w \<in># hist_samples h. w < v \<longrightarrow>
      real (size {#x \<in># hist_samples h. x \<le> w#}) < p * real (size (hist_samples h)))"
  using GetPercentile_total [OF assms] GetPercentile_Inr [OF assms(1), of p]
  by (auto simp: rank_def)

theorem percentile_nearest_rank_witness:
  "\<exists>v. GetPercentile 0.5 \<lparr>samples = 4, hdata = [(9, 1), (2, 3)]\<rparr> = Inr v \<and>
    v \<in># hist_samples \<lparr>samples = 4, hdata = [(9, 1), (2, 3)]\<rparr>"
proof -
  let ?h = "\<lparr>samples = 4, hdata = [(9, 1), (2, 3)]\<rparr>"
  have "histogram_inv ?h" "hist_samples ?h \<noteq> {#}"
    by (simp_all add: histogram_inv_def hist_samples_def)
  from percentile_nearest_rank [OF this, of "0.5"] show ?thesis by auto
qed

text \<open>
  The percentile row printed by the formatter is monotone: a larger fraction never
  gives a smaller latency, every percentile lies between \<open>GetMin\<close> and \<open>GetMax\<close>,
  and the 0th and 100th percentile are these two.
\<close>

theorem percentile_monotone:
  assumes "histogram_inv h" and "p \<le> q" and "GetPercentile p h = Inr v" and "GetPercentile q h = Inr w"
  shows "GetMin h \<le> v \<and> v \<le> w \<and> w \<le> GetMax h \<and>
    GetPercentile 0 h = Inr (GetMin h) \<and> GetPercentile 1 h = Inr (GetMax h)"
proof -
  let ?M = "hist_samples h" and ?r = "\<lambda>v. real (rank (hist_samples h) v)" and ?n = "real (size (hist_samples h))"
  note v = GetPercentile_Inr [OF assms(1,3)] and w = GetPercentile_Inr [OF assms(1,4)]
  then have ne: "?M \<noteq> {#}" by auto
  note ext = GetMin_Min [OF assms(1) ne] GetMax_Max [OF assms(1) ne]
  have "p * ?n \<le> q * ?n" using assms(2) by (simp add: mult_right_mono)
  with v w have "v \<le> w" by (metis not_le order_trans)
  moreover obtain x where x: "GetPercentile 0 h = Inr x"
    using GetPercentile_total [OF assms(1) ne, of 0] by auto
  moreover obtain y where y: "GetPercentile 1 h = Inr y"
    using GetPercentile_total [OF assms(1) ne, of 1] by auto
  moreover have "x = Min (set_mset ?M)"
    using GetPercentile_Inr [OF assms(1) x] by (intro Min_eqI [symmetric]) (auto simp: not_less)
  moreover have "y = Max (set_mset ?M)"
  proof (rule Max_eqI [symmetric])
    fix z assume z: "z \<in># ?M"
    show "z \<le> y"
    proof (rule ccontr)
      assume "\<not> z \<le> y"
      then have "{#x \<in># ?M. x \<le> y#} \<subset># ?M"
        using z by (metis filter_mset_eq_conv multiset_filter_subset subset_mset.le_imp_less_or_eq)
      then have "rank ?M y < size ?M" unfolding rank_def by (rule mset_subset_size)
      then show False using GetPercentile_Inr [OF assms(1) y] by simp
    qed
  qed (use GetPercentile_Inr [OF assms(1) y] in auto)
  ultimately show ?thesis using v w by (simp add: ext)
qed

theorem percentile_monotone_witness:
  "GetPercentile 0 \<lparr>samples = 4, hdata = [(9, 1), (2, 3)]\<rparr> = Inr (GetMin \<lparr>samples = 4, hdata = [(9, 1), (2, 3)]\<rparr>)"
proof -
  let ?h = "\<lparr>samples = 4, hdata = [(9, 1), (2, 3)]\<rparr>"
  have "histogram_inv ?h" by (simp add: histogram_inv_def hist_samples_def)
  moreover have "GetPercentile 0.5 ?h = Inr 2" "GetPercentile 0.9 ?h = Inr 9"
    by (simp_all add: GetPercentile_def GetSortedData_def GetSampleSize_def)
  ultimately show ?thesis using percentile_monotone [of ?h "0.5" "0.9" 2 9] by simp
qed

text \<open>
  C36. The loops of \<open>GetMean\<close> and \<open>GetStandardDeviation\<close> compute the mean and
  the population deviation of the samples whatever the iteration order of the hash table,
  and never throw; the mean lies between \<open>GetMin\<close> and \<open>GetMax\<close>. Without samples
  the mean is 0 and the deviation is not a number, which is why the formatter asks for the
  sample size first.
\<close>

theorem histogram_moments:
  assumes "histogram_inv h"
  defines "M \<equiv> hist_samples h"
  defines "m \<equiv> (\<Sum>x\<in>#M. real (unat x)) / real (size M)"
  shows "if M = {#} then GetAvg h = Inr 0 \<and> GetStdDev h = Inl Not_Finite
    else GetAvg h = Inr m \<and> real (unat (GetMin h)) \<le> m \<and> m \<le> real (unat (GetMax h)) \<and>
      GetStdDev h = Inr (sqrt ((\<Sum>x\<in>#M. (real (unat x) - m)\<^sup>2) / real (size M)))"
proof (cases "M = {#}")
  case True
  then have "set_mset M = fst ` set (hdata h)" "samples h = 0"
    using assms(1) unat_eq_zero [of "samples h"] by (simp_all add: M_def inv_keys histogram_inv_def)
  with True have "hdata h = []" "samples h = 0" by auto
  with True show ?thesis
    by (simp add: GetAvg_def GetMean_def GetStdDev_def histogram_GetStandardDeviation_def
        fdiv_def GetSampleSize_def)
next
  case False
  then have ne: "hist_samples h \<noteq> {#}" by (simp add: M_def)
  have m: "m = sample_mean (hist_samples h)" by (simp add: m_def sample_mean_def sample_sum_def M_def)
  have "\<forall>x \<in># M. GetMin h \<le> x \<and> x \<le> GetMax h"
    using GetMin_Min [OF assms(1) ne] GetMax_Max [OF assms(1) ne] by (simp add: M_def)
  then have "\<forall>x \<in># M. real (unat (GetMin h)) \<le> real (unat x) \<and> real (unat x) \<le> real (unat (GetMax h))"
    by (simp add: word_le_nat_alt)
  from sample_sum_bounds [OF this] False
  have "real (unat (GetMin h)) \<le> m" "m \<le> real (unat (GetMax h))"
    by (simp_all add: m sample_mean_def M_def field_simps nonempty_has_size)
  with False show ?thesis
    by (simp add: GetAvg_def GetMean_eq GetStdDev_eq assms(1) ne m sample_sum_def flip: M_def)
qed

theorem histogram_moments_witness:
  "GetAvg \<lparr>samples = 4, hdata = [(9, 1), (1, 3)]\<rparr> = Inr 3"
proof -
  let ?h = "\<lparr>samples = 4, hdata = [(9, 1), (1, 3)]\<rparr>"
  have "histogram_inv ?h" by (simp add: histogram_inv_def hist_samples_def)
  from histogram_moments [OF this] show ?thesis by (simp add: hist_samples_def)
qed

end
