(* ===== verification/Io_Bucketizer.thy ===== *)
theory Io_Bucketizer
  imports Prelude
begin

text \<open>
  The I/O bucketizer (\<open>src/src/IoBucketizer.h\<close>, \<open>src/src/IoBucketizer.cc\<close>): it
  counts completed operations per time interval, for the standard deviation of the IOPS.
  The record holds the three members of the class; \<open>Initialize\<close> and \<open>Add\<close> can
  fail an \<open>assert\<close> or, for one extreme bucket number, index past the vector.
\<close>

section \<open>State and operations\<close>

definition INVALID_BUCKET_DURATION :: u64 where
  "INVALID_BUCKET_DURATION = 0"

record io_bucketizer =
  bucketDuration :: u64
  validBuckets :: size_t
  vBuckets :: "u32 list"

definition IoBucketizer :: io_bucketizer where
  "IoBucketizer = \<lparr>bucketDuration = INVALID_BUCKET_DURATION, validBuckets = 0, vBuckets = []\<rparr>"

definition Initialize :: "u64 \<Rightarrow> size_t \<Rightarrow> io_bucketizer \<Rightarrow> fault + io_bucketizer" where
  "Initialize duration valid b =
    (if bucketDuration b \<noteq> INVALID_BUCKET_DURATION then Inl Assert_Failed
     else if duration = INVALID_BUCKET_DURATION then Inl Assert_Failed
     else Inr (b\<lparr>bucketDuration := duration, validBuckets := valid\<rparr>))"

text \<open>
  \<open>Add\<close> extends the vector up to the bucket of the completion time, zeroes the new
  entries once more, and counts. The size computation \<open>bucketNumber + 1\<close> is done in
  \<open>size_t\<close>.
\<close>

definition bucketizer_Add :: "u64 \<Rightarrow> io_bucketizer \<Rightarrow> fault + io_bucketizer" where
  "bucketizer_Add ioCompletionTime b =
    (if bucketDuration b = INVALID_BUCKET_DURATION then Inl Assert_Failed
     else
       let bucketNumber = ioCompletionTime div bucketDuration b;
           currentSize = (word_of_nat (length (vBuckets b)) :: size_t);
           v = (if currentSize < bucketNumber + 1
                then fold (\<lambda>i v. v[i := 0]) [unat currentSize ..< unat bucketNumber + 1]
                       (vec_resize (unat (bucketNumber + 1)) (vBuckets b))
                else vBuckets b)
       in if unat bucketNumber < length v
          then Inr (b\<lparr>vBuckets := v[unat bucketNumber := v ! unat bucketNumber + 1]\<rparr>)
          else Inl Undefined)"

definition GetNumberOfValidBuckets :: "io_bucketizer \<Rightarrow> size_t" where
  "GetNumberOfValidBuckets b =
    (if word_of_nat (length (vBuckets b)) > validBuckets b then validBuckets b
     else word_of_nat (length (vBuckets b)))"

definition GetNumberOfBuckets :: "io_bucketizer \<Rightarrow> size_t" where
  "GetNumberOfBuckets b = word_of_nat (length (vBuckets b))"

definition GetIoBucket :: "size_t \<Rightarrow> io_bucketizer \<Rightarrow> fault + u32" where
  "GetIoBucket bucketNumber b =
    (if unat bucketNumber < length (vBuckets b) then Inr (vBuckets b ! unat bucketNumber)
     else Inl Undefined)"

definition bucketizer_mean :: "io_bucketizer \<Rightarrow> double" where
  "bucketizer_mean b =
    (let numBuckets = unat (GetNumberOfValidBuckets b)
     in fold (\<lambda>i sum. sum + real (unat (vBuckets b ! i)) / real numBuckets) [0..<numBuckets] 0)"

definition bucketizer_GetStandardDeviation :: "io_bucketizer \<Rightarrow> double" where
  "bucketizer_GetStandardDeviation b =
    (let numBuckets = unat (GetNumberOfValidBuckets b)
     in if numBuckets = 0 then 0
        else let mean = bucketizer_mean b;
                 ssd = fold (\<lambda>i ssd. let dev = real (unat (vBuckets b ! i)) - mean
                                     in ssd + dev * dev) [0..<numBuckets] 0
             in sqrt (ssd / real numBuckets))"

definition bucketizer_Merge :: "io_bucketizer \<Rightarrow> io_bucketizer \<Rightarrow> io_bucketizer" where
  "bucketizer_Merge b other =
    (let v = (if length (vBuckets other) > length (vBuckets b)
              then vec_resize (length (vBuckets other)) (vBuckets b) else vBuckets b);
         valid = (if validBuckets other > validBuckets b then validBuckets other
                  else validBuckets b)
     in b\<lparr>validBuckets := valid,
          vBuckets := fold (\<lambda>i v. v[i := v ! i + vBuckets other ! i])
                        [0..<length (vBuckets other)] v\<rparr>)"

section \<open>Loops over the vector\<close>

text \<open>Sums accumulated by a loop, and what the update loops do element by element.\<close>

lemma fold_plus_sum: "fold (\<lambda>i s. s + f i) is (s :: real) = s + sum_list (map f is)"
  by (induction "is" arbitrary: s) auto

lemma length_fold_list_update [simp]:
  "length (fold (\<lambda>i v. v[i := g i v]) is v) = length v"
  by (induction "is" arbitrary: v) auto

lemma fold_zero_id:
  "(\<And>i. i \<in> set is \<Longrightarrow> i < length v \<Longrightarrow> v ! i = 0) \<Longrightarrow> fold (\<lambda>i v. v[i := 0]) is v = v"
proof (induction "is")
  case (Cons i "is")
  have "v[i := 0] = v"
    using Cons.prems [of i] by (cases "i < length v") (auto simp: list_update_beyond list_update_same_conv)
  with Cons show ?case by simp
qed simp

lemma zero_loop_id:
  "length xs \<le> k \<Longrightarrow> fold (\<lambda>i v. v[i := 0]) [k..<m] (vec_resize n xs) = vec_resize n xs"
  by (rule fold_zero_id) (auto simp: vec_resize_def nth_append)

lemma nth0_merge_loop:
  "n \<le> length v \<Longrightarrow> n \<le> length w \<Longrightarrow>
    nth0 (fold (\<lambda>i v. v[i := v ! i + w ! i]) [0..<n] v)
      = (\<lambda>i. if i < n then nth0 v i + nth0 w i else nth0 v i)"
proof (induction n)
  case 0
  then show ?case by simp
next
  case (Suc n)
  let ?u = "fold (\<lambda>i v. v[i := v ! i + w ! i]) [0..<n] v"
  have "nth0 (?u[n := ?u ! n + w ! n]) = (nth0 ?u)(n := nth0 ?u n + nth0 w n)"
    using Suc.prems by (simp add: nth0_list_update nth_eq_nth0)
  also have "\<dots> = (\<lambda>i. if i < Suc n then nth0 v i + nth0 w i else nth0 v i)"
    using Suc by (auto simp: fun_eq_iff less_Suc_eq)
  finally show ?case by simp
qed

section \<open>What the operations do to the counts\<close>

definition bucketizer_inv :: "io_bucketizer \<Rightarrow> bool" where
  "bucketizer_inv b \<longleftrightarrow> length (vBuckets b) < 2 ^ 64"

text \<open>The samples a bucketizer stands for: each bucket index as often as it was counted.\<close>

definition bucket_samples :: "io_bucketizer \<Rightarrow> nat multiset" where
  "bucket_samples b =
    sum_list (map (\<lambda>i. replicate_mset (unat (vBuckets b ! i)) i) [0..<length (vBuckets b)])"

definition bucket_ok :: "u64 \<Rightarrow> u64 \<Rightarrow> bool" where
  "bucket_ok duration t \<longleftrightarrow> duration \<noteq> 0 \<and> unat t div unat duration + 1 < 2 ^ 64"

definition bucket_key :: "u64 \<Rightarrow> u64 \<Rightarrow> nat" where
  "bucket_key duration t = unat t div unat duration"

lemma count_replicate_upt:
  "count (sum_list (map (\<lambda>i. replicate_mset (f i) i) [0..<n])) k = (if k < n then f k else 0)"
  by (induction n) auto

lemma count_bucket_samples: "count (bucket_samples b) i = unat (nth0 (vBuckets b) i)"
  by (simp add: bucket_samples_def count_replicate_upt nth0_def)

lemma bucket_count_less:
  "size (bucket_samples b) < n \<Longrightarrow> unat (nth0 (vBuckets b) i) < n"
  using count_le_size [of "bucket_samples b" i] by (simp add: count_bucket_samples)

lemma size_bucket_samples:
  "size (bucket_samples b) = sum_list (map unat (vBuckets b))"
proof -
  have "size (sum_list (map (\<lambda>i. replicate_mset (f i) i) [0..<n])) = sum_list (map f [0..<n])"
    for f n by (induction n) auto
  then have "size (bucket_samples b)
      = sum_list (map (\<lambda>i. unat (vBuckets b ! i)) [0..<length (vBuckets b)])"
    unfolding bucket_samples_def by simp
  also have "map (\<lambda>i. unat (vBuckets b ! i)) [0..<length (vBuckets b)] = map unat (vBuckets b)"
    by (rule nth_equalityI) auto
  finally show ?thesis .
qed

lemma bucketizer_Add_step:
  assumes "length (vBuckets b) < 2 ^ 64" and "bucket_ok (bucketDuration b) t"
  defines "n \<equiv> bucket_key (bucketDuration b) t"
  shows "\<exists>b'. bucketizer_Add t b = Inr b' \<and> bucketDuration b' = bucketDuration b \<and>
    validBuckets b' = validBuckets b \<and> length (vBuckets b') = max (length (vBuckets b)) (n + 1) \<and>
    nth0 (vBuckets b') = (nth0 (vBuckets b))(n := nth0 (vBuckets b) n + 1)"
proof -
  let ?k = "t div bucketDuration b"
  let ?v = "vBuckets b"
  let ?u = "if length ?v < n + 1 then vec_resize (n + 1) ?v else ?v"
  from assms have d: "bucketDuration b \<noteq> 0" and n: "unat ?k = n" and n1: "n + 1 < 2 ^ 64"
    by (simp_all add: bucket_ok_def bucket_key_def unat_div_word)
  have len: "unat (word_of_nat (length ?v) :: u64) = length ?v"
    using assms(1) by (rule unat_of_nat_u64)
  have k1: "unat (?k + 1) = n + 1"
    using n n1 by (simp add: unat_add_u64)
  have grow: "(word_of_nat (length ?v) :: u64) < ?k + 1 \<longleftrightarrow> length ?v < n + 1"
    by (simp only: word_less_nat_alt len k1)
  have bound: "n < length ?u" by auto
  have "bucketizer_Add t b = Inr (b\<lparr>vBuckets := ?u[n := ?u ! n + 1]\<rparr>)"
    using d bound grow len n k1
    by (auto simp: bucketizer_Add_def INVALID_BUCKET_DURATION_def Let_def zero_loop_id simp del: upt_Suc)
  moreover have "nth0 (?u[n := ?u ! n + 1]) = (nth0 ?v)(n := nth0 ?v n + 1)"
    using bound by (simp only: nth0_list_update nth_eq_nth0) (simp add: nth0_vec_resize)
  ultimately show ?thesis by auto
qed

lemma bucketizer_Merge_nth0:
  "nth0 (vBuckets (bucketizer_Merge b c)) = (\<lambda>i. nth0 (vBuckets b) i + nth0 (vBuckets c) i)"
proof -
  let ?v = "vBuckets b" and ?w = "vBuckets c"
  let ?u = "if length ?w > length ?v then vec_resize (length ?w) ?v else ?v"
  have u: "length ?w \<le> length ?u" "nth0 ?u = nth0 ?v" by (auto simp: nth0_vec_resize)
  have "nth0 (fold (\<lambda>i v. v[i := v ! i + ?w ! i]) [0..<length ?w] ?u)
      = (\<lambda>i. if i < length ?w then nth0 ?v i + nth0 ?w i else nth0 ?v i)"
    using nth0_merge_loop [OF u(1) order_refl] by (simp only: u(2))
  also have "\<dots> = (\<lambda>i. nth0 ?v i + nth0 ?w i)"
    by (auto simp: fun_eq_iff nth0_def)
  finally have "nth0 (fold (\<lambda>i v. v[i := v ! i + ?w ! i]) [0..<length ?w] ?u)
      = (\<lambda>i. nth0 ?v i + nth0 ?w i)" .
  then show ?thesis by (simp add: bucketizer_Merge_def Let_def)
qed

lemma bucketizer_Merge_fields:
  "length (vBuckets (bucketizer_Merge b c)) = max (length (vBuckets b)) (length (vBuckets c))"
  "validBuckets (bucketizer_Merge b c) = max (validBuckets b) (validBuckets c)"
  "bucketDuration (bucketizer_Merge b c) = bucketDuration b"
  by (auto simp: bucketizer_Merge_def Let_def max_def)

lemmas bucketizer_Merge_simps = bucketizer_Merge_nth0 bucketizer_Merge_fields

section \<open>The accumulator contract holds\<close>

interpretation bucketizer: accumulator bucketizer_Add bucketizer_Merge bucket_samples
  bucketizer_inv bucketDuration bucket_ok bucket_key
proof unfold_locales
  fix h t
  assume inv: "bucketizer_inv h" and ok: "bucket_ok (bucketDuration h) t"
    and few: "size (bucket_samples h) + 1 < 2 ^ 32"
  let ?n = "bucket_key (bucketDuration h) t"
  from inv ok obtain h' where h': "bucketizer_Add t h = Inr h'"
    "bucketDuration h' = bucketDuration h" "length (vBuckets h') = max (length (vBuckets h)) (?n + 1)"
    "nth0 (vBuckets h') = (nth0 (vBuckets h))(?n := nth0 (vBuckets h) ?n + 1)"
    using bucketizer_Add_step unfolding bucketizer_inv_def by blast
  moreover have "bucket_samples h' = add_mset ?n (bucket_samples h)"
    using few bucket_count_less [of h "2 ^ 32 - 1" ?n]
    by (intro multiset_eqI) (auto simp: count_bucket_samples h'(4) unat_add_u32)
  moreover have "bucketizer_inv h'"
    using inv ok by (auto simp: bucketizer_inv_def h'(3) bucket_ok_def bucket_key_def)
  ultimately show "\<exists>h'. bucketizer_Add t h = Inr h' \<and> bucketizer_inv h' \<and>
      bucketDuration h' = bucketDuration h \<and> bucket_samples h' = add_mset ?n (bucket_samples h)"
    by blast
next
  fix h g
  assume inv: "bucketizer_inv h" "bucketizer_inv g"
    and few: "size (bucket_samples h) + size (bucket_samples g) < 2 ^ 32"
  show "bucketizer_inv (bucketizer_Merge h g)"
    using inv by (auto simp: bucketizer_inv_def bucketizer_Merge_simps)
  have "unat (nth0 (vBuckets h) i) + unat (nth0 (vBuckets g) i) < 2 ^ 32" for i
    using few count_le_size [of "bucket_samples h" i] count_le_size [of "bucket_samples g" i]
    by (simp add: count_bucket_samples)
  then show "bucket_samples (bucketizer_Merge h g) = bucket_samples h + bucket_samples g"
    by (intro multiset_eqI) (simp add: count_bucket_samples bucketizer_Merge_simps unat_add_u32)
qed

lemma bucketizer_foldE_Add:
  assumes "foldE bucketizer_Add ts b = Inr b'" and "bucketizer_inv b"
    and "\<forall>t \<in> set ts. bucket_ok (bucketDuration b) t"
  shows "nth0 (vBuckets b') = (\<lambda>i. nth0 (vBuckets b) i +
      of_nat (length (filter (\<lambda>t. bucket_key (bucketDuration b) t = i) ts))) \<and>
    length (vBuckets b') = fold (\<lambda>t. max (bucket_key (bucketDuration b) t + 1)) ts (length (vBuckets b)) \<and>
    bucketDuration b' = bucketDuration b \<and> validBuckets b' = validBuckets b"
  using assms
proof (induction ts arbitrary: b)
  case Nil
  then show ?case by simp
next
  case (Cons t ts)
  let ?n = "bucket_key (bucketDuration b) t"
  from Cons.prems have ok: "bucket_ok (bucketDuration b) t" "length (vBuckets b) < 2 ^ 64"
    by (simp_all add: bucketizer_inv_def)
  then obtain b1 where b1: "bucketizer_Add t b = Inr b1" "bucketDuration b1 = bucketDuration b"
    "validBuckets b1 = validBuckets b" "length (vBuckets b1) = max (length (vBuckets b)) (?n + 1)"
    "nth0 (vBuckets b1) = (nth0 (vBuckets b))(?n := nth0 (vBuckets b) ?n + 1)"
    using bucketizer_Add_step by blast
  have "bucketizer_inv b1"
    using ok by (auto simp: bucketizer_inv_def b1(4) bucket_ok_def bucket_key_def)
  with Cons.IH [of b1] Cons.prems b1 show ?case
    by (auto simp: fun_eq_iff max.commute)
qed

lemma fold_max_append:
  "fold (\<lambda>t. max (f t)) us (max a b) = max (fold (\<lambda>t. max (f t)) us a) (b :: nat)"
  by (induction us arbitrary: a) (auto simp: max.assoc [symmetric])

lemma fold_max_start: "fold (\<lambda>t. max (f t)) vs a = max a (fold (\<lambda>t. max (f t)) vs (0 :: nat))"
  using fold_max_append [of f vs 0 a] by (simp add: max.commute)

section \<open>The deviation of the counts\<close>

lemma GetNumberOfValidBuckets_min:
  "bucketizer_inv b \<Longrightarrow>
    unat (GetNumberOfValidBuckets b) = min (length (vBuckets b)) (unat (validBuckets b))"
  by (auto simp: GetNumberOfValidBuckets_def bucketizer_inv_def word_less_nat_alt
      unat_of_nat_u64 min_def)

definition valid_counts :: "io_bucketizer \<Rightarrow> real list" where
  "valid_counts b = map (\<lambda>w. real (unat w)) (take (unat (validBuckets b)) (vBuckets b))"

definition mean_of :: "real list \<Rightarrow> real" where
  "mean_of xs = sum_list xs / real (length xs)"

lemma valid_counts_upt:
  "bucketizer_inv b \<Longrightarrow>
    valid_counts b = map (\<lambda>i. real (unat (vBuckets b ! i))) [0..<unat (GetNumberOfValidBuckets b)]"
  by (rule nth_equalityI) (auto simp: valid_counts_def GetNumberOfValidBuckets_min)

lemma length_valid_counts:
  "bucketizer_inv b \<Longrightarrow> length (valid_counts b) = unat (GetNumberOfValidBuckets b)"
  by (simp add: valid_counts_upt)

lemma sum_list_divide: "sum_list (map (\<lambda>i. f i / c) xs) = sum_list (map f xs) / (c :: real)"
  by (induction xs) (auto simp: add_divide_distrib)

lemma bucketizer_mean_eq: "bucketizer_inv b \<Longrightarrow> bucketizer_mean b = mean_of (valid_counts b)"
  by (simp add: bucketizer_mean_def Let_def fold_plus_sum sum_list_divide mean_of_def
      valid_counts_upt)

lemma bucketizer_stddev_eq:
  assumes "bucketizer_inv b" and "valid_counts b \<noteq> []"
  shows "bucketizer_GetStandardDeviation b =
    sqrt (sum_list (map (\<lambda>x. (x - mean_of (valid_counts b))\<^sup>2) (valid_counts b))
      / real (length (valid_counts b)))"
proof -
  define m where "m = mean_of (valid_counts b)"
  define n where "n = unat (GetNumberOfValidBuckets b)"
  have vc: "valid_counts b = map (\<lambda>i. real (unat (vBuckets b ! i))) [0..<n]"
    using assms(1) by (simp add: valid_counts_upt n_def)
  have mean: "bucketizer_mean b = m" using assms(1) by (simp add: bucketizer_mean_eq m_def)
  have "n \<noteq> 0" using assms(2) vc by auto
  then have "bucketizer_GetStandardDeviation b =
      sqrt (sum_list (map (\<lambda>i. (real (unat (vBuckets b ! i)) - m) *
        (real (unat (vBuckets b ! i)) - m)) [0..<n]) / real n)"
    unfolding bucketizer_GetStandardDeviation_def Let_def mean n_def [symmetric]
    by (simp add: fold_plus_sum)
  then show ?thesis
    unfolding m_def [symmetric] by (simp add: vc comp_def power2_eq_square)
qed

section \<open>Properties\<close>

text \<open>
  C38. A bucketizer that \<open>Initialize\<close> prepared and that \<open>Add\<close> filled with a
  list of completion times holds in every bucket exactly the number of completions whose
  time falls into that interval, for fewer than 2 to the 32 completions; no \<open>Add\<close>
  fails as long as no bucket number is the largest 64-bit value.
\<close>

theorem bucketizer_counts:
  assumes "Initialize d valid IoBucketizer = Inr b0"
    and "\<forall>t \<in> set ts. unat t div unat d + 1 < 2 ^ 64"
    and "length ts < 2 ^ 32"
  shows "\<exists>b. foldE bucketizer_Add ts b0 = Inr b \<and> validBuckets b = valid \<and>
    (\<forall>i. unat (nth0 (vBuckets b) i) = length (filter (\<lambda>t. unat t div unat d = i) ts))"
proof -
  from assms(1) have b0: "bucketDuration b0 = d" "vBuckets b0 = []" "d \<noteq> 0" "validBuckets b0 = valid"
    by (auto simp: Initialize_def IoBucketizer_def INVALID_BUCKET_DURATION_def split: if_splits)
  then have inv: "bucketizer_inv b0" and ok: "\<forall>t \<in> set ts. bucket_ok (bucketDuration b0) t"
    using assms(2) by (simp_all add: bucketizer_inv_def bucket_ok_def)
  have empty: "bucket_samples b0 = {#}" by (simp add: bucket_samples_def b0)
  with bucketizer.collect [OF inv ok] assms(3) obtain b where b: "foldE bucketizer_Add ts b0 = Inr b"
    "bucket_samples b = mset (map (bucket_key d) ts)" by (auto simp: b0)
  have "unat (nth0 (vBuckets b) i) = length (filter (\<lambda>t. unat t div unat d = i) ts)" for i
    unfolding count_bucket_samples [symmetric] b(2)
    by (induction ts) (auto simp: bucket_key_def)
  with b bucketizer_foldE_Add [OF b(1) inv ok] b0 show ?thesis by auto
qed

theorem bucketizer_counts_witness:
  "Initialize 1000 10 IoBucketizer = Inr \<lparr>bucketDuration = 1000, validBuckets = 10, vBuckets = []\<rparr> \<and>
   (\<exists>b. foldE bucketizer_Add [5, 2500, 2999] \<lparr>bucketDuration = 1000, validBuckets = 10, vBuckets = []\<rparr> = Inr b
      \<and> validBuckets b = 10 \<and>
      (\<forall>i. unat (nth0 (vBuckets b) i)
        = length (filter (\<lambda>t. unat t div unat (1000 :: u64) = i) [5, 2500, 2999 :: u64])))"
proof -
  have i: "Initialize 1000 10 IoBucketizer = Inr \<lparr>bucketDuration = 1000, validBuckets = 10, vBuckets = []\<rparr>"
    by (simp add: Initialize_def IoBucketizer_def INVALID_BUCKET_DURATION_def)
  show ?thesis using i bucketizer_counts [OF i, of "[5, 2500, 2999]"] by simp
qed

text \<open>
  C37. Merging two bucketizers that were filled apart, from the same initialized state,
  gives the very object that filling one bucketizer with both streams gives: the formatter
  may therefore keep reads and writes apart and merge them for the totals.
\<close>

theorem bucketizer_merge_streams:
  assumes "bucketDuration b0 = d" and "vBuckets b0 = []"
    and "\<forall>t \<in> set (us @ vs). d \<noteq> 0 \<and> unat t div unat d + 1 < 2 ^ 64"
    and "foldE bucketizer_Add us b0 = Inr a" and "foldE bucketizer_Add vs b0 = Inr b"
    and "foldE bucketizer_Add (us @ vs) b0 = Inr c"
  shows "bucketizer_Merge a b = c"
proof -
  have inv: "bucketizer_inv b0" and ok: "\<forall>t \<in> set us. bucket_ok (bucketDuration b0) t"
    "\<forall>t \<in> set vs. bucket_ok (bucketDuration b0) t" "\<forall>t \<in> set (us @ vs). bucket_ok (bucketDuration b0) t"
    using assms(1-3) by (auto simp: bucketizer_inv_def bucket_ok_def)
  note a = bucketizer_foldE_Add [OF assms(4) inv ok(1)] and b = bucketizer_foldE_Add [OF assms(5) inv ok(2)]
    and c = bucketizer_foldE_Add [OF assms(6) inv ok(3)]
  let ?m = "bucketizer_Merge a b"
  have "length (vBuckets ?m) = length (vBuckets c)"
    using a b c fold_max_start [of "\<lambda>t. bucket_key d t + 1" vs
        "fold (\<lambda>t. max (bucket_key d t + 1)) us 0"]
    by (simp add: bucketizer_Merge_simps assms(1,2))
  moreover have "nth0 (vBuckets ?m) = nth0 (vBuckets c)"
    using a b c by (simp add: bucketizer_Merge_simps assms(1,2))
  ultimately have "vBuckets ?m = vBuckets c" by (rule eq_nth0I)
  with a b c show ?thesis by (simp add: bucketizer_Merge_simps)
qed

theorem bucketizer_merge_streams_witness:
  "bucketizer_Merge \<lparr>bucketDuration = 10, validBuckets = 3, vBuckets = [1]\<rparr>
     \<lparr>bucketDuration = 10, validBuckets = 3, vBuckets = [0, 0, 2]\<rparr>
   = \<lparr>bucketDuration = 10, validBuckets = 3, vBuckets = [1, 0, 2]\<rparr>"
proof -
  let ?b0 = "\<lparr>bucketDuration = 10, validBuckets = 3, vBuckets = []\<rparr>"
  have "foldE bucketizer_Add [7] ?b0 = Inr \<lparr>bucketDuration = 10, validBuckets = 3, vBuckets = [1]\<rparr>"
    "foldE bucketizer_Add [25, 29] ?b0 = Inr \<lparr>bucketDuration = 10, validBuckets = 3, vBuckets = [0, 0, 2]\<rparr>"
    "foldE bucketizer_Add ([7] @ [25, 29]) ?b0 = Inr \<lparr>bucketDuration = 10, validBuckets = 3, vBuckets = [1, 0, 2]\<rparr>"
    by code_simp+
  from bucketizer_merge_streams [OF _ _ _ this, of 10] show ?thesis by simp
qed

text \<open>
  Operations that complete after the measured time span only reach buckets beyond the
  valid ones: once the valid buckets exist, such an \<open>Add\<close> succeeds and leaves the
  deviation as it is.
\<close>

theorem bucketizer_stragglers:
  assumes "length (vBuckets b) < 2 ^ 64" and "unat (validBuckets b) \<le> length (vBuckets b)"
    and "bucketDuration b \<noteq> 0" and "unat t div unat (bucketDuration b) + 1 < 2 ^ 64"
    and "unat (validBuckets b) \<le> unat t div unat (bucketDuration b)"
  shows "\<exists>b'. bucketizer_Add t b = Inr b' \<and>
    bucketizer_GetStandardDeviation b' = bucketizer_GetStandardDeviation b"
proof -
  let ?n = "unat t div unat (bucketDuration b)" and ?k = "unat (validBuckets b)"
  from bucketizer_Add_step [of b t] assms(1,3,4) obtain b' where b': "bucketizer_Add t b = Inr b'"
    "validBuckets b' = validBuckets b" "length (vBuckets b') = max (length (vBuckets b)) (?n + 1)"
    "nth0 (vBuckets b') = (nth0 (vBuckets b))(?n := nth0 (vBuckets b) ?n + 1)"
    by (auto simp: bucket_ok_def bucket_key_def)
  have inv: "bucketizer_inv b" "bucketizer_inv b'" using assms b' by (auto simp: bucketizer_inv_def)
  have "take ?k (vBuckets b') = take ?k (vBuckets b)"
    using assms(2,5) b' by (simp add: map_nth0 [symmetric])
  then have same: "valid_counts b' = valid_counts b" by (simp add: valid_counts_def b'(2))
  moreover have "bucketizer_GetStandardDeviation b' = bucketizer_GetStandardDeviation b"
  proof (cases "valid_counts b = []")
    case True
    then have "unat (GetNumberOfValidBuckets b) = 0" "unat (GetNumberOfValidBuckets b') = 0"
      using same length_valid_counts [OF inv(1)] length_valid_counts [OF inv(2)] by simp_all
    then show ?thesis by (simp add: bucketizer_GetStandardDeviation_def)
  next
    case False
    with same show ?thesis by (simp add: bucketizer_stddev_eq inv)
  qed
  ultimately show ?thesis using b' by blast
qed

theorem bucketizer_stragglers_witness:
  "\<exists>b'. bucketizer_Add 25 \<lparr>bucketDuration = 10, validBuckets = 2, vBuckets = [3, 5]\<rparr> = Inr b' \<and>
    bucketizer_GetStandardDeviation b'
      = bucketizer_GetStandardDeviation \<lparr>bucketDuration = 10, validBuckets = 2, vBuckets = [3, 5]\<rparr>"
  using bucketizer_stragglers [of "\<lparr>bucketDuration = 10, validBuckets = 2, vBuckets = [3, 5]\<rparr>" 25]
  by simp

end
