(* ===== verification/Rng_Engine.thy ===== *)
theory Rng_Engine
  imports Prelude
begin

text \<open>
  The random number wrapper (\<open>src/src/rng_engine.h\<close>). The Mersenne twisters and
  \<open>std::uniform_int_distribution\<close> of the C++ library are parameters: \<open>mt64\<close> and
  \<open>mt32\<close> seed an engine, \<open>dist64\<close> and \<open>dist32\<close> draw from the distribution
  over the closed interval \<open>[a, b]\<close>. What the code relies on is the documented contract
  of the distribution, the predicate \<open>uniform\<close>: for \<open>a \<le> b\<close> a draw lies in the
  interval (for \<open>a > b\<close> the library's behaviour is undefined).
\<close>

record ('g, 'h) rng_engine =
  engine64 :: 'g
  engine :: 'h

type_synonym 'g distribution = "int \<Rightarrow> int \<Rightarrow> 'g \<Rightarrow> int \<times> 'g"

definition uniform :: "'g distribution \<Rightarrow> bool" where
  "uniform D \<longleftrightarrow> (\<forall>a b g. a \<le> b \<longrightarrow> a \<le> fst (D a b g) \<and> fst (D a b g) \<le> b)"

text \<open>The constructors: from two draws of \<open>random_device\<close>, or from one seed for both engines.\<close>

definition RngEngine_random ::
  "(u64 \<Rightarrow> 'g) \<Rightarrow> (u64 \<Rightarrow> 'h) \<Rightarrow> u32 \<Rightarrow> u32 \<Rightarrow> ('g, 'h) rng_engine" where
  "RngEngine_random mt64 mt32 rd1 rd2 = \<lparr>engine64 = mt64 (ucast rd2), engine = mt32 (ucast rd1)\<rparr>"

definition RngEngine_seed :: "(u64 \<Rightarrow> 'g) \<Rightarrow> (u64 \<Rightarrow> 'h) \<Rightarrow> u64 \<Rightarrow> ('g, 'h) rng_engine" where
  "RngEngine_seed mt64 mt32 seed = \<lparr>engine64 = mt64 seed, engine = mt32 seed\<rparr>"

text \<open>
  \<open>get_rand_offset\<close> uses the distribution at its default type \<open>int\<close>: the upper
  bound \<open>size-1\<close> is converted to a 32-bit signed integer.
\<close>

definition get_rand_offset ::
  "'g distribution \<Rightarrow> off_t \<Rightarrow> ('g, 'h) rng_engine \<Rightarrow> fault + off_t \<times> ('g, 'h) rng_engine" where
  "get_rand_offset dist64 sz r =
    (let b = sint (ucast (sz - 1) :: 32 word)
     in if b < 0 then Inl Undefined
        else let (v, g) = dist64 0 b (engine64 r)
             in Inr (word_of_int v, r\<lparr>engine64 := g\<rparr>))"

definition get_percentage ::
  "'h distribution \<Rightarrow> ('g, 'h) rng_engine \<Rightarrow> u32 \<times> ('g, 'h) rng_engine" where
  "get_percentage dist32 r =
    (let (v, g) = dist32 1 100 (engine r) in (word_of_int v, r\<lparr>engine := g\<rparr>))"

section \<open>The draws\<close>

lemma uniformD: "uniform D \<Longrightarrow> a \<le> b \<Longrightarrow> D a b g = (v, g') \<Longrightarrow> a \<le> v \<and> v \<le> b"
  unfolding uniform_def by (metis fst_conv)

lemma sint_low32: "sint (ucast (w :: u64) :: 32 word) = signed_take_bit 31 (uint w)"
  by (simp add: sint_uint unsigned_ucast_eq signed_take_bit_take_bit)

lemma low32_small: "uint (w :: u64) < 2 ^ 31 \<Longrightarrow> sint (ucast w :: 32 word) = uint w"
  unfolding sint_low32
  by (rule signed_take_bit_int_eq_self) (auto intro: order_trans [OF _ uint_nonnegative])

lemma low32_bound: "sint (w :: 32 word) < 2 ^ 31"
  using sint_lt [of w] by simp

lemma get_rand_offset_bound:
  assumes "uniform dist64" and "get_rand_offset dist64 sz r = Inr (v, r')"
  shows "uint v \<le> sint (ucast (sz - 1) :: 32 word) \<and> uint v < 2 ^ 31"
proof -
  let ?b = "sint (ucast (sz - 1) :: 32 word)"
  from assms(2) obtain x g where "0 \<le> ?b" "dist64 0 ?b (engine64 r) = (x, g)" "v = word_of_int x"
    by (auto simp: get_rand_offset_def Let_def not_less split: if_splits prod.splits)
  with uniformD [OF assms(1)] have "0 \<le> x" "x \<le> ?b" "v = word_of_int x" by blast+
  then show ?thesis
    using low32_bound [of "ucast (sz - 1)"]
    by (simp add: word_of_int_inverse uint_word_of_int_eq take_bit_int_eq_self)
qed

lemma get_rand_offset_total:
  assumes "0 < uint sz" and "uint sz \<le> 2 ^ 31"
  shows "\<exists>v r'. get_rand_offset dist64 sz r = Inr (v, r')"
proof -
  have "uint (sz - 1) = uint sz - 1" using assms(1) by (simp add: uint_sub)
  then have "\<not> sint (ucast (sz - 1) :: 32 word) < 0"
    using low32_small [of "sz - 1"] assms by simp
  then show ?thesis by (auto simp: get_rand_offset_def Let_def split: prod.splits)
qed

section \<open>Properties\<close>

text \<open>
  For a range of 1 to 2 to the 31 positions \<open>get_rand_offset\<close> returns a number in
  \<open>[0, size)\<close>, as its comment says, whatever the engine state; the percentage drawn for
  the read or write decision is between 1 and 100.
\<close>

theorem rand_offset_in_range:
  assumes "uniform dist64" and "uniform dist32" and "0 < uint sz" and "uint sz \<le> 2 ^ 31"
  shows "(\<exists>v r'. get_rand_offset dist64 sz r = Inr (v, r') \<and> uint v < uint sz) \<and>
    1 \<le> unat (fst (get_percentage dist32 r)) \<and> unat (fst (get_percentage dist32 r)) \<le> 100"
proof -
  obtain v r' where v: "get_rand_offset dist64 sz r = Inr (v, r')"
    using get_rand_offset_total assms(3,4) by blast
  have "uint (sz - 1) = uint sz - 1" using assms(3) by (simp add: uint_sub)
  then have "sint (ucast (sz - 1) :: 32 word) = uint sz - 1"
    using low32_small [of "sz - 1"] assms(4) by simp
  with get_rand_offset_bound [OF assms(1) v] have "uint v < uint sz" by simp
  moreover obtain x g where x: "dist32 1 100 (engine r) = (x, g)" by force
  moreover have "1 \<le> x \<and> x \<le> 100" using uniformD [OF assms(2) _ x] by simp
  ultimately show ?thesis
    using v by (auto simp: get_percentage_def unat_eq_nat_uint uint_word_of_int_eq take_bit_int_eq_self)
qed

theorem rand_offset_in_range_witness:
  "uniform (\<lambda>a b (g :: int). (if a \<le> b then a else b, g + 1)) \<and>
   (\<exists>v r'. get_rand_offset (\<lambda>a b (g :: int). (if a \<le> b then a else b, g + 1)) 2048
      (RngEngine_seed uint uint 5) = Inr (v, r') \<and> uint v < 2048)"
proof -
  have u: "uniform (\<lambda>a b (g :: int). (if a \<le> b then a else b, g + 1))" by (simp add: uniform_def)
  show ?thesis using u rand_offset_in_range [OF u u, of 2048 "RngEngine_seed uint uint 5"] by simp
qed

text \<open>
  The conversion of the upper bound to \<open>int\<close> cuts larger ranges off: no call ever
  returns 2 to the 31 or more, however large the requested range is, and for a range of
  exactly 2 to the 32 positions (a 16 TiB device in 4 KiB blocks) the distribution is asked
  for an empty interval, which is undefined.
\<close>

theorem rand_offset_truncated:
  assumes "uniform dist64"
  shows "get_rand_offset dist64 4294967296 r = Inl Undefined \<and>
    (\<forall>sz v r'. get_rand_offset dist64 sz r = Inr (v, r') \<longrightarrow> uint v < 2 ^ 31)"
  using get_rand_offset_bound [OF assms] by (auto simp: get_rand_offset_def)

theorem rand_offset_truncated_witness:
  "get_rand_offset (\<lambda>a b (g :: int). (if a \<le> b then a else b, g + 1)) 4294967296
    (RngEngine_seed uint uint 5) = Inl Undefined"
proof -
  have u: "uniform (\<lambda>a b (g :: int). (if a \<le> b then a else b, g + 1))" by (simp add: uniform_def)
  from rand_offset_truncated [OF u] show ?thesis by blast
qed

end
