(* ===== verification/Target.thy ===== *)
theory Target
  imports Histogram Io_Bucketizer Rng_Engine
begin

unbundle bit_operations_syntax

text \<open>
  Targets (\<open>src/src/target.h\<close>): the record of a file or device, the results kept per
  target and thread, the aligned I/O buffers and the four operations that choose the offset
  of the next I/O. The offset operations work on the shared target and the thread's random
  engine, passed as a state; the section under \<open>interlocked_mutex\<close> is one atomic step of
  that state. The interface of the operations to the worker is the locale \<open>offset_source\<close>.
\<close>

section \<open>Data\<close>

record target =
  path :: string
  tsize :: off_t
  device :: string
  scheduler :: string
  sector_size :: size_t
  create_file :: bool
  block_size :: size_t
  base_offset :: off_t
  max_size :: off_t
  overlap :: u32
  thread_offset :: off_t
  stride :: off_t
  open_flags :: u32
  use_random_alignment :: bool
  use_interlocked :: bool
  write_percentage :: u32
  threads_per_target :: u32
  zero_buffers :: bool
  rand_buffers :: bool
  separate_buffers :: bool
  max_throughput :: off_t
  interlocked_offset :: off_t

definition O_RDWR :: u32 where "O_RDWR = 2"
definition O_DIRECT :: u32 where "O_DIRECT = 0x4000"
definition O_SYNC :: u32 where "O_SYNC = 0x101000"
definition O_CREAT :: u32 where "O_CREAT = 0x40"

definition Target :: "string \<Rightarrow> target" where
  "Target p = \<lparr>path = p, tsize = 0, device = '''', scheduler = '''', sector_size = 512,
     create_file = False, block_size = 64 * 1024, base_offset = 0, max_size = 0, overlap = 2,
     thread_offset = 0, stride = 64 * 1024, open_flags = O_RDWR, use_random_alignment = False,
     use_interlocked = False, write_percentage = 0, threads_per_target = 1, zero_buffers = False,
     rand_buffers = False, separate_buffers = False, max_throughput = 0, interlocked_offset = 0\<rparr>"

record target_results =
  bytes_count :: u64
  read_bytes_count :: u64
  write_bytes_count :: u64
  iops_count :: u64
  read_iops_count :: u64
  write_iops_count :: u64
  read_latency_histogram :: histogram
  write_latency_histogram :: histogram
  read_bucketizer :: io_bucketizer
  write_bucketizer :: io_bucketizer

definition TargetResults :: target_results where
  "TargetResults = \<lparr>bytes_count = 0, read_bytes_count = 0, write_bytes_count = 0,
     iops_count = 0, read_iops_count = 0, write_iops_count = 0,
     read_latency_histogram = Histogram, write_latency_histogram = Histogram,
     read_bucketizer = IoBucketizer, write_bucketizer = IoBucketizer\<rparr>"

section \<open>Buffers\<close>

text \<open>
  A buffer: the address the allocator returned, the aligned address, and the bytes from
  there on. The allocator is a parameter: the address it returns for a request.
\<close>

record target_buffer =
  unaligned :: u64
  buf_ptr :: u64
  buf_sz :: size_t
  buf_align :: size_t
  bytes :: "u8 list"

definition TargetBuffer :: target_buffer where
  "TargetBuffer = \<lparr>unaligned = 0, buf_ptr = 0, buf_sz = 0, buf_align = 1, bytes = []\<rparr>"

definition new_buffer :: "(size_t \<Rightarrow> u64) \<Rightarrow> target_buffer \<Rightarrow> fault + target_buffer" where
  "new_buffer alloc b =
    (if buf_sz b = 0 then Inr b
     else if \<not> (buf_align b \<noteq> 0 \<and> (buf_align b = 1 \<or> buf_align b AND (buf_align b - 1) = 0))
       then Inl Assert_Failed
     else let u = alloc (buf_sz b + buf_align b - 1)
          in if u = 0 then Inl Assert_Failed
             else Inr (b\<lparr>unaligned := u,
               buf_ptr := (u + buf_align b - 1) AND NOT (buf_align b - 1),
               bytes := replicate (unat (buf_sz b)) 0\<rparr>))"

text \<open>\<open>TargetBuffer::calloc\<close>; the memory it frees is not modelled.\<close>

definition buffer_calloc ::
  "(size_t \<Rightarrow> u64) \<Rightarrow> size_t \<Rightarrow> size_t \<Rightarrow> target_buffer \<Rightarrow> fault + target_buffer" where
  "buffer_calloc alloc sz align b =
    new_buffer alloc (b\<lparr>buf_sz := sz, buf_align := align, unaligned := 0, buf_ptr := 0\<rparr>)"

text \<open>The constructors of a buffer of a given size; without an alignment it is 1.\<close>

definition TargetBuffer_aligned :: "(size_t \<Rightarrow> u64) \<Rightarrow> size_t \<Rightarrow> size_t \<Rightarrow> fault + target_buffer" where
  "TargetBuffer_aligned alloc sz align = new_buffer alloc (TargetBuffer\<lparr>buf_sz := sz, buf_align := align\<rparr>)"

definition TargetBuffer_sized :: "(size_t \<Rightarrow> u64) \<Rightarrow> size_t \<Rightarrow> fault + target_buffer" where
  "TargetBuffer_sized alloc sz = TargetBuffer_aligned alloc sz 1"

text \<open>The copy constructor, and assignment: it does not free the memory that the target had.\<close>

definition TargetBuffer_copy :: "(size_t \<Rightarrow> u64) \<Rightarrow> target_buffer \<Rightarrow> fault + target_buffer" where
  "TargetBuffer_copy alloc t =
    bindE (new_buffer alloc (TargetBuffer\<lparr>buf_sz := buf_sz t, buf_align := buf_align t\<rparr>))
      (\<lambda>b. Inr (b\<lparr>bytes := bytes t\<rparr>))"

definition TargetBuffer_assign ::
  "(size_t \<Rightarrow> u64) \<Rightarrow> target_buffer \<Rightarrow> target_buffer \<Rightarrow> fault + target_buffer" where
  "TargetBuffer_assign alloc t b =
    bindE (new_buffer alloc (b\<lparr>buf_sz := buf_sz t, buf_align := buf_align t\<rparr>))
      (\<lambda>b'. Inr (b'\<lparr>bytes := bytes t\<rparr>))"

definition fill_default :: "target_buffer \<Rightarrow> target_buffer" where
  "fill_default b = b\<lparr>bytes := map (\<lambda>i. word_of_nat (i mod 256)) [0..<unat (buf_sz b)]\<rparr>"

text \<open>The loop of \<open>fill_rand\<close> over the indices that are left.\<close>

primrec fill_rand_loop ::
  "'g distribution \<Rightarrow> nat list \<Rightarrow> u8 list \<Rightarrow> ('g, 'h) rng_engine
    \<Rightarrow> fault + u8 list \<times> ('g, 'h) rng_engine" where
  "fill_rand_loop dist64 [] bs r = Inr (bs, r)"
| "fill_rand_loop dist64 (i # is) bs r =
    bindE (get_rand_offset dist64 256 r)
      (\<lambda>(v, r'). fill_rand_loop dist64 is (bs[i := ucast v]) r')"

definition fill_rand ::
  "'g distribution \<Rightarrow> ('g, 'h) rng_engine \<Rightarrow> target_buffer \<Rightarrow> fault + target_buffer \<times> ('g, 'h) rng_engine" where
  "fill_rand dist64 r b =
    bindE (fill_rand_loop dist64 [0..<unat (buf_sz b)] (bytes b) r)
      (\<lambda>(bs, r'). Inr (b\<lparr>bytes := bs\<rparr>, r'))"

section \<open>Offsets\<close>

definition get_thread_base_offset :: "u32 \<Rightarrow> target \<Rightarrow> off_t" where
  "get_thread_base_offset rel_thread_id t = base_offset t + ucast rel_thread_id * thread_offset t"

text \<open>\<open>size_t\<close> is unsigned, so the sum and the comparison are.\<close>

definition correct_overflow :: "u32 \<Rightarrow> off_t \<Rightarrow> target \<Rightarrow> off_t" where
  "correct_overflow rel curr_offset t =
    (if curr_offset + block_size t > max_size t then get_thread_base_offset rel t else curr_offset)"

text \<open>\<open>%\<close> and \<open>/\<close> on \<open>off_t\<close> truncate towards zero.\<close>

definition off_div :: "off_t \<Rightarrow> off_t \<Rightarrow> off_t" where
  "off_div a b = word_of_int (sint a sdiv sint b)"

definition off_mod :: "off_t \<Rightarrow> off_t \<Rightarrow> off_t" where
  "off_mod a b = word_of_int (sint a smod sint b)"

type_synonym ('g, 'h) offset_state = "target \<times> ('g, 'h) rng_engine"

definition random_offset ::
  "'g distribution \<Rightarrow> ('g, 'h) offset_state \<Rightarrow> fault + off_t \<times> ('g, 'h) offset_state" where
  "random_offset dist64 = (\<lambda>(t, r).
    let alignment = stride t; interval = max_size t - base_offset t - block_size t
    in if alignment = 0 then Inl Undefined
       else
         let interval' = interval - off_mod interval alignment;
             range = off_div interval' alignment + 1
         in bindE (get_rand_offset dist64 range r)
              (\<lambda>(rnd, r'). Inr (base_offset t + rnd * alignment, (t, r'))))"

definition get_next_offset ::
  "'g distribution \<Rightarrow> u32 \<Rightarrow> off_t \<Rightarrow> ('g, 'h) offset_state \<Rightarrow> fault + off_t \<times> ('g, 'h) offset_state" where
  "get_next_offset dist64 rel curr_offset = (\<lambda>(t, r).
    if use_random_alignment t then random_offset dist64 (t, r)
    else if use_interlocked t then
      (let off = correct_overflow rel (interlocked_offset t + stride t) t
       in Inr (off, (t\<lparr>interlocked_offset := off\<rparr>, r)))
    else Inr (correct_overflow rel (curr_offset + stride t) t, (t, r)))"

definition get_start_offset ::
  "'g distribution \<Rightarrow> u32 \<Rightarrow> ('g, 'h) offset_state \<Rightarrow> fault + off_t \<times> ('g, 'h) offset_state" where
  "get_start_offset dist64 rel = (\<lambda>(t, r).
    if use_random_alignment t then random_offset dist64 (t, r)
    else if use_interlocked t then get_next_offset dist64 rel 0 (t, r)
    else Inr (get_thread_base_offset rel t, (t, r)))"

section \<open>Offset arithmetic\<close>

text \<open>A target whose I/O area holds at least one block for this thread, as \<open>Job::check_target\<close> leaves it.\<close>

definition target_ok :: "u32 \<Rightarrow> target \<Rightarrow> bool" where
  "target_ok rel t \<longleftrightarrow>
    unat (max_size t) < 2 ^ 63 \<and> unat (stride t) < 2 ^ 63 \<and>
    unat (base_offset t) + unat rel * unat (thread_offset t) + unat (block_size t) \<le> unat (max_size t)"

definition in_range :: "target \<Rightarrow> off_t \<Rightarrow> bool" where
  "in_range t off \<longleftrightarrow>
    unat (base_offset t) \<le> unat off \<and> unat off + unat (block_size t) \<le> unat (max_size t)"

lemma unat_ucast_u32: "unat (ucast (w :: u32) :: u64) = unat w"
  by (simp add: unsigned_ucast_eq take_bit_nat_eq_self_iff) (use unat_less32 [of w] in simp)

lemma unat_thread_base:
  assumes "target_ok rel t"
  shows "unat (get_thread_base_offset rel t) = unat (base_offset t) + unat rel * unat (thread_offset t)"
proof -
  have "unat (base_offset t) + unat rel * unat (thread_offset t) < 2 ^ 63"
    using assms by (simp add: target_ok_def)
  then show ?thesis
    by (simp add: get_thread_base_offset_def unat_word_ariths unat_ucast_u32)
qed

lemma thread_base_in_range: "target_ok rel t \<Longrightarrow> in_range t (get_thread_base_offset rel t)"
  using unat_thread_base [of rel t] by (simp add: in_range_def target_ok_def)

text \<open>One stride forward from an offset in range, or back to the thread's base.\<close>

lemma correct_overflow_step:
  assumes "target_ok rel t" and "in_range t off"
  shows "correct_overflow rel (off + stride t) t =
    (if unat off + unat (stride t) + unat (block_size t) > unat (max_size t)
     then get_thread_base_offset rel t else off + stride t)"
    and "unat (off + stride t) = unat off + unat (stride t)"
proof -
  have l: "unat off + unat (stride t) + unat (block_size t) < 2 ^ 64"
    using assms by (simp add: target_ok_def in_range_def)
  then show u: "unat (off + stride t) = unat off + unat (stride t)"
    by (simp add: unat_word_ariths)
  with l have "unat (off + stride t + block_size t) = unat off + unat (stride t) + unat (block_size t)"
    by (simp add: unat_add_u64)
  then show "correct_overflow rel (off + stride t) t =
    (if unat off + unat (stride t) + unat (block_size t) > unat (max_size t)
     then get_thread_base_offset rel t else off + stride t)"
    by (simp add: correct_overflow_def word_less_nat_alt)
qed

lemma correct_overflow_in_range:
  assumes "target_ok rel t" and "in_range t off"
  shows "in_range t (correct_overflow rel (off + stride t) t)"
  using correct_overflow_step [OF assms] thread_base_in_range [OF assms(1)] assms(2)
  by (auto simp: in_range_def)

subsection \<open>Random offsets\<close>

text \<open>The number of aligned blocks, which the generator of \<open>int\<close>s must be able to draw.\<close>

definition random_range :: "target \<Rightarrow> nat" where
  "random_range t =
    (unat (max_size t) - unat (base_offset t) - unat (block_size t)) div unat (stride t) + 1"

lemma sint_small: "unat (w :: u64) < 2 ^ 63 \<Longrightarrow> sint w = int (unat w)"
  by (simp add: sint64 uint_int)

lemma sint_of_nat: "n < 2 ^ 63 \<Longrightarrow> sint (word_of_nat n :: u64) = int n"
  using sint_small [of "word_of_nat n"] by (simp add: unat_of_nat_u64)

lemma sdiv_nat: "int a sdiv int b = int (a div b)"
  by (simp add: signed_divide_int_def zdiv_int sgn_if)

lemma smod_nat: "int a smod int b = int (a mod b)"
  by (simp add: signed_modulo_int_def sdiv_nat) (simp add: zmod_int minus_div_mult_eq_mod)

lemma random_offset_eq:
  assumes ok: "target_ok rel t" and s: "0 < unat (stride t)"
  shows "random_offset D (t, r) = bindE (get_rand_offset D (word_of_nat (random_range t)) r)
    (\<lambda>(rnd, r'). Inr (base_offset t + rnd * stride t, (t, r')))"
    and "random_range t < 2 ^ 63 + 1"
proof -
  let ?i = "unat (max_size t) - unat (base_offset t) - unat (block_size t)"
  let ?s = "unat (stride t)"
  have i63: "?i < 2 ^ 63"
    using ok less_imp_diff_less [of "unat (max_size t)" "2 ^ 63"] by (simp add: target_ok_def)
  have le: "unat (base_offset t) + unat (block_size t) \<le> unat (max_size t)"
    using ok by (simp add: target_ok_def)
  have w: "max_size t - base_offset t - block_size t = word_of_nat ?i"
  proof -
    have "word_of_nat ?i = word_of_nat (unat (max_size t)) - word_of_nat (unat (base_offset t)) -
        (word_of_nat (unat (block_size t)) :: u64)"
      using le by (simp only: of_nat_diff add_leD1 le_diff_conv2)
    then show ?thesis by simp
  qed
  have ui: "unat (word_of_nat ?i :: u64) = ?i" using i63 by (intro unat_of_nat_u64) simp
  then have si: "sint (word_of_nat ?i :: u64) = int ?i" using i63 sint_small [of "word_of_nat ?i"] by simp
  have ss: "sint (stride t) = int ?s" using ok by (intro sint_small) (simp add: target_ok_def)
  have m: "off_mod (word_of_nat ?i) (stride t) = word_of_nat (?i mod ?s)"
    unfolding off_mod_def si ss smod_nat by simp
  have d: "word_of_nat ?i - (word_of_nat (?i mod ?s) :: u64) = word_of_nat (?i div ?s * ?s)"
    by (simp only: of_nat_diff [symmetric] mod_less_eq_dividend minus_mod_eq_div_mult)
  have "?i div ?s * ?s < 2 ^ 63" using i63 by (rule le_less_trans [OF div_times_less_eq_dividend])
  then have "sint (word_of_nat (?i div ?s * ?s) :: u64) = int (?i div ?s * ?s)"
    by (rule sint_of_nat)
  then have q: "off_div (word_of_nat (?i div ?s * ?s)) (stride t) = word_of_nat (?i div ?s)"
    unfolding off_div_def ss by (simp only: sdiv_nat) (use s in simp)
  have "stride t \<noteq> 0" using s by auto
  moreover have "off_div (max_size t - base_offset t - block_size t -
      off_mod (max_size t - base_offset t - block_size t) (stride t)) (stride t) + 1
      = word_of_nat (random_range t)"
    by (simp only: w m d q random_range_def of_nat_add of_nat_1)
  ultimately show "random_offset D (t, r) = bindE (get_rand_offset D (word_of_nat (random_range t)) r)
    (\<lambda>(rnd, r'). Inr (base_offset t + rnd * stride t, (t, r')))"
    by (simp add: random_offset_def Let_def)
  show "random_range t < 2 ^ 63 + 1"
    using le_less_trans [OF div_le_dividend i63, of ?s] by (simp add: random_range_def)
qed

lemma random_offset_total:
  assumes ok: "target_ok rel t" and s: "0 < unat (stride t)" and r: "random_range t \<le> 2 ^ 31"
    and D: "uniform D"
  shows "\<exists>j g. j < random_range t \<and>
    random_offset D (t, r) = Inr (word_of_nat (unat (base_offset t) + j * unat (stride t)), (t, g)) \<and>
    unat (base_offset t) + j * unat (stride t) + unat (block_size t) \<le> unat (max_size t)"
proof -
  let ?n = "random_range t"
  have le: "unat (base_offset t) + unat (block_size t) \<le> unat (max_size t)"
    using ok by (simp add: target_ok_def)
  have u: "unat (word_of_nat ?n :: u64) = ?n" using r by (intro unat_of_nat_u64) simp
  then have ui: "uint (word_of_nat ?n :: u64) = int ?n" unfolding uint_int by simp
  have n0: "0 < ?n" by (simp add: random_range_def)
  then have "\<exists>v r'. get_rand_offset D (word_of_nat ?n) r = Inr (v, r')"
    using r by (intro get_rand_offset_total) (simp_all add: ui)
  then obtain v g where g: "get_rand_offset D (word_of_nat ?n) r = Inr (v, g)" by blast
  have "uint (word_of_nat ?n - 1 :: u64) = int ?n - 1" using n0 ui by (simp add: uint_sub)
  moreover from this have "sint (ucast (word_of_nat ?n - 1 :: u64) :: 32 word) = int ?n - 1"
    using low32_small [of "word_of_nat ?n - 1"] r by simp
  ultimately have "uint v \<le> int ?n - 1" using get_rand_offset_bound [OF D g] by simp
  then have v: "unat v < ?n" using n0 by (simp add: uint_int)
  have "(unat v) * unat (stride t) \<le> (?n - 1) * unat (stride t)" using v by (intro mult_right_mono) auto
  also have "\<dots> \<le> unat (max_size t) - unat (base_offset t) - unat (block_size t)"
    by (simp add: random_range_def div_times_less_eq_dividend)
  finally have "unat (base_offset t) + unat v * unat (stride t) + unat (block_size t) \<le> unat (max_size t)"
    using le by linarith
  moreover have "random_offset D (t, r) = Inr (word_of_nat (unat (base_offset t) + unat v * unat (stride t)), (t, g))"
    using random_offset_eq(1) [OF ok s, of D r] by (simp add: g)
  ultimately show ?thesis using v by blast
qed

section \<open>The interface to the worker\<close>

text \<open>
  The offsets a worker gives the first operations of a target: the first one, and then one
  after the other as many as the target's overlap.
\<close>

primrec offset_chain ::
  "(off_t \<Rightarrow> 's \<Rightarrow> fault + off_t \<times> 's) \<Rightarrow> nat \<Rightarrow> off_t \<Rightarrow> 's \<Rightarrow> fault + off_t list \<times> 's" where
  "offset_chain nxt 0 off s = Inr ([], s)"
| "offset_chain nxt (Suc n) off s =
    bindE (nxt off s) (\<lambda>(off', s').
      bindE (offset_chain nxt n off' s') (\<lambda>(offs, s''). Inr (off # offs, s'')))"

text \<open>
  What a source of offsets promises: the first and every next offset exist and are usable
  in the configuration, which the operations do not change.
\<close>

locale offset_source =
  fixes start :: "'s \<Rightarrow> fault + off_t \<times> 's"
    and nxt :: "off_t \<Rightarrow> 's \<Rightarrow> fault + off_t \<times> 's"
    and inv :: "'s \<Rightarrow> bool"
    and cfg :: "'s \<Rightarrow> 'c"
    and usable :: "'c \<Rightarrow> off_t \<Rightarrow> bool"
  assumes start_ok: "inv s \<Longrightarrow>
      \<exists>off s'. start s = Inr (off, s') \<and> inv s' \<and> cfg s' = cfg s \<and> usable (cfg s) off"
    and nxt_ok: "inv s \<Longrightarrow> usable (cfg s) off \<Longrightarrow>
      \<exists>off' s'. nxt off s = Inr (off', s') \<and> inv s' \<and> cfg s' = cfg s \<and> usable (cfg s) off'"
begin

lemma chain_ok:
  assumes "inv s" and "usable (cfg s) off"
  shows "\<exists>offs s'. offset_chain nxt n off s = Inr (offs, s') \<and> length offs = n \<and>
    (\<forall>x \<in> set offs. usable (cfg s) x) \<and> inv s' \<and> cfg s' = cfg s"
  using assms
proof (induction n arbitrary: s off)
  case 0
  then show ?case by simp
next
  case (Suc n)
  from nxt_ok [OF Suc.prems] obtain off' s' where n: "nxt off s = Inr (off', s')" "inv s'"
    "cfg s' = cfg s" "usable (cfg s) off'" by blast
  with Suc.IH [of s' off'] obtain offs s'' where "offset_chain nxt n off' s' = Inr (offs, s'')"
    "length offs = n" "\<forall>x \<in> set offs. usable (cfg s) x" "inv s''" "cfg s'' = cfg s" by auto
  with n Suc.prems show ?case by simp
qed

lemma initial_ok:
  assumes "inv s"
  shows "\<exists>offs s'. bindE (start s) (\<lambda>(off, s1). offset_chain nxt n off s1) = Inr (offs, s') \<and>
    length offs = n \<and> (\<forall>x \<in> set offs. usable (cfg s) x) \<and> inv s' \<and> cfg s' = cfg s"
proof -
  from start_ok [OF assms] obtain off s1 where s: "start s = Inr (off, s1)" "inv s1" "cfg s1 = cfg s"
    "usable (cfg s) off" by blast
  with chain_ok [of s1 off n] show ?thesis by simp
qed

end

definition offset_cfg :: "('g, 'h) offset_state \<Rightarrow> target" where
  "offset_cfg s = (fst s)\<lparr>interlocked_offset := 0\<rparr>"

definition offset_inv :: "'g distribution \<Rightarrow> u32 \<Rightarrow> ('g, 'h) offset_state \<Rightarrow> bool" where
  "offset_inv D rel s \<longleftrightarrow> target_ok rel (fst s) \<and>
    (use_random_alignment (fst s) \<longrightarrow>
       uniform D \<and> 0 < unat (stride (fst s)) \<and> random_range (fst s) \<le> 2 ^ 31) \<and>
    (use_interlocked (fst s) \<longrightarrow> in_range (fst s) (interlocked_offset (fst s)))"

lemma in_range_cfg: "in_range (offset_cfg s) off = in_range (fst s) off"
  by (simp add: in_range_def offset_cfg_def)

lemma target_ok_update [simp]:
  "target_ok rel (t\<lparr>interlocked_offset := x\<rparr>) = target_ok rel t"
  "in_range (t\<lparr>interlocked_offset := x\<rparr>) off = in_range t off"
  "random_range (t\<lparr>interlocked_offset := x\<rparr>) = random_range t"
  by (simp_all add: target_ok_def in_range_def random_range_def)

lemma random_in_range:
  assumes "offset_inv D rel (t, r)" and "use_random_alignment t"
  shows "\<exists>off g. random_offset D (t, r) = Inr (off, (t, g)) \<and> in_range t off"
proof -
  have t: "target_ok rel t" "0 < unat (stride t)" "random_range t \<le> 2 ^ 31" "uniform D"
    using assms by (simp_all add: offset_inv_def)
  from random_offset_total [OF t, of r] obtain j g where
    r: "random_offset D (t, r) = Inr (word_of_nat (unat (base_offset t) + j * unat (stride t)), (t, g))"
    and le: "unat (base_offset t) + j * unat (stride t) + unat (block_size t) \<le> unat (max_size t)"
    by blast
  have "unat (word_of_nat (unat (base_offset t) + j * unat (stride t)) :: u64) =
      unat (base_offset t) + j * unat (stride t)"
    using le unat_less64 [of "max_size t"] by (intro unat_of_nat_u64) simp
  with r le show ?thesis by (simp add: in_range_def del: of_nat_add)
qed

lemma next_in_range:
  assumes i: "offset_inv D rel s" and off: "in_range (fst s) off \<or> use_interlocked (fst s)"
  shows "\<exists>off' s'. get_next_offset D rel off s = Inr (off', s') \<and> offset_inv D rel s' \<and>
    offset_cfg s' = offset_cfg s \<and> in_range (fst s) off'"
proof -
  obtain t r where s: "s = (t, r)" by force
  have ok: "target_ok rel t" using i by (simp add: s offset_inv_def)
  consider "use_random_alignment t" | "\<not> use_random_alignment t" "use_interlocked t"
    | "\<not> use_random_alignment t" "\<not> use_interlocked t" by blast
  then show ?thesis
  proof cases
    case 1
    with random_in_range [of D rel t r] i s show ?thesis
      by (auto simp: get_next_offset_def offset_inv_def offset_cfg_def)
  next
    case 2
    with i have "in_range t (correct_overflow rel (interlocked_offset t + stride t) t)"
      by (intro correct_overflow_in_range) (simp_all add: s offset_inv_def)
    with 2 i show ?thesis
      by (simp add: s get_next_offset_def offset_inv_def offset_cfg_def Let_def)
  next
    case 3
    with correct_overflow_in_range [OF ok, of off] i off show ?thesis
      by (simp add: s get_next_offset_def)
  qed
qed

interpretation offsets: offset_source "get_start_offset D rel" "get_next_offset D rel"
  "offset_inv D rel" offset_cfg in_range for D rel
proof
  fix s :: "('a, 'b) offset_state"
  assume i: "offset_inv D rel s"
  obtain t r where s: "s = (t, r)" by force
  consider "use_random_alignment t" | "\<not> use_random_alignment t" "use_interlocked t"
    | "\<not> use_random_alignment t" "\<not> use_interlocked t" by blast
  then show "\<exists>off s'. get_start_offset D rel s = Inr (off, s') \<and> offset_inv D rel s' \<and>
    offset_cfg s' = offset_cfg s \<and> in_range (offset_cfg s) off"
  proof cases
    case 1
    with random_in_range [of D rel t r] i s show ?thesis
      by (auto simp: get_start_offset_def offset_inv_def offset_cfg_def)
  next
    case 2
    with next_in_range [OF i, of 0] show ?thesis by (simp add: s get_start_offset_def in_range_cfg)
  next
    case 3
    with i thread_base_in_range [of rel t] show ?thesis
      by (simp add: s get_start_offset_def offset_inv_def in_range_cfg)
  qed
next
  fix s :: "('a, 'b) offset_state" and off
  assume "offset_inv D rel s" and "in_range (offset_cfg s) off"
  then show "\<exists>off' s'. get_next_offset D rel off s = Inr (off', s') \<and> offset_inv D rel s' \<and>
    offset_cfg s' = offset_cfg s \<and> in_range (offset_cfg s) off'"
    using next_in_range [of D rel s off] by (simp add: in_range_cfg)
qed

section \<open>Sequential offsets\<close>

text \<open>How many blocks fit from a starting offset to the end of the target, a stride apart.\<close>

definition blocks_from :: "nat \<Rightarrow> target \<Rightarrow> nat" where
  "blocks_from b t = (unat (max_size t) - b - unat (block_size t)) div unat (stride t) + 1"

definition cycle_offset :: "nat \<Rightarrow> target \<Rightarrow> nat \<Rightarrow> off_t" where
  "cycle_offset b t k = word_of_nat (b + (k mod blocks_from b t) * unat (stride t))"

lemma blocks_from_less:
  assumes "b + unat (block_size t) \<le> unat (max_size t)" and "0 < unat (stride t)"
  shows "b + j * unat (stride t) + unat (block_size t) \<le> unat (max_size t) \<longleftrightarrow> j < blocks_from b t"
proof -
  have "b + j * unat (stride t) + unat (block_size t) \<le> unat (max_size t) \<longleftrightarrow>
      j * unat (stride t) \<le> unat (max_size t) - b - unat (block_size t)"
    using assms(1) by linarith
  also have "\<dots> \<longleftrightarrow> j < blocks_from b t"
    using assms(2) by (simp add: blocks_from_def less_Suc_eq_le less_eq_div_iff_mult_less_eq)
  finally show ?thesis .
qed

lemma cycle_offset_unat:
  assumes "b + unat (block_size t) \<le> unat (max_size t)" and "0 < unat (stride t)"
  shows "unat (cycle_offset b t k) = b + (k mod blocks_from b t) * unat (stride t)"
    and "b + (k mod blocks_from b t) * unat (stride t) + unat (block_size t) \<le> unat (max_size t)"
proof -
  have "k mod blocks_from b t < blocks_from b t" by (simp add: blocks_from_def)
  with blocks_from_less [OF assms]
  show le: "b + (k mod blocks_from b t) * unat (stride t) + unat (block_size t) \<le> unat (max_size t)" by blast
  then show "unat (cycle_offset b t k) = b + (k mod blocks_from b t) * unat (stride t)"
    unfolding cycle_offset_def using unat_less64 [of "max_size t"] by (intro unat_of_nat_u64) simp
qed

text \<open>One step of the cycle from the thread's base offset.\<close>

lemma cycle_step:
  assumes ok: "target_ok rel t" and s: "0 < unat (stride t)"
    and b: "b = unat (get_thread_base_offset rel t)"
  shows "correct_overflow rel (cycle_offset b t k + stride t) t = cycle_offset b t (Suc k)"
proof -
  have room: "b + unat (block_size t) \<le> unat (max_size t)"
    using ok unat_thread_base [OF ok] b by (simp add: target_ok_def)
  note c = cycle_offset_unat [OF room s, of k]
  have bb: "unat (base_offset t) \<le> b" using unat_thread_base [OF ok] b by simp
  have r: "in_range t (cycle_offset b t k)" using c bb by (simp add: in_range_def)
  have m0: "0 < blocks_from b t" by (simp add: blocks_from_def)
  have over: "unat (max_size t) < unat (cycle_offset b t k) + unat (stride t) + unat (block_size t) \<longleftrightarrow>
      \<not> Suc (k mod blocks_from b t) < blocks_from b t"
    using blocks_from_less [OF room s, of "Suc (k mod blocks_from b t)"] c(1) by (auto simp: algebra_simps)
  show ?thesis
  proof (cases "Suc (k mod blocks_from b t) < blocks_from b t")
    case True
    then have "Suc k mod blocks_from b t = Suc (k mod blocks_from b t)" by (simp add: mod_Suc)
    with True over show ?thesis
      using correct_overflow_step(1) [OF ok r]
      by (simp add: cycle_offset_def algebra_simps)
  next
    case False
    with m0 have "Suc (k mod blocks_from b t) = blocks_from b t"
      by (metis Suc_lessI mod_less_divisor)
    then have "Suc k mod blocks_from b t = 0" by (simp add: mod_Suc)
    with False over show ?thesis
      using correct_overflow_step(1) [OF ok r] by (simp add: cycle_offset_def b)
  qed
qed

lemma sequential_chain:
  assumes ok: "target_ok rel t" and s: "0 < unat (stride t)"
    and seq: "\<not> use_random_alignment t" "\<not> use_interlocked t"
    and b: "b = unat (get_thread_base_offset rel t)"
  shows "offset_chain (get_next_offset D rel) n (cycle_offset b t k) (t, r) =
    Inr (map (cycle_offset b t) [k..<k + n], (t, r))"
proof (induction n arbitrary: k)
  case 0
  then show ?case by simp
next
  case (Suc n)
  have "get_next_offset D rel (cycle_offset b t k) (t, r) = Inr (cycle_offset b t (Suc k), (t, r))"
    using seq cycle_step [OF ok s b] by (simp add: get_next_offset_def)
  with Suc.IH [of "Suc k"] show ?case by (simp add: upt_conv_Cons del: upt_Suc)
qed

section \<open>Interlocked offsets\<close>

text \<open>
  A call of \<open>get_next_offset\<close> by the thread with relative id \<open>rel\<close>, with any current offset;
  the offsets given out are collected. The threads' calls come in any order.
\<close>

definition interlocked_call ::
  "'g distribution \<Rightarrow> u32 \<times> off_t \<Rightarrow> off_t list \<times> ('g, 'h) offset_state
    \<Rightarrow> fault + off_t list \<times> ('g, 'h) offset_state" where
  "interlocked_call D = (\<lambda>(rel, curr_offset) (offs, s).
    bindE (get_next_offset D rel curr_offset s) (\<lambda>(off, s'). Inr (offs @ [off], s')))"

lemma cycle_offset_update [simp]: "cycle_offset b (t\<lparr>interlocked_offset := x\<rparr>) k = cycle_offset b t k"
  by (simp add: cycle_offset_def blocks_from_def)

lemma interlocked_calls:
  assumes ok: "target_ok 0 t" and z: "thread_offset t = 0" and s: "0 < unat (stride t)"
    and il: "\<not> use_random_alignment t" "use_interlocked t"
  shows "foldE (interlocked_call D) calls
      (offs, (t\<lparr>interlocked_offset := cycle_offset (unat (base_offset t)) t k\<rparr>, r)) =
    Inr (offs @ map (cycle_offset (unat (base_offset t)) t) [Suc k..<Suc k + length calls],
      (t\<lparr>interlocked_offset := cycle_offset (unat (base_offset t)) t (k + length calls)\<rparr>, r))"
proof (induction calls arbitrary: k offs)
  case Nil
  then show ?case by simp
next
  case (Cons call calls)
  obtain rel off where c: "call = (rel, off)" by force
  let ?b = "unat (base_offset t)"
  have ok': "target_ok rel t" using ok z by (simp add: target_ok_def)
  have b: "?b = unat (get_thread_base_offset rel t)" using z by (simp add: get_thread_base_offset_def)
  have corr: "correct_overflow rel x (t\<lparr>interlocked_offset := y\<rparr>) = correct_overflow rel x t" for x y
    by (simp add: correct_overflow_def get_thread_base_offset_def)
  have "interlocked_call D call (offs, (t\<lparr>interlocked_offset := cycle_offset ?b t k\<rparr>, r)) =
      Inr (offs @ [cycle_offset ?b t (Suc k)], (t\<lparr>interlocked_offset := cycle_offset ?b t (Suc k)\<rparr>, r))"
    using il cycle_step [OF ok' s b, of k]
    by (simp add: c interlocked_call_def get_next_offset_def Let_def corr)
  with Cons.IH [of "offs @ [cycle_offset ?b t (Suc k)]" "Suc k"]
  show ?case by (simp add: upt_conv_Cons del: upt_Suc)
qed

section \<open>Buffers are aligned\<close>

lemma and_mask_split: "(w :: u64) = (w AND mask k) + (w AND NOT (mask k))"
proof -
  have "(w AND mask k) + (w AND NOT (mask k)) = (w AND mask k) OR (w AND NOT (mask k))"
    by (rule disjunctive_add) (simp add: bit_simps)
  also have "\<dots> = w" by (rule bit_eqI) (auto simp: bit_simps)
  finally show ?thesis by simp
qed

lemma align_down:
  assumes "k < 64"
  shows "2 ^ k dvd unat ((w :: u64) AND NOT (mask k))"
    and "unat w < unat (w AND NOT (mask k)) + 2 ^ k" and "unat (w AND NOT (mask k)) \<le> unat w"
proof -
  have "(w AND NOT (mask k)) AND mask k = 0" by (rule bit_eqI) (simp add: bit_simps)
  then show "2 ^ k dvd unat (w AND NOT (mask k))" by (simp add: and_mask_dvd_nat)
  have m: "unat (w AND mask k) < 2 ^ k"
    using assms and_mask_lt_2p [of w k] by (simp add: uint_int zless_nat_eq_int_zless)
  have "w AND NOT (mask k) = w - (w AND mask k)" using and_mask_split [of w k] by (metis add_diff_cancel_left')
  moreover have "w AND mask k \<le> w" by (rule word_and_le2)
  ultimately have "unat (w AND NOT (mask k)) = unat w - unat (w AND mask k)" "unat (w AND mask k) \<le> unat w"
    by (simp_all add: unat_sub word_le_nat_alt)
  with m show "unat w < unat (w AND NOT (mask k)) + 2 ^ k" "unat (w AND NOT (mask k)) \<le> unat w"
    by simp_all
qed

lemma mask_word: "(2 :: u64) ^ k - 1 = mask k"
  by (simp add: mask_eq_exp_minus_1)

section \<open>Properties\<close>

text \<open>
  C6. Every offset a worker uses is inside the target's I/O area: in all three modes, the
  initial offsets of a target (the start and then one per overlapped operation) all exist,
  none is before the base offset, and a block at any of them ends at most at the maximum
  size; the same holds for the next offset of every operation after that. For random offsets
  this needs the number of aligned blocks to be at most \<open>2 ^ 31\<close>.
\<close>

theorem offsets_stay_in_target:
  assumes "offset_inv D rel s"
  shows "\<exists>offs s'. bindE (get_start_offset D rel s) (\<lambda>(off, s1). offset_chain (get_next_offset D rel) n off s1)
      = Inr (offs, s') \<and> length offs = n \<and> (\<forall>off \<in> set offs. in_range (fst s) off) \<and> offset_inv D rel s' \<and>
    (\<forall>off. in_range (fst s) off \<longrightarrow> (\<exists>off' s''. get_next_offset D rel off s' = Inr (off', s'') \<and>
      in_range (fst s) off' \<and> offset_inv D rel s''))"
proof -
  from offsets.initial_ok [OF assms, of n] obtain offs s' where
    c: "bindE (get_start_offset D rel s) (\<lambda>(off, s1). offset_chain (get_next_offset D rel) n off s1) = Inr (offs, s')"
    "length offs = n" "\<forall>x \<in> set offs. in_range (offset_cfg s) x" "offset_inv D rel s'" "offset_cfg s' = offset_cfg s"
    by blast
  have "\<exists>off' s''. get_next_offset D rel off s' = Inr (off', s'') \<and> in_range (fst s) off' \<and> offset_inv D rel s''"
    if "in_range (fst s) off" for off
    using offsets.nxt_ok [OF c(4), of off] c(5) that by (auto simp: in_range_cfg)
  with c show ?thesis by (auto simp: in_range_cfg)
qed

definition example_target :: target where
  "example_target = (Target ''/dev/sda'')\<lparr>max_size := 1048576, tsize := 1048576, base_offset := 4096,
     thread_offset := 65536, use_random_alignment := True\<rparr>"

definition draw_low :: "unit distribution" where
  "draw_low a b g = (a, ())"

lemma offsets_stay_in_target_witness:
  "offset_inv draw_low 3 (example_target, \<lparr>engine64 = (), engine = ()\<rparr>) \<and>
   (\<exists>off s'. bindE (get_start_offset draw_low 3 (example_target, \<lparr>engine64 = (), engine = ()\<rparr>))
      (\<lambda>(off, s1). offset_chain (get_next_offset draw_low 3) 2 off s1) = Inr (off, s') \<and> length off = 2)"
proof -
  have "offset_inv draw_low 3 (example_target, \<lparr>engine64 = (), engine = ()\<rparr>)"
    by (simp add: offset_inv_def target_ok_def in_range_def random_range_def example_target_def Target_def
        uniform_def draw_low_def)
  with offsets_stay_in_target [OF this, of 2] show ?thesis by blast
qed

text \<open>
  C28. Sequential access: thread \<open>rel\<close> starts at the base offset plus \<open>rel\<close> times the thread
  stride, its k-th operation is k strides further, and after the last block that fits it starts again
  from its own start.
\<close>

theorem sequential_offsets_cycle:
  assumes "target_ok rel t" and "0 < unat (stride t)"
    and "\<not> use_random_alignment t" and "\<not> use_interlocked t"
    and "b = unat (base_offset t) + unat rel * unat (thread_offset t)"
  shows "bindE (get_start_offset D rel (t, r)) (\<lambda>(off, s1). offset_chain (get_next_offset D rel) n off s1) =
    Inr (map (\<lambda>k. word_of_nat (b + (k mod blocks_from b t) * unat (stride t))) [0..<n], (t, r))"
proof -
  have b: "b = unat (get_thread_base_offset rel t)" using unat_thread_base [OF assms(1)] assms(5) by simp
  then have "get_thread_base_offset rel t = cycle_offset b t 0" by (simp add: cycle_offset_def)
  with sequential_chain [OF assms(1-4) b, of D n 0 r] assms(3,4) show ?thesis
    by (simp add: get_start_offset_def cycle_offset_def [abs_def])
qed

lemma sequential_offsets_cycle_witness:
  "bindE (get_start_offset draw_low 1
      ((Target ''f'')\<lparr>max_size := 262144, thread_offset := 65536\<rparr>, \<lparr>engine64 = (), engine = ()\<rparr>))
    (\<lambda>(off, s1). offset_chain (get_next_offset draw_low 1) 5 off s1) =
   Inr ([65536, 131072, 196608, 65536, 131072],
      ((Target ''f'')\<lparr>max_size := 262144, thread_offset := 65536\<rparr>, \<lparr>engine64 = (), engine = ()\<rparr>))"
proof -
  let ?t = "(Target ''f'')\<lparr>max_size := 262144, thread_offset := 65536\<rparr>"
  have t: "target_ok 1 ?t" "0 < unat (stride ?t)" "\<not> use_random_alignment ?t" "\<not> use_interlocked ?t"
    "65536 = unat (base_offset ?t) + unat (1 :: u32) * unat (thread_offset ?t)"
    and n: "blocks_from 65536 ?t = 3" and s: "unat (stride ?t) = 65536"
    by (simp_all add: target_ok_def Target_def blocks_from_def)
  have "map (\<lambda>k. word_of_nat (65536 + (k mod 3) * 65536) :: u64) [0..<5] = [65536, 131072, 196608, 65536, 131072]"
  proof -
    have "[0..<5] = [0, 1, 2, 3, 4 :: nat]" by code_simp
    then show ?thesis by simp
  qed
  with sequential_offsets_cycle [OF t, of draw_low "\<lparr>engine64 = (), engine = ()\<rparr>" 5] show ?thesis
    unfolding n s by simp
qed

text \<open>
  C29. Interlocked access: whatever threads call in whatever order, the offsets they are given
  go through the blocks of the target in order, each block once per round; the first offset
  given out is the second block, so the first block is used last in every round (the code's
  comment says the start is the base offset).
\<close>

theorem interlocked_offsets_shared:
  assumes "target_ok 0 t" and "thread_offset t = 0" and "0 < unat (stride t)"
    and "\<not> use_random_alignment t" and "use_interlocked t" and "interlocked_offset t = base_offset t"
    and "b = unat (base_offset t)"
  shows "\<exists>t'. foldE (interlocked_call D) calls ([], (t, r)) =
    Inr (map (\<lambda>k. word_of_nat (b + (Suc k mod blocks_from b t) * unat (stride t))) [0..<length calls], (t', r))"
proof -
  have "t\<lparr>interlocked_offset := cycle_offset (unat (base_offset t)) t 0\<rparr> = t"
    using assms(6) by (simp add: cycle_offset_def)
  moreover have "map (cycle_offset b t) [Suc 0..<Suc (length calls)] =
      map (\<lambda>k. word_of_nat (b + (Suc k mod blocks_from b t) * unat (stride t))) [0..<length calls]"
    unfolding map_Suc_upt [symmetric] by (simp add: cycle_offset_def del: upt_Suc)
  ultimately show ?thesis
    using interlocked_calls [OF assms(1-5), of D calls "[]" 0 r] assms(7) by auto
qed

lemma interlocked_offsets_shared_witness:
  "\<exists>t'. foldE (interlocked_call draw_low) [(0, 0), (1, 0), (0, 7)]
      ([], ((Target ''f'')\<lparr>max_size := 196608, use_interlocked := True\<rparr>, \<lparr>engine64 = (), engine = ()\<rparr>)) =
    Inr ([65536, 131072, 0], (t', \<lparr>engine64 = (), engine = ()\<rparr>))"
proof -
  let ?t = "(Target ''f'')\<lparr>max_size := 196608, use_interlocked := True\<rparr>"
  have t: "target_ok 0 ?t" "thread_offset ?t = 0" "0 < unat (stride ?t)" "\<not> use_random_alignment ?t"
    "use_interlocked ?t" "interlocked_offset ?t = base_offset ?t" "0 = unat (base_offset ?t)"
    and n: "blocks_from 0 ?t = 3" and s: "unat (stride ?t) = 65536"
    by (simp_all add: target_ok_def Target_def blocks_from_def)
  have "map (\<lambda>k. word_of_nat (0 + (Suc k mod 3) * 65536) :: u64) [0..<length [(0 :: u32, 0 :: off_t), (1, 0), (0, 7)]]
      = [65536, 131072, 0]"
    by (simp add: upt_rec_numeral)
  with interlocked_offsets_shared [OF t, of draw_low "[(0, 0), (1, 0), (0, 7)]"] show ?thesis
    unfolding n s by simp
qed

text \<open>
  C30. Random access: with at most \<open>2 ^ 31\<close> aligned blocks, every random offset is the base
  offset plus a multiple of the alignment, for one of the aligned blocks that fit before the
  maximum size; with more, the program still draws only from an \<open>int\<close>'s range.
\<close>

theorem random_offset_aligned:
  assumes "target_ok rel t" and "0 < unat (stride t)" and "random_range t \<le> 2 ^ 31" and "uniform D"
  shows "\<exists>j g. j < random_range t \<and>
    random_offset D (t, r) = Inr (word_of_nat (unat (base_offset t) + j * unat (stride t)), (t, g)) \<and>
    unat (base_offset t) + j * unat (stride t) + unat (block_size t) \<le> unat (max_size t)"
  by (rule random_offset_total [OF assms])

lemma random_offset_aligned_witness:
  "\<exists>j g. j < 15 \<and> random_offset draw_low (example_target, \<lparr>engine64 = (), engine = ()\<rparr>) =
    Inr (word_of_nat (4096 + j * 65536), (example_target, g))"
proof -
  have "target_ok 0 example_target" "0 < unat (stride example_target)" "random_range example_target \<le> 2 ^ 31"
    "uniform draw_low" "random_range example_target = 15" "unat (base_offset example_target) = 4096"
    "unat (stride example_target) = 65536"
    by (simp_all add: target_ok_def random_range_def example_target_def Target_def uniform_def draw_low_def)
  from random_offset_aligned [OF this(1-4), of "\<lparr>engine64 = (), engine = ()\<rparr>"] this(5-7) show ?thesis
    by auto
qed

text \<open>
  C31. I/O buffers: for an alignment that is a power of two and an allocation that does not
  wrap around the address space, the buffer pointer is aligned, it and the whole buffer lie
  inside the allocation, and so does the part of every overlapped operation.
\<close>

theorem buffer_aligned_inside:
  assumes "k < 64" and "0 < unat sz" and "u = alloc (sz + 2 ^ k - 1)" and "u \<noteq> 0"
    and "unat u + unat sz + 2 ^ k \<le> 2 ^ 64"
  shows "\<exists>b'. buffer_calloc alloc sz (2 ^ k) b = Inr b' \<and> buf_sz b' = sz \<and> unaligned b' = u \<and>
    2 ^ k dvd unat (buf_ptr b') \<and> unat u \<le> unat (buf_ptr b') \<and>
    unat (buf_ptr b') + unat sz \<le> unat u + (unat sz + 2 ^ k - 1) \<and>
    length (bytes b') = unat sz \<and>
    (\<forall>n bs i. unat sz = n * bs \<longrightarrow> i < n \<longrightarrow> i * bs + bs \<le> unat sz)"
proof -
  let ?a = "(2 :: u64) ^ k"
  have "(2 :: nat) ^ k < 2 ^ 64" using assms(1) by (intro power_strict_increasing) simp_all
  then have "unat (word_of_nat (2 ^ k) :: u64) = 2 ^ k" by (rule unat_of_nat_u64)
  then have a: "unat ?a = 2 ^ k" "?a \<noteq> 0" using assms(1) by auto
  have z: "?a AND (?a - 1) = 0"
    by (rule bit_eqI) (auto simp: mask_word bit_simps)
  have sz: "sz \<noteq> 0" using assms(2) by auto
  let ?w = "u + ?a - 1"
  have "unat (u + ?a) = unat u + 2 ^ k"
    using a(1) assms(2,5) by (subst unat_add_u64) auto
  moreover from this have "1 \<le> u + ?a" by (simp add: word_le_nat_alt Suc_le_eq)
  ultimately have w: "unat ?w = unat u + 2 ^ k - 1" by (simp add: unat_sub)
  have i: "i * bs + bs \<le> n * bs" if "i < n" for i n bs :: nat
    using mult_le_mono1 [of "Suc i" n bs] that by simp
  have "new_buffer alloc (b\<lparr>buf_sz := sz, buf_align := ?a, unaligned := 0, buf_ptr := 0\<rparr>) =
      Inr (b\<lparr>buf_sz := sz, buf_align := ?a, unaligned := u, buf_ptr := ?w AND NOT (mask k),
        bytes := replicate (unat sz) 0\<rparr>)"
    using sz z a assms(3,4) by (simp add: new_buffer_def Let_def mask_word [symmetric])
  moreover note align_down [OF assms(1), of ?w] w
  ultimately show ?thesis using i by (auto simp: buffer_calloc_def)
qed

lemma buffer_aligned_inside_witness:
  "\<exists>b'. buffer_calloc (\<lambda>_. 1000) 131072 512 TargetBuffer = Inr b' \<and> 512 dvd unat (buf_ptr b')"
proof -
  have "\<exists>b'. buffer_calloc (\<lambda>_. 1000) 131072 (2 ^ 9) TargetBuffer = Inr b' \<and> 2 ^ 9 dvd unat (buf_ptr b')"
    using buffer_aligned_inside [of 9 131072 1000 "\<lambda>_. 1000" TargetBuffer] by force
  then show ?thesis by simp
qed

end
