(* ===== verification/Async_IO.thy ===== *)
theory Async_IO
  imports Target
begin

text \<open>
  The interface of the I/O engines (\<open>src/src/async_io.h\<close>): the abstract classes
  \<open>IAsyncIop\<close> and \<open>IAsyncIOManager\<close> as a record of operations over an engine's state,
  and the contract the worker threads rely on as the locale \<open>async_io\<close>. A shared pointer to
  an operation is its index in the engine's heap of operations; the target data of an
  operation is its index in the vector of its thread.
\<close>

datatype iop_type = READ_IOP | WRITE_IOP

record 's io_manager =
  m_start :: "int \<Rightarrow> 's \<Rightarrow> fault + bool \<times> 's"
  m_create_group :: "int \<Rightarrow> int \<Rightarrow> 's \<Rightarrow> fault + bool \<times> 's"
  m_construct :: "iop_type \<Rightarrow> int \<Rightarrow> off_t \<Rightarrow> u64 \<Rightarrow> u64 \<Rightarrow> size_t \<Rightarrow> int \<Rightarrow> nat \<Rightarrow> u64 \<Rightarrow> 's
    \<Rightarrow> fault + nat \<times> 's"
  m_enqueue :: "nat \<Rightarrow> 's \<Rightarrow> fault + int \<times> 's"
  m_submit :: "int \<Rightarrow> 's \<Rightarrow> fault + int \<times> 's"
  m_wait :: "int \<Rightarrow> 's \<Rightarrow> fault + nat \<times> 's"
  get_type :: "nat \<Rightarrow> 's \<Rightarrow> iop_type"
  set_type :: "nat \<Rightarrow> iop_type \<Rightarrow> 's \<Rightarrow> 's"
  get_fd :: "nat \<Rightarrow> 's \<Rightarrow> int"
  set_fd :: "nat \<Rightarrow> int \<Rightarrow> 's \<Rightarrow> 's"
  get_offset :: "nat \<Rightarrow> 's \<Rightarrow> off_t"
  set_offset :: "nat \<Rightarrow> off_t \<Rightarrow> 's \<Rightarrow> 's"
  get_nbytes :: "nat \<Rightarrow> 's \<Rightarrow> size_t"
  set_nbytes :: "nat \<Rightarrow> size_t \<Rightarrow> 's \<Rightarrow> 's"
  get_group_id :: "nat \<Rightarrow> 's \<Rightarrow> int"
  set_group_id :: "nat \<Rightarrow> int \<Rightarrow> 's \<Rightarrow> 's"
  get_time :: "nat \<Rightarrow> 's \<Rightarrow> fault + u64"
  set_time :: "nat \<Rightarrow> u64 \<Rightarrow> 's \<Rightarrow> 's"
  get_target_data :: "nat \<Rightarrow> 's \<Rightarrow> nat"
  set_target_data :: "nat \<Rightarrow> nat \<Rightarrow> 's \<Rightarrow> 's"
  get_ret :: "nat \<Rightarrow> 's \<Rightarrow> int"
  get_errno :: "nat \<Rightarrow> 's \<Rightarrow> int"

text \<open>
  Both engines give the bytes transferred as an \<open>int\<close>, to which the result of the kernel is converted.
\<close>

definition as_int :: "int \<Rightarrow> int" where
  "as_int n = sint (word_of_int n :: u32)"

lemma as_int_size:
  assumes "word_of_int n = (w :: u64)" and "w < 2 ^ 31"
  shows "word_of_int (as_int n) = w"
proof -
  have u: "uint w = n mod 2 ^ 64" using assms(1) by (auto simp: uint_word_of_int)
  have s: "uint w < 2 ^ 31" using assms(2) by (simp add: word_less_def)
  have "uint (word_of_int n :: u32) = n mod 2 ^ 32" by (simp add: uint_word_of_int)
  also have "\<dots> = uint w mod 2 ^ 32" by (simp add: u mod_mod_cancel)
  also have "\<dots> = uint w" using s by (intro mod_pos_pos_trivial) simp_all
  finally have "as_int n = uint w"
    using s by (simp add: as_int_def sint_uint signed_take_bit_int_eq_self_iff order_trans [of "-_" 0])
  then show ?thesis by simp
qed

lemma as_int_large:
  assumes "2 ^ 31 \<le> unat (w :: u64)" and "unat w < 2 ^ 64 - 2 ^ 31"
  shows "word_of_int (as_int n) \<noteq> w"
proof
  assume e: "word_of_int (as_int n) = w"
  have b: "- (2 ^ 31) \<le> as_int n" "as_int n < 2 ^ 31"
    using sint_range_size [of "word_of_int n :: u32"] by (simp_all add: as_int_def word_size)
  have u: "uint w = as_int n mod 2 ^ 64" using e by (auto simp: uint_word_of_int)
  have "int (2 ^ 31) \<le> int (unat w)" "int (unat w) < int (2 ^ 64 - 2 ^ 31)"
    using assms by (simp_all only: of_nat_le_iff of_nat_less_iff)
  then have w: "2 ^ 31 \<le> uint w" "uint w < 2 ^ 64 - 2 ^ 31" by (simp_all add: uint_nat [symmetric])
  show False
  proof (cases "0 \<le> as_int n")
    case True
    then have "uint w = as_int n" using b u by (simp add: mod_pos_pos_trivial)
    with b w show False by simp
  next
    case False
    then have "(as_int n + 2 ^ 64) mod 2 ^ 64 = as_int n + 2 ^ 64"
      using b by (intro mod_pos_pos_trivial) simp_all
    then have "as_int n mod 2 ^ 64 = as_int n + 2 ^ 64" by simp
    with u b w show False by simp
  qed
qed

text \<open>
  Both engines number the operations in flight with unsigned ids and step over the ids in use;
  the loop does not end when all of them are.
\<close>

partial_function (option) free_id :: "('i::len word \<Rightarrow> 'o option) \<Rightarrow> 'i word \<Rightarrow> 'i word option" where
  "free_id in_use next_id = (if in_use next_id \<noteq> None then free_id in_use (next_id + 1) else Some next_id)"

declare free_id.simps [code]

lemma free_id_steps:
  "m (n + of_nat j) = None \<Longrightarrow> \<exists>w. free_id m n = Some w \<and> m w = None"
proof (induction j arbitrary: n)
  case 0
  then show ?case by (subst free_id.simps) simp
next
  case (Suc j)
  from Suc.prems have "m (n + 1 + of_nat j) = None" by (simp add: add.assoc)
  then have "\<exists>w. free_id m (n + 1) = Some w \<and> m w = None" by (rule Suc.IH)
  then show ?case by (subst free_id.simps) auto
qed

lemma free_id_ends:
  fixes m :: "'i::len word \<Rightarrow> 'o option"
  assumes "card (dom m) < 2 ^ LENGTH('i)"
  shows "\<exists>w. free_id m n = Some w \<and> m w = None"
proof -
  have "dom m \<noteq> UNIV" using assms by (auto simp: card_word)
  then obtain w where "m w = None" by blast
  moreover have "w = n + of_nat (unat (w - n))" by simp
  ultimately show ?thesis using free_id_steps [of m n "unat (w - n)"] by simp
qed

text \<open>One round of a worker: take a completed operation, change it, queue and submit it again.\<close>

definition io_round ::
  "'s io_manager \<Rightarrow> int \<Rightarrow> (nat \<Rightarrow> 's \<Rightarrow> u64 \<times> off_t \<times> iop_type) \<Rightarrow> 's \<Rightarrow> fault + int \<times> 's" where
  "io_round m gid pick s =
    bindE (m_wait m gid s) (\<lambda>(i, s1).
      let (time, off, ty) = pick i s1;
          s2 = set_type m i ty (set_offset m i off (set_time m i time s1))
      in bindE (m_enqueue m i s2) (\<lambda>(err, s3).
           if err \<noteq> 0 then Inr (err, s3) else m_submit m gid s3))"

text \<open>
  The contract of an engine for the group \<open>gid\<close>: \<open>queued\<close> are the operations enqueued and not
  yet submitted, \<open>flying\<close> the submitted ones that \<open>wait\<close> has not returned.
\<close>

locale async_io =
  fixes m :: "'s io_manager"
    and gid :: int
    and inv :: "'s \<Rightarrow> bool"
    and owns :: "'s \<Rightarrow> nat \<Rightarrow> bool"
    and queued :: "'s \<Rightarrow> nat multiset"
    and flying :: "'s \<Rightarrow> nat multiset"
  assumes enqueue_ok: "inv s \<Longrightarrow> owns s i \<Longrightarrow> i \<notin># queued s + flying s \<Longrightarrow>
      \<exists>s'. m_enqueue m i s = Inr (0, s') \<and> inv s' \<and> owns s' = owns s \<and>
        queued s' = add_mset i (queued s) \<and> flying s' = flying s"
    and submit_ok: "inv s \<Longrightarrow> m_submit m gid s = Inr (0, s') \<Longrightarrow>
      inv s' \<and> owns s' = owns s \<and> queued s' = {#} \<and> flying s' = queued s + flying s"
    and wait_ok: "inv s \<Longrightarrow> m_wait m gid s = Inr (i, s') \<Longrightarrow>
      inv s' \<and> owns s' = owns s \<and> owns s i \<and> queued s' = queued s \<and> flying s = add_mset i (flying s')"
    and once: "inv s \<Longrightarrow> i \<in># flying s \<Longrightarrow> count (queued s + flying s) i = 1"
    and set_ok: "inv s \<Longrightarrow> s' \<in> {set_time m i t s, set_offset m i off s, set_type m i ty s} \<Longrightarrow>
      inv s' \<and> owns s' = owns s \<and> queued s' = queued s \<and> flying s' = flying s"
begin

lemma sets_ok:
  assumes "inv s"
  shows "inv (set_type m i ty (set_offset m i off (set_time m i t s))) \<and>
    owns (set_type m i ty (set_offset m i off (set_time m i t s))) = owns s \<and>
    queued (set_type m i ty (set_offset m i off (set_time m i t s))) = queued s \<and>
    flying (set_type m i ty (set_offset m i off (set_time m i t s))) = flying s"
proof -
  let ?s1 = "set_time m i t s" and ?s2 = "set_offset m i off (set_time m i t s)"
  have 1: "inv ?s1 \<and> owns ?s1 = owns s \<and> queued ?s1 = queued s \<and> flying ?s1 = flying s"
    by (rule set_ok [OF assms]) blast
  then have 2: "inv ?s2 \<and> owns ?s2 = owns ?s1 \<and> queued ?s2 = queued ?s1 \<and> flying ?s2 = flying ?s1"
    by (intro set_ok) auto
  then have "inv (set_type m i ty ?s2) \<and> owns (set_type m i ty ?s2) = owns ?s2 \<and>
      queued (set_type m i ty ?s2) = queued ?s2 \<and> flying (set_type m i ty ?s2) = flying ?s2"
    by (intro set_ok) auto
  with 1 2 show ?thesis by simp
qed

lemma enqueue_all:
  assumes "inv s" and "\<forall>i \<in> set is. owns s i" and "distinct is" and "\<forall>i \<in> set is. i \<notin># queued s + flying s"
  shows "\<exists>s'. foldE (\<lambda>i s. bindE (m_enqueue m i s) (\<lambda>(e, s'). if e \<noteq> 0 then Inl Undefined else Inr s')) is s = Inr s' \<and>
    inv s' \<and> owns s' = owns s \<and> queued s' = queued s + mset is \<and> flying s' = flying s"
  using assms
proof (induction "is" arbitrary: s)
  case Nil
  then show ?case by simp
next
  case (Cons i "is")
  then obtain s1 where e: "m_enqueue m i s = Inr (0, s1)" "inv s1" "owns s1 = owns s"
    "queued s1 = add_mset i (queued s)" "flying s1 = flying s"
    using enqueue_ok [of s i] by auto
  with Cons.IH [of s1] Cons.prems show ?case by auto
qed

text \<open>A successful round keeps the number and the identity of the operations in flight.\<close>

lemma round_ok:
  assumes i: "inv s" and q: "queued s = {#}" and r: "io_round m gid pick s = Inr (0, s')"
  shows "inv s' \<and> owns s' = owns s \<and> queued s' = {#} \<and> flying s' = flying s"
proof -
  from r obtain j s1 where w: "m_wait m gid s = Inr (j, s1)"
    by (auto simp: io_round_def bindE_Inr_iff)
  obtain t off ty where c: "pick j s1 = (t, off, ty)" by (cases "pick j s1") auto
  let ?s2 = "set_type m j ty (set_offset m j off (set_time m j t s1))"
  from wait_ok [OF i w] have w': "inv s1" "owns s1 = owns s" "owns s j" "queued s1 = {#}"
    "flying s = add_mset j (flying s1)" by (simp_all add: q)
  from sets_ok [OF w'(1), of j ty off t] w' have s2: "inv ?s2" "owns ?s2 = owns s" "queued ?s2 = {#}"
    "flying ?s2 = flying s1" by simp_all
  have "count (flying s) j = 1" using once [OF i, of j] w'(5) q by simp
  then have "j \<notin># queued ?s2 + flying ?s2"
    using w'(5) s2 by (simp add: not_in_iff)
  with enqueue_ok [OF s2(1), of j] s2 w' obtain s3 where e: "m_enqueue m j ?s2 = Inr (0, s3)" "inv s3"
    "owns s3 = owns s" "queued s3 = {#j#}" "flying s3 = flying s1"
    by auto
  from r have "m_submit m gid s3 = Inr (0, s')"
    by (simp add: io_round_def w c e(1))
  from submit_ok [OF e(2) this] e w'(5) show ?thesis by simp
qed

text \<open>So any number of successful rounds does.\<close>

lemma rounds_ok:
  assumes "inv s" and "queued s = {#}"
    and "foldE (\<lambda>pick s. bindE (io_round m gid pick s)
      (\<lambda>(e, s'). if e \<noteq> 0 then Inl Undefined else Inr s')) choices s = Inr s'"
  shows "inv s' \<and> owns s' = owns s \<and> queued s' = {#} \<and> flying s' = flying s"
  using assms
proof (induction choices arbitrary: s)
  case Nil
  then show ?case by simp
next
  case (Cons c choices)
  from Cons.prems(3) obtain s1 where r: "io_round m gid c s = Inr (0, s1)"
    and rest: "foldE (\<lambda>pick s. bindE (io_round m gid pick s)
      (\<lambda>(e, s'). if e \<noteq> 0 then Inl Undefined else Inr s')) choices s1 = Inr s'"
    by (auto simp: bindE_Inr_iff split: if_splits)
  from round_ok [OF Cons.prems(1,2) r] Cons.IH [OF _ _ rest] show ?case by simp
qed

end

text \<open>
  What the worker relies on besides: which target, offset and size an operation has is changed by
  nothing but the setters, of which the worker uses \<open>set_offset\<close>.
\<close>

locale async_io_attrs = async_io m gid inv owns queued flying
  for m :: "'s io_manager" and gid :: int and inv :: "'s \<Rightarrow> bool" and owns :: "'s \<Rightarrow> nat \<Rightarrow> bool"
    and queued :: "'s \<Rightarrow> nat multiset" and flying :: "'s \<Rightarrow> nat multiset" +
  assumes enqueue_keeps: "m_enqueue m i s = Inr (e, s') \<Longrightarrow>
      get_offset m j s' = get_offset m j s \<and> get_target_data m j s' = get_target_data m j s \<and>
      get_nbytes m j s' = get_nbytes m j s"
    and submit_keeps: "inv s \<Longrightarrow> m_submit m gid s = Inr (e, s') \<Longrightarrow>
      get_offset m j s' = get_offset m j s \<and> get_target_data m j s' = get_target_data m j s \<and>
      get_nbytes m j s' = get_nbytes m j s"
    and wait_keeps: "inv s \<Longrightarrow> m_wait m gid s = Inr (i, s') \<Longrightarrow>
      get_offset m j s' = get_offset m j s \<and> get_target_data m j s' = get_target_data m j s \<and>
      get_nbytes m j s' = get_nbytes m j s"
    and set_keeps: "s' \<in> {set_time m i t s, set_type m i ty s} \<Longrightarrow>
      get_offset m j s' = get_offset m j s \<and> get_target_data m j s' = get_target_data m j s \<and>
      get_nbytes m j s' = get_nbytes m j s"
    and set_offset_sets: "owns s i \<Longrightarrow>
      get_offset m j (set_offset m i off s) = (if j = i then off else get_offset m j s) \<and>
      get_target_data m j (set_offset m i off s) = get_target_data m j s \<and>
      get_nbytes m j (set_offset m i off s) = get_nbytes m j s"
begin

lemma sets_keep:
  assumes "inv s" and "owns s i"
  shows "get_offset m j (set_type m i ty (set_offset m i off (set_time m i t s))) =
      (if j = i then off else get_offset m j s) \<and>
    get_target_data m j (set_type m i ty (set_offset m i off (set_time m i t s))) = get_target_data m j s \<and>
      get_nbytes m j (set_type m i ty (set_offset m i off (set_time m i t s))) = get_nbytes m j s"
proof -
  let ?s1 = "set_time m i t s"
  have "owns ?s1 i" using set_ok [OF assms(1), of ?s1 i t] assms(2) by simp
  then show ?thesis
    using set_keeps [of ?s1 i t s] set_offset_sets [of ?s1 i j off]
      set_keeps [of "set_type m i ty (set_offset m i off ?s1)" i t "set_offset m i off ?s1" ty] by simp
qed

end

text \<open>
  The start of a group: \<open>fresh\<close> is an engine that has no operations of the group yet, \<open>room\<close> the
  number of operations that can still be made.
\<close>

locale async_io_start = async_io_attrs m gid inv owns queued flying
  for m :: "'s io_manager" and gid :: int and inv :: "'s \<Rightarrow> bool" and owns :: "'s \<Rightarrow> nat \<Rightarrow> bool"
    and queued :: "'s \<Rightarrow> nat multiset" and flying :: "'s \<Rightarrow> nat multiset" +
  fixes fresh :: "'s \<Rightarrow> bool" and room :: "'s \<Rightarrow> nat"
  assumes create_ok: "fresh s \<Longrightarrow> m_create_group m gid n s = Inr (True, s') \<Longrightarrow>
      inv s' \<and> (\<forall>i. \<not> owns s' i) \<and> queued s' = {#} \<and> flying s' = {#} \<and> room s' = room s"
    and construct_ok: "inv s \<Longrightarrow> 0 < room s \<Longrightarrow>
      \<exists>i s'. m_construct m ty fd off rbuf wbuf sz gid td t s = Inr (i, s') \<and> inv s' \<and> room s' = room s - 1 \<and>
        \<not> owns s i \<and> owns s' = (owns s)(i := True) \<and> queued s' = queued s \<and> flying s' = flying s \<and>
        i \<notin># queued s + flying s \<and> get_offset m i s' = off \<and> get_target_data m i s' = td \<and> get_nbytes m i s' = sz \<and>
        (\<forall>j. owns s j \<longrightarrow> get_offset m j s' = get_offset m j s \<and> get_target_data m j s' = get_target_data m j s \<and>
      get_nbytes m j s' = get_nbytes m j s)"
    and enqueue_room: "m_enqueue m i s = Inr (e, s') \<Longrightarrow> room s' = room s"
begin

text \<open>A new operation is made and queued.\<close>

lemma add_op:
  assumes "inv s" and "0 < room s"
  shows "\<exists>i s1 s'. m_construct m ty fd off rbuf wbuf sz gid td t s = Inr (i, s1) \<and> m_enqueue m i s1 = Inr (0, s') \<and>
    inv s' \<and> room s' = room s - 1 \<and> size (queued s') = Suc (size (queued s)) \<and> flying s' = flying s \<and>
    owns s' = (owns s)(i := True) \<and> get_offset m i s' = off \<and> get_target_data m i s' = td \<and> get_nbytes m i s' = sz \<and>
    (\<forall>j. owns s j \<longrightarrow> get_offset m j s' = get_offset m j s \<and> get_target_data m j s' = get_target_data m j s \<and>
      get_nbytes m j s' = get_nbytes m j s)"
proof -
  from construct_ok [OF assms, of ty fd off rbuf wbuf sz td t] obtain i s1 where
    c: "m_construct m ty fd off rbuf wbuf sz gid td t s = Inr (i, s1)" "inv s1" "room s1 = room s - 1"
      "owns s1 = (owns s)(i := True)" "queued s1 = queued s" "flying s1 = flying s" "i \<notin># queued s + flying s"
      "get_offset m i s1 = off" "get_target_data m i s1 = td" "get_nbytes m i s1 = sz"
      "\<forall>j. owns s j \<longrightarrow> get_offset m j s1 = get_offset m j s \<and> get_target_data m j s1 = get_target_data m j s \<and>
      get_nbytes m j s1 = get_nbytes m j s"
    by blast
  with enqueue_ok [OF c(2), of i] obtain s' where
    e: "m_enqueue m i s1 = Inr (0, s')" "inv s'" "owns s' = owns s1" "queued s' = add_mset i (queued s1)"
      "flying s' = flying s1" by auto
  have "get_offset m j s' = get_offset m j s1 \<and> get_target_data m j s' = get_target_data m j s1 \<and>
      get_nbytes m j s' = get_nbytes m j s1" for j
    using enqueue_keeps [OF e(1)] .
  with c e enqueue_room [OF e(1)] show ?thesis by (intro exI [of _ i] exI [of _ s1] exI [of _ s']) simp
qed

end

text \<open>
  An engine over a device that serves: while \<open>serves\<close> holds, submissions succeed, and a wait
  with operations in flight returns one that has transferred what it asked for, if that is less than 2 GB: the engines give
  the result as an \<open>int\<close>.
\<close>

locale async_io_service = async_io_start m gid inv owns queued flying fresh room
  for m :: "'s io_manager" and gid :: int and inv :: "'s \<Rightarrow> bool" and owns :: "'s \<Rightarrow> nat \<Rightarrow> bool"
    and queued :: "'s \<Rightarrow> nat multiset" and flying :: "'s \<Rightarrow> nat multiset"
    and fresh :: "'s \<Rightarrow> bool" and room :: "'s \<Rightarrow> nat" +
  fixes serves :: "'s \<Rightarrow> bool"
  assumes create_serves: "serves s \<Longrightarrow> m_create_group m gid n s = Inr (True, s') \<Longrightarrow> serves s'"
    and construct_serves: "serves s \<Longrightarrow>
      m_construct m ty fd off rbuf wbuf sz gid td t s = Inr (i, s') \<Longrightarrow> serves s'"
    and enqueue_serves: "serves s \<Longrightarrow> m_enqueue m i s = Inr (e, s') \<Longrightarrow> serves s'"
    and set_serves: "serves s \<Longrightarrow> serves (set_time m i t s) \<and> serves (set_offset m i off s) \<and> serves (set_type m i ty s)"
    and submit_serves: "inv s \<Longrightarrow> serves s \<Longrightarrow> \<exists>s'. m_submit m gid s = Inr (0, s') \<and> serves s'"
    and wait_serves: "inv s \<Longrightarrow> serves s \<Longrightarrow> flying s \<noteq> {#} \<Longrightarrow>
      \<exists>i s'. m_wait m gid s = Inr (i, s') \<and> serves s' \<and> get_errno m i s' = 0 \<and>
        (get_nbytes m i s' < 2 ^ 31 \<longrightarrow> word_of_int (get_ret m i s') = get_nbytes m i s')"
begin

lemma sets_serve: "serves s \<Longrightarrow> serves (set_type m i ty (set_offset m i off (set_time m i t s)))"
  by (simp add: set_serves)

end

end
