(* ===== verification/Perf_Clock.thy ===== *)
theory Perf_Clock
  imports Prelude
begin

text \<open>
  The clock wrapper (\<open>src/src/perf_clock.h\<close>). The system calls are parameters:
  \<open>clock_getres\<close> and \<open>clock_gettime\<close> give an error code and a timespec for a
  clock id; the static clock id of the class is passed along.
\<close>

type_synonym clockid = int

record timespec =
  tv_sec :: u64
  tv_nsec :: u64

definition CLOCK_MONOTONIC :: clockid where
  "CLOCK_MONOTONIC = 1"

text \<open>\<open>set_clock\<close> returns the new static clock id; both ways to fail call \<open>exit(1)\<close>.\<close>

definition set_clock ::
  "(clockid \<Rightarrow> int \<times> timespec) \<Rightarrow> clockid \<Rightarrow> 64 word \<Rightarrow> fault + clockid" where
  "set_clock clock_getres clk_id min_precision =
    (let (err, res) = clock_getres clk_id
     in if err \<noteq> 0 then Inl Exit_Failure
        else if tv_sec res \<noteq> 0 \<or> min_precision <s tv_nsec res then Inl Exit_Failure
        else Inr clk_id)"

definition get_time_ns :: "(clockid \<Rightarrow> int \<times> timespec) \<Rightarrow> clockid \<Rightarrow> fault + u64" where
  "get_time_ns clock_gettime get_clock =
    (let (err, t) = clock_gettime get_clock
     in if err \<noteq> 0 then Inl Exit_Failure
        else Inr (tv_sec t * 1000000000 + tv_nsec t))"

definition get_time_us :: "(clockid \<Rightarrow> int \<times> timespec) \<Rightarrow> clockid \<Rightarrow> fault + u64" where
  "get_time_us clock_gettime get_clock =
    bindE (get_time_ns clock_gettime get_clock) (\<lambda>ns. Inr (ns div 1000))"

definition get_time_ms :: "(clockid \<Rightarrow> int \<times> timespec) \<Rightarrow> clockid \<Rightarrow> fault + u64" where
  "get_time_ms clock_gettime get_clock =
    bindE (get_time_ns clock_gettime get_clock) (\<lambda>ns. Inr (ns div 1000000))"

text \<open>
  On a clock reading with normalized nanoseconds and at most 2 to the 34 seconds the
  three timestamps are the exact time in their unit, without overflow; and the millisecond
  timestamp is the microsecond one divided by 1000, so the start times the job derives from
  one nanosecond reading are comparable with the later readings of the threads.
\<close>

theorem clock_units:
  assumes "clock_gettime clk = (0, t)" and "unat (tv_nsec t) < 1000000000" and "unat (tv_sec t) < 2 ^ 34"
  shows "\<exists>ns us ms. get_time_ns clock_gettime clk = Inr ns \<and> get_time_us clock_gettime clk = Inr us \<and>
    get_time_ms clock_gettime clk = Inr ms \<and>
    unat ns = unat (tv_sec t) * 1000000000 + unat (tv_nsec t) \<and>
    unat us = unat (tv_sec t) * 1000000 + unat (tv_nsec t) div 1000 \<and>
    unat ms = unat (tv_sec t) * 1000 + unat (tv_nsec t) div 1000000 \<and> ms = us div 1000"
proof -
  let ?ns = "tv_sec t * 1000000000 + tv_nsec t"
  have "unat (tv_sec t * 1000000000) = unat (tv_sec t) * 1000000000"
    using assms(3) by (simp add: unat_word_ariths)
  then have ns: "unat ?ns = unat (tv_sec t) * 1000000000 + unat (tv_nsec t)"
    using assms(2,3) by (simp add: unat_word_ariths)
  have "unat (?ns div 1000) = unat (tv_sec t) * 1000000 + unat (tv_nsec t) div 1000"
    "unat (?ns div 1000000) = unat (tv_sec t) * 1000 + unat (tv_nsec t) div 1000000"
    by (simp_all add: unat_div_word ns)
  moreover have "?ns div 1000000 = ?ns div 1000 div 1000"
    by (simp add: word_unat_eq_iff unat_div_word div_mult2_eq [symmetric])
  ultimately show ?thesis
    using assms(1) ns by (simp add: get_time_ns_def get_time_us_def get_time_ms_def)
qed

theorem clock_units_witness:
  "\<exists>us. get_time_us (\<lambda>c. (0, \<lparr>tv_sec = 12, tv_nsec = 345678901\<rparr>)) CLOCK_MONOTONIC = Inr us
    \<and> unat us = 12345678"
  using clock_units [of "\<lambda>c. (0, \<lparr>tv_sec = 12, tv_nsec = 345678901\<rparr>)" CLOCK_MONOTONIC
    "\<lparr>tv_sec = 12, tv_nsec = 345678901\<rparr>"] by auto

end
