(* ===== verification/Thread.thy ===== *)
theory Thread
  imports Async_IO Perf_Clock
begin

text \<open>
  The worker threads (\<open>src/src/thread.h\<close>, \<open>src/src/thread.cc\<close>) and the job options they read
  (\<open>JobOptions\<close> of \<open>src/src/job.h\<close>): the setup of a worker, the first operations it submits, and
  the loop that waits for an operation, records its result and starts it again elsewhere. The
  engine is any \<open>io_manager\<close>. The flags shared with the job and the clock can change between any
  two reads, so every round of the loop gets the values it reads as an input.
\<close>

section \<open>Data\<close>

record job_options =
  duration :: u32
  warmup_time :: u32
  use_time_seed :: bool
  rand_seed :: u64
  total_threads :: u32
  use_total_threads :: bool
  disable_affinity :: bool
  measure_latency :: bool
  measure_iops_std_dev :: bool
  io_bucket_duration_ms :: u32
  start_time_ns :: u64
  start_time_us :: u64
  start_time_ms :: u64

definition JobOptions :: job_options where
  "JobOptions = \<lparr>duration = 10, warmup_time = 5, use_time_seed = False, rand_seed = 0, total_threads = 0,
     use_total_threads = False, disable_affinity = False, measure_latency = False,
     measure_iops_std_dev = False, io_bucket_duration_ms = 1000, start_time_ns = 0, start_time_us = 0,
     start_time_ms = 0\<rparr>"

text \<open>The data of one target of a thread; the target itself is an index into the job's targets.\<close>

record target_data =
  td_target :: nat
  td_results :: target_results
  td_fd :: int
  td_buffer :: target_buffer
  td_write_buffer :: target_buffer

definition TargetData :: "nat \<Rightarrow> target_data" where
  "TargetData k = \<lparr>td_target = k, td_results = TargetResults, td_fd = - 1, td_buffer = TargetBuffer,
     td_write_buffer = TargetBuffer\<rparr>"

record thread_params =
  thread_id :: u32
  rel_thread_id :: u32
  initialized :: bool
  run_threads :: bool
  thread_error :: bool
  error_notified :: bool

text \<open>A worker while it runs: its parameters, the job's targets, its own target data and engines.\<close>

record ('g, 'h, 's) worker =
  params :: thread_params
  job_targets :: "target list"
  targets :: "target_data list"
  th_rng :: "('g, 'h) rng_engine"
  rw_rng :: "('g, 'h) rng_engine"
  io :: 's
  thread_bytes_count :: off_t

text \<open>What a thread gets from outside: the random generators, the allocator, \<open>open\<close> and the clock.\<close>

record ('g, 'h) environment =
  mt64 :: "u64 \<Rightarrow> 'g"
  mt32 :: "u64 \<Rightarrow> 'h"
  dist64 :: "'g distribution"
  dist32 :: "'h distribution"
  random_device :: "u32 \<times> u32"
  rw_random_device :: "u32 \<times> u32"
  alloc :: "size_t \<Rightarrow> u64"
  open_file :: "string \<Rightarrow> u32 \<Rightarrow> int"
  time_us :: "fault + u64"

datatype outcome = Continue | Left_Loop | Aborted

definition thread_gid :: "('g, 'h, 's) worker \<Rightarrow> int" where
  "thread_gid w = sint (thread_id (params w))"

definition thread_abort :: "('g, 'h, 's) worker \<Rightarrow> ('g, 'h, 's) worker" where
  "thread_abort w = w\<lparr>params := (params w)\<lparr>run_threads := False, thread_error := True,
     error_notified := initialized (params w)\<rparr>\<rparr>"

section \<open>Setup\<close>

definition valid_buckets :: "job_options \<Rightarrow> fault + size_t" where
  "valid_buckets opt =
    (if measure_iops_std_dev opt then
       bindE (fdiv (real (unat (duration opt * 1000))) (real (unat (io_bucket_duration_ms opt))))
         (\<lambda>q. Inr (word_of_int \<lceil>q\<rceil>))
     else Inr 0)"

definition buffer_align :: "target \<Rightarrow> size_t" where
  "buffer_align t = (if open_flags t AND O_DIRECT \<noteq> 0 then sector_size t else 1)"

text \<open>A buffer of a target filled as \<open>-Z\<close> asks.\<close>

definition fill_buffer ::
  "('g, 'h) environment \<Rightarrow> target \<Rightarrow> target_buffer \<Rightarrow> ('g, 'h) rng_engine
    \<Rightarrow> fault + target_buffer \<times> ('g, 'h) rng_engine" where
  "fill_buffer env t b r =
    (if rand_buffers t then fill_rand (dist64 env) r b
     else if \<not> zero_buffers t then Inr (fill_default b, r)
     else Inr (b, r))"

definition init_bucketizers :: "job_options \<Rightarrow> size_t \<Rightarrow> target_results \<Rightarrow> fault + target_results" where
  "init_bucketizers opt valid res =
    (if measure_iops_std_dev opt then
       bindE (Initialize (ucast (io_bucket_duration_ms opt)) valid (read_bucketizer res)) (\<lambda>rb.
       bindE (Initialize (ucast (io_bucket_duration_ms opt)) valid (write_bucketizer res)) (\<lambda>wb.
         Inr (res\<lparr>read_bucketizer := rb, write_bucketizer := wb\<rparr>)))
     else Inr res)"

text \<open>The body of the loop that opens the targets; false is the early return after \<open>thread_abort\<close>.\<close>

definition setup_target ::
  "('g, 'h) environment \<Rightarrow> job_options \<Rightarrow> size_t \<Rightarrow> nat \<Rightarrow> ('g, 'h, 's) worker
    \<Rightarrow> fault + bool \<times> ('g, 'h, 's) worker" where
  "setup_target env opt valid k w =
    (let td = targets w ! k; t = job_targets w ! td_target td
     in bindE (init_bucketizers opt valid (td_results td)) (\<lambda>res.
       let fd = open_file env (path t) (open_flags t);
           w1 = w\<lparr>targets := (targets w)[k := td\<lparr>td_results := res, td_fd := fd\<rparr>]\<rparr>
       in if fd = - 1 then Inr (False, thread_abort w1)
          else
            bindE (buffer_calloc (alloc env) (ucast (overlap t) * block_size t) (buffer_align t) (td_buffer td)) (\<lambda>b0.
            bindE (fill_buffer env t b0 (th_rng w)) (\<lambda>(b, r1).
            bindE (if separate_buffers t
                   then bindE (buffer_calloc (alloc env) (block_size t) (buffer_align t) (td_write_buffer td))
                          (\<lambda>wb0. fill_buffer env t wb0 r1)
                   else Inr (td_write_buffer td, r1)) (\<lambda>(wb, r2).
              Inr (True, w1\<lparr>th_rng := r2,
                targets := (targets w)[k := td\<lparr>td_results := res, td_fd := fd, td_buffer := b,
                  td_write_buffer := wb\<rparr>]\<rparr>))))))"

primrec setup_targets ::
  "('g, 'h) environment \<Rightarrow> job_options \<Rightarrow> size_t \<Rightarrow> nat list \<Rightarrow> ('g, 'h, 's) worker
    \<Rightarrow> fault + bool \<times> ('g, 'h, 's) worker" where
  "setup_targets env opt valid [] w = Inr (True, w)"
| "setup_targets env opt valid (k # ks) w =
    bindE (setup_target env opt valid k w)
      (\<lambda>(ok, w'). if ok then setup_targets env opt valid ks w' else Inr (False, w'))"

section \<open>The first operations\<close>

text \<open>An offset operation on the shared target of a target data.\<close>

definition with_target ::
  "nat \<Rightarrow> (('g, 'h) offset_state \<Rightarrow> fault + off_t \<times> ('g, 'h) offset_state) \<Rightarrow> ('g, 'h, 's) worker
    \<Rightarrow> fault + off_t \<times> ('g, 'h, 's) worker" where
  "with_target k f w =
    (let j = td_target (targets w ! k)
     in bindE (f (job_targets w ! j, th_rng w)) (\<lambda>(off, (t, r)).
          Inr (off, w\<lparr>job_targets := (job_targets w)[j := t], th_rng := r\<rparr>)))"

text \<open>The choice between reading and writing, with the other random engine.\<close>

definition pick_type :: "'h distribution \<Rightarrow> target \<Rightarrow> ('g, 'h, 's) worker \<Rightarrow> iop_type \<times> ('g, 'h, 's) worker" where
  "pick_type d32 t w =
    (let (p, r) = get_percentage d32 (rw_rng w)
     in (if p \<le> write_percentage t then WRITE_IOP else READ_IOP, w\<lparr>rw_rng := r\<rparr>))"

text \<open>The body of the loop over a target's overlap; \<open>None\<close> is the early return.\<close>

definition start_op ::
  "'s io_manager \<Rightarrow> ('g, 'h) environment \<Rightarrow> nat \<Rightarrow> nat \<Rightarrow> off_t \<times> ('g, 'h, 's) worker
    \<Rightarrow> fault + off_t option \<times> ('g, 'h, 's) worker" where
  "start_op m env k i = (\<lambda>(curr_offset, w).
    let td = targets w ! k; t = job_targets w ! td_target td;
        read_buf = buf_ptr (td_buffer td) + of_nat i * block_size t;
        write_buf = (if separate_buffers t then buf_ptr (td_write_buffer td) else read_buf);
        (ty, w1) = pick_type (dist32 env) t w
    in bindE (time_us env) (\<lambda>now.
       bindE (m_construct m ty (td_fd td) curr_offset read_buf write_buf (block_size t) (thread_gid w) k now (io w1))
         (\<lambda>(op, s1). bindE (m_enqueue m op s1) (\<lambda>(err, s2).
            if err \<noteq> 0 then Inr (None, thread_abort (w1\<lparr>io := s2\<rparr>))
            else bindE (with_target k (get_next_offset (dist64 env) (rel_thread_id (params w)) curr_offset)
                          (w1\<lparr>io := s2\<rparr>))
                   (\<lambda>(off, w2). Inr (Some off, w2))))))"

primrec start_ops ::
  "'s io_manager \<Rightarrow> ('g, 'h) environment \<Rightarrow> nat \<Rightarrow> nat list \<Rightarrow> off_t \<times> ('g, 'h, 's) worker
    \<Rightarrow> fault + bool \<times> ('g, 'h, 's) worker" where
  "start_ops m env k [] s = Inr (True, snd s)"
| "start_ops m env k (i # is) s =
    bindE (start_op m env k i s)
      (\<lambda>(off, w). case off of None \<Rightarrow> Inr (False, w) | Some o' \<Rightarrow> start_ops m env k is (o', w))"

primrec start_targets ::
  "'s io_manager \<Rightarrow> ('g, 'h) environment \<Rightarrow> nat list \<Rightarrow> ('g, 'h, 's) worker
    \<Rightarrow> fault + bool \<times> ('g, 'h, 's) worker" where
  "start_targets m env [] w = Inr (True, w)"
| "start_targets m env (k # ks) w =
    bindE (with_target k (get_start_offset (dist64 env) (rel_thread_id (params w))) w) (\<lambda>(off, w1).
    bindE (start_ops m env k [0..<unat (overlap (job_targets w ! td_target (targets w ! k)))] (off, w1))
      (\<lambda>(ok, w2). if ok then start_targets m env ks w2 else Inr (False, w2)))"

text \<open>\<open>thread_func\<close> up to its loop. The worker gets its random engines here.\<close>

definition total_overlap_of :: "('g, 'h, 's) worker \<Rightarrow> size_t" where
  "total_overlap_of w = sum_list (map (\<lambda>td. ucast (overlap (job_targets w ! td_target td))) (targets w))"

definition thread_start ::
  "'s io_manager \<Rightarrow> ('g, 'h) environment \<Rightarrow> job_options \<Rightarrow> ('g, 'h, 's) worker
    \<Rightarrow> fault + bool \<times> ('g, 'h, 's) worker" where
  "thread_start m env opt w0 =
    (let rng = (if use_time_seed opt
          then RngEngine_random (mt64 env) (mt32 env) (fst (random_device env)) (snd (random_device env))
          else RngEngine_seed (mt64 env) (mt32 env) (rand_seed opt));
         rw = RngEngine_random (mt64 env) (mt32 env) (fst (rw_random_device env)) (snd (rw_random_device env));
         w = w0\<lparr>th_rng := rng, rw_rng := rw\<rparr>
     in bindE (valid_buckets opt) (\<lambda>valid.
        bindE (setup_targets env opt valid [0..<length (targets w)] w) (\<lambda>(ok, w1).
          if \<not> ok then Inr (False, w1)
          else bindE (m_create_group m (thread_gid w1) (sint (ucast (total_overlap_of w1) :: 32 word)) (io w1)) (\<lambda>(created, s1).
            if \<not> created then Inr (False, thread_abort (w1\<lparr>io := s1\<rparr>))
            else if targets w1 = [] then Inl Undefined
            else bindE (start_targets m env [0..<length (targets w1)] (w1\<lparr>io := s1\<rparr>)) (\<lambda>(started, w2).
              if \<not> started then Inr (False, w2)
              else bindE (m_submit m (thread_gid w2) (io w2)) (\<lambda>(err, s2).
                if err \<noteq> 0 then Inr (False, thread_abort (w2\<lparr>io := s2\<rparr>))
                else Inr (True, w2\<lparr>io := s2, params := (params w2)\<lparr>initialized := True\<rparr>,
                       thread_bytes_count := 0\<rparr>)))))))"

section \<open>The loop\<close>

text \<open>
  What one round of the loop reads from outside, in the order it does: the flags at the loop
  test and at the throttle test, the clock in ms, the flag after waiting, the clock in us, and
  whether results are recorded.
\<close>

record reads =
  rd_run :: bool
  rd_record_throttle :: bool
  rd_now_ms :: u64
  rd_run_after :: bool
  rd_now_us :: u64
  rd_record :: bool

text \<open>
  The throttle (\<open>-g\<close>): the quotient of an \<open>off_t\<close> and a \<open>uint64_t\<close> is unsigned, the
  comparison with the limit signed. The limit is the first target's.
\<close>

definition throttled :: "job_options \<Rightarrow> off_t \<Rightarrow> reads \<Rightarrow> off_t \<Rightarrow> bool" where
  "throttled opt thread_throughput rd n \<longleftrightarrow>
    rd_record_throttle rd \<and> thread_throughput \<noteq> 0 \<and>
    (let since_start_ms = rd_now_ms rd - start_time_ms opt
     in since_start_ms \<noteq> 0 \<and> thread_throughput <s n div since_start_ms)"

text \<open>The counters, bucketizer (\<open>-D\<close>) and histogram (\<open>-L\<close>) of reads, and of writes.\<close>

definition record_read ::
  "job_options \<Rightarrow> int \<Rightarrow> u64 \<Rightarrow> u64 \<Rightarrow> target_results \<Rightarrow> fault + target_results" where
  "record_read opt ret since_start_us op_time_us res =
    bindE (if measure_iops_std_dev opt
           then bindE (bucketizer_Add (since_start_us div 1000) (read_bucketizer res))
                  (\<lambda>b. Inr (res\<lparr>read_bucketizer := b\<rparr>))
           else Inr res)
      (\<lambda>r. Inr (r\<lparr>read_iops_count := read_iops_count r + 1,
         read_bytes_count := read_bytes_count r + word_of_int ret,
         read_latency_histogram := (if measure_latency opt
           then histogram_Add op_time_us (read_latency_histogram r) else read_latency_histogram r)\<rparr>))"

definition record_write ::
  "job_options \<Rightarrow> int \<Rightarrow> u64 \<Rightarrow> u64 \<Rightarrow> target_results \<Rightarrow> fault + target_results" where
  "record_write opt ret since_start_us op_time_us res =
    bindE (if measure_iops_std_dev opt
           then bindE (bucketizer_Add (since_start_us div 1000) (write_bucketizer res))
                  (\<lambda>b. Inr (res\<lparr>write_bucketizer := b\<rparr>))
           else Inr res)
      (\<lambda>r. Inr (r\<lparr>write_iops_count := write_iops_count r + 1,
         write_bytes_count := write_bytes_count r + word_of_int ret,
         write_latency_histogram := (if measure_latency opt
           then histogram_Add op_time_us (write_latency_histogram r) else write_latency_histogram r)\<rparr>))"

text \<open>
  What is recorded of an operation that transferred \<open>ret\<close> bytes. The operation's time is only read
  when the standard deviation of the IOPS or the latency is measured.
\<close>

definition record_op ::
  "job_options \<Rightarrow> iop_type \<Rightarrow> int \<Rightarrow> u64 \<Rightarrow> (fault + u64) \<Rightarrow> target_results \<Rightarrow> fault + target_results" where
  "record_op opt ty ret abs_time_us op_start res =
    (let res1 = res\<lparr>bytes_count := bytes_count res + word_of_int ret, iops_count := iops_count res + 1\<rparr>
     in bindE (if measure_iops_std_dev opt \<or> measure_latency opt
               then bindE op_start (\<lambda>t. Inr (abs_time_us - start_time_us opt, abs_time_us - t))
               else Inr (0, 0))
          (\<lambda>(since_start_us, op_time_us).
            if ty = READ_IOP then record_read opt ret since_start_us op_time_us res1
            else record_write opt ret since_start_us op_time_us res1))"

text \<open>The operation goes to its next place and is queued and submitted again.\<close>

definition restart_op ::
  "'s io_manager \<Rightarrow> ('g, 'h) environment \<Rightarrow> u64 \<Rightarrow> nat \<Rightarrow> ('g, 'h, 's) worker
    \<Rightarrow> fault + outcome \<times> ('g, 'h, 's) worker" where
  "restart_op m env abs_time_us op w =
    (let k = get_target_data m op (io w); s1 = set_time m op abs_time_us (io w)
     in bindE (with_target k (get_next_offset (dist64 env) (rel_thread_id (params w)) (get_offset m op s1)) w)
          (\<lambda>(off, w1).
            let s2 = set_offset m op off s1;
                (ty, w2) = pick_type (dist32 env) (job_targets w1 ! td_target (targets w1 ! k)) w1;
                s3 = set_type m op ty s2
            in bindE (m_enqueue m op s3) (\<lambda>(err, s4).
                 if err \<noteq> 0 then Inr (Aborted, thread_abort (w2\<lparr>io := s4\<rparr>))
                 else bindE (m_submit m (thread_gid w) s4) (\<lambda>(err', s5).
                   if err' \<noteq> 0 then Inr (Aborted, thread_abort (w2\<lparr>io := s5\<rparr>))
                   else Inr (Continue, w2\<lparr>io := s5\<rparr>)))))"

text \<open>The results of an operation, when they are recorded.\<close>

definition record_results_of ::
  "'s io_manager \<Rightarrow> job_options \<Rightarrow> reads \<Rightarrow> nat \<Rightarrow> int \<Rightarrow> ('g, 'h, 's) worker \<Rightarrow> fault + ('g, 'h, 's) worker" where
  "record_results_of m opt rd op ret w =
    (if \<not> rd_record rd then Inr w
     else
       let k = get_target_data m op (io w); td = targets w ! k
       in bindE (record_op opt (get_type m op (io w)) ret (rd_now_us rd) (get_time m op (io w)) (td_results td))
            (\<lambda>res. Inr (w\<lparr>thread_bytes_count := thread_bytes_count w + block_size (job_targets w ! td_target td),
                 targets := (targets w)[k := td\<lparr>td_results := res\<rparr>]\<rparr>)))"

text \<open>One round: \<open>usleep\<close> and \<open>continue\<close> when throttled; the result compares as \<open>size_t\<close>.\<close>

definition work_step ::
  "'s io_manager \<Rightarrow> ('g, 'h) environment \<Rightarrow> job_options \<Rightarrow> reads \<Rightarrow> ('g, 'h, 's) worker
    \<Rightarrow> fault + outcome \<times> ('g, 'h, 's) worker" where
  "work_step m env opt rd w =
    (if \<not> rd_run rd then Inr (Left_Loop, w)
     else if throttled opt (max_throughput (job_targets w ! td_target (targets w ! 0))) rd (thread_bytes_count w)
       then Inr (Continue, w)
     else bindE (m_wait m (thread_gid w) (io w)) (\<lambda>(op, s1).
       let w1 = w\<lparr>io := s1\<rparr>
       in if \<not> rd_run_after rd then Inr (Left_Loop, w1)
          else
            let t = job_targets w ! td_target (targets w ! get_target_data m op s1);
                err = get_errno m op s1; ret = get_ret m op s1
            in if err \<noteq> 0 then Inr (Aborted, thread_abort w1)
               else if word_of_int ret \<noteq> block_size t then Inr (Aborted, thread_abort w1)
               else bindE (record_results_of m opt rd op ret w1) (restart_op m env (rd_now_us rd) op)))"

text \<open>
  The loop over the inputs of its rounds, between which the other threads on an interlocked
  target may have moved its offset: the first component of an input is the targets' offsets then.
\<close>

definition interfere :: "off_t list \<Rightarrow> ('g, 'h, 's) worker \<Rightarrow> ('g, 'h, 's) worker" where
  "interfere offs w = w\<lparr>job_targets := map2 (\<lambda>t off. t\<lparr>interlocked_offset := off\<rparr>) (job_targets w) offs\<rparr>"

primrec work_loop ::
  "'s io_manager \<Rightarrow> ('g, 'h) environment \<Rightarrow> job_options \<Rightarrow> (off_t list \<times> reads) list \<Rightarrow> ('g, 'h, 's) worker
    \<Rightarrow> fault + outcome \<times> ('g, 'h, 's) worker" where
  "work_loop m env opt [] w = Inr (Continue, w)"
| "work_loop m env opt (x # xs) w =
    bindE (work_step m env opt (snd x) (interfere (fst x) w))
      (\<lambda>(out, w'). if out = Continue then work_loop m env opt xs w' else Inr (out, w'))"

text \<open>
  The whole of \<open>thread_func\<close>, with the files it closes: those of its targets when it leaves the loop, none
  when it returns early. With the outcome \<open>Continue\<close> the inputs have ended before the loop.
\<close>

definition thread_func ::
  "'s io_manager \<Rightarrow> ('g, 'h) environment \<Rightarrow> job_options \<Rightarrow> (off_t list \<times> reads) list \<Rightarrow> ('g, 'h, 's) worker
    \<Rightarrow> fault + outcome \<times> ('g, 'h, 's) worker \<times> int list" where
  "thread_func m env opt xs w0 =
    bindE (thread_start m env opt w0) (\<lambda>(ok, w).
      if \<not> ok then Inr (Aborted, w, [])
      else bindE (work_loop m env opt xs w) (\<lambda>(out, w').
        Inr (out, w', if out = Left_Loop then map td_fd (targets w') else [])))"

section \<open>What the counters add up to\<close>

text \<open>
  The results of a target are consistent for the block size \<open>bs\<close>: the totals are the sums of reads
  and writes, and the bytes are the operations times the block size.
\<close>

definition results_ok :: "size_t \<Rightarrow> target_results \<Rightarrow> bool" where
  "results_ok bs res \<longleftrightarrow>
    iops_count res = read_iops_count res + write_iops_count res \<and>
    bytes_count res = read_bytes_count res + write_bytes_count res \<and>
    read_bytes_count res = read_iops_count res * bs \<and> write_bytes_count res = write_iops_count res * bs"

lemma record_read_Inr:
  assumes "record_read opt ret since lat res = Inr res'"
  obtains b where "res' = res\<lparr>read_bucketizer := b, read_iops_count := read_iops_count res + 1,
     read_bytes_count := read_bytes_count res + word_of_int ret,
     read_latency_histogram := (if measure_latency opt
       then histogram_Add lat (read_latency_histogram res) else read_latency_histogram res)\<rparr>"
proof (cases "measure_iops_std_dev opt")
  case True
  with assms obtain b where "bucketizer_Add (since div 1000) (read_bucketizer res) = Inr b"
    by (auto simp: record_read_def bindE_Inr_iff)
  with assms True that [of b] show ?thesis by (simp add: record_read_def cong: if_cong)
next
  case False
  with assms that [of "read_bucketizer res"] show ?thesis by (simp add: record_read_def)
qed

lemma record_write_Inr:
  assumes "record_write opt ret since lat res = Inr res'"
  obtains b where "res' = res\<lparr>write_bucketizer := b, write_iops_count := write_iops_count res + 1,
     write_bytes_count := write_bytes_count res + word_of_int ret,
     write_latency_histogram := (if measure_latency opt
       then histogram_Add lat (write_latency_histogram res) else write_latency_histogram res)\<rparr>"
proof (cases "measure_iops_std_dev opt")
  case True
  with assms obtain b where "bucketizer_Add (since div 1000) (write_bucketizer res) = Inr b"
    by (auto simp: record_write_def bindE_Inr_iff)
  with assms True that [of b] show ?thesis by (simp add: record_write_def cong: if_cong)
next
  case False
  with assms that [of "write_bucketizer res"] show ?thesis by (simp add: record_write_def)
qed

lemma record_op_cases:
  assumes "record_op opt ty ret t s res = Inr res'"
  obtains since lat where "ty = READ_IOP" "record_read opt ret since lat
      (res\<lparr>bytes_count := bytes_count res + word_of_int ret, iops_count := iops_count res + 1\<rparr>) = Inr res'"
  | since lat where "ty = WRITE_IOP" "record_write opt ret since lat
      (res\<lparr>bytes_count := bytes_count res + word_of_int ret, iops_count := iops_count res + 1\<rparr>) = Inr res'"
  using assms by (cases ty) (auto simp: record_op_def Let_def bindE_Inr_iff)

lemma record_op_counts:
  assumes "record_op opt ty ret t s res = Inr res'"
  shows "iops_count res' = iops_count res + 1" "bytes_count res' = bytes_count res + word_of_int ret"
    and "read_iops_count res' = (if ty = READ_IOP then read_iops_count res + 1 else read_iops_count res)"
    and "read_bytes_count res' = (if ty = READ_IOP then read_bytes_count res + word_of_int ret else read_bytes_count res)"
    and "write_iops_count res' = (if ty = READ_IOP then write_iops_count res else write_iops_count res + 1)"
    and "write_bytes_count res' = (if ty = READ_IOP then write_bytes_count res else write_bytes_count res + word_of_int ret)"
  using assms by (cases rule: record_op_cases; elim record_read_Inr record_write_Inr; simp)+

lemma record_op_ok:
  assumes r: "record_op opt ty ret t s res = Inr res'" and "results_ok bs res" and "word_of_int ret = bs"
  shows "results_ok bs res'"
  using assms(2,3) record_op_counts [OF r] by (cases ty) (simp_all add: results_ok_def distrib_right)

text \<open>
  With \<open>-L\<close> the latency of a recorded operation goes into the histogram of its type. The histograms
  have room for \<open>n\<close> more samples.
\<close>

definition latency_room :: "nat \<Rightarrow> target_results \<Rightarrow> bool" where
  "latency_room n res \<longleftrightarrow> histogram_inv (read_latency_histogram res) \<and> histogram_inv (write_latency_histogram res) \<and>
    size (hist_samples (read_latency_histogram res)) + n < 2 ^ 32 \<and>
    size (hist_samples (write_latency_histogram res)) + n < 2 ^ 32"

lemma record_op_latency:
  assumes "record_op opt ty ret now (Inr start) res = Inr res'" and "latency_room (Suc n) res" and "measure_latency opt"
  shows "latency_room n res' \<and>
    hist_samples (read_latency_histogram res') =
      (if ty = READ_IOP then {#now - start#} else {#}) + hist_samples (read_latency_histogram res) \<and>
    hist_samples (write_latency_histogram res') =
      (if ty = WRITE_IOP then {#now - start#} else {#}) + hist_samples (write_latency_histogram res)"
proof -
  let ?res = "res\<lparr>bytes_count := bytes_count res + word_of_int ret, iops_count := iops_count res + 1\<rparr>"
  have h: "histogram_inv (histogram_Add v h) \<and> hist_samples (histogram_Add v h) = add_mset v (hist_samples h)"
    if "histogram_inv h" "size (hist_samples h) + Suc n < 2 ^ 32" for h v
    using histogram.collect [of h "[v]"] that by simp
  from assms(1,3) have "if ty = READ_IOP then record_read opt ret (now - start_time_us opt) (now - start) ?res = Inr res'
      else record_write opt ret (now - start_time_us opt) (now - start) ?res = Inr res'"
    by (simp add: record_op_def Let_def split: if_splits)
  then show ?thesis
    using assms(2,3) h by (cases ty) (auto simp: latency_room_def elim!: record_read_Inr record_write_Inr)
qed

section \<open>The invariant of the loop\<close>

definition target_of :: "('g, 'h, 's) worker \<Rightarrow> nat \<Rightarrow> target" where
  "target_of w k = job_targets w ! td_target (targets w ! k)"

definition targets_ok :: "'g distribution \<Rightarrow> ('g, 'h, 's) worker \<Rightarrow> bool" where
  "targets_ok D w \<longleftrightarrow> (\<forall>k < length (targets w). td_target (targets w ! k) < length (job_targets w) \<and>
    offset_inv D (rel_thread_id (params w)) (target_of w k, th_rng w))"

text \<open>Two workers that differ in the state of the offsets and the results only.\<close>

definition same_setup :: "('g, 'h, 's) worker \<Rightarrow> ('g, 'h, 's) worker \<Rightarrow> bool" where
  "same_setup w w' \<longleftrightarrow> params w' = params w \<and> map td_target (targets w') = map td_target (targets w) \<and>
    map (interlocked_offset_update (\<lambda>_. 0)) (job_targets w') = map (interlocked_offset_update (\<lambda>_. 0)) (job_targets w)"

lemma same_setup_refl [simp]: "same_setup w w"
  by (simp add: same_setup_def)

lemma same_setup_trans: "same_setup a b \<Longrightarrow> same_setup b c \<Longrightarrow> same_setup a c"
  by (simp add: same_setup_def)

lemma same_setupD:
  assumes "same_setup w w'"
  shows "params w' = params w" and "length (targets w') = length (targets w)"
    and "length (job_targets w') = length (job_targets w)"
    and "k < length (targets w) \<Longrightarrow> td_target (targets w' ! k) = td_target (targets w ! k)"
    and "j < length (job_targets w) \<Longrightarrow>
      (job_targets w' ! j)\<lparr>interlocked_offset := 0\<rparr> = (job_targets w ! j)\<lparr>interlocked_offset := 0\<rparr>"
proof -
  show "params w' = params w" using assms by (simp add: same_setup_def)
  show t: "length (targets w') = length (targets w)"
    and j: "length (job_targets w') = length (job_targets w)"
    using assms unfolding same_setup_def by (metis length_map)+
  show "td_target (targets w' ! k) = td_target (targets w ! k)" if "k < length (targets w)"
    using assms that t unfolding same_setup_def by (metis nth_map)
  show "(job_targets w' ! j)\<lparr>interlocked_offset := 0\<rparr> = (job_targets w ! j)\<lparr>interlocked_offset := 0\<rparr>"
    if "j < length (job_targets w)"
    using assms that j unfolding same_setup_def by (metis nth_map)
qed

lemma same_area:
  assumes "t'\<lparr>interlocked_offset := 0\<rparr> = t\<lparr>interlocked_offset := 0\<rparr>"
  shows "in_range t' off = in_range t off" and "block_size t' = block_size t"
    and "max_throughput t' = max_throughput t" and "write_percentage t' = write_percentage t"
proof -
  have "in_range (t'\<lparr>interlocked_offset := 0\<rparr>) off = in_range (t\<lparr>interlocked_offset := 0\<rparr>) off"
    "block_size (t'\<lparr>interlocked_offset := 0\<rparr>) = block_size (t\<lparr>interlocked_offset := 0\<rparr>)"
    "max_throughput (t'\<lparr>interlocked_offset := 0\<rparr>) = max_throughput (t\<lparr>interlocked_offset := 0\<rparr>)"
    "write_percentage (t'\<lparr>interlocked_offset := 0\<rparr>) = write_percentage (t\<lparr>interlocked_offset := 0\<rparr>)"
    by (simp_all only: assms)
  then show "in_range t' off = in_range t off" "block_size t' = block_size t"
    "max_throughput t' = max_throughput t" "write_percentage t' = write_percentage t" by simp_all
qed

lemma same_setup_target:
  assumes "same_setup w w'" and "k < length (targets w)" and "td_target (targets w ! k) < length (job_targets w)"
  shows "in_range (target_of w' k) off = in_range (target_of w k) off"
    and "block_size (target_of w' k) = block_size (target_of w k)"
  using same_area [OF same_setupD(5) [OF assms(1) assms(3)]] same_setupD(4) [OF assms(1,2)]
  by (simp_all add: target_of_def)

lemma offset_inv_area:
  assumes "offset_inv D rel (t, r)" and "t'\<lparr>interlocked_offset := 0\<rparr> = t\<lparr>interlocked_offset := 0\<rparr>"
    and "use_interlocked t \<Longrightarrow> in_range t (interlocked_offset t')"
  shows "offset_inv D rel (t', r')"
proof -
  have t': "t' = t\<lparr>interlocked_offset := interlocked_offset t'\<rparr>"
    using assms(2) by (cases t; cases t') simp
  show ?thesis using assms(1,3) by (subst t') (simp add: offset_inv_def)
qed

text \<open>The offset operations keep the targets usable.\<close>

lemma with_target_ok:
  assumes ok: "targets_ok D w" and k: "k < length (targets w)"
    and f: "f (target_of w k, th_rng w) = Inr (off, s')"
    and s': "offset_inv D (rel_thread_id (params w)) s'"
      "offset_cfg s' = offset_cfg (target_of w k, th_rng w)"
  shows "\<exists>w'. with_target k f w = Inr (off, w') \<and> targets_ok D w' \<and> same_setup w w' \<and> io w' = io w \<and>
    targets w' = targets w \<and> thread_bytes_count w' = thread_bytes_count w"
proof -
  let ?j = "td_target (targets w ! k)"
  obtain t r where s: "s' = (t, r)" by force
  let ?w = "w\<lparr>job_targets := (job_targets w)[?j := t], th_rng := r\<rparr>"
  have j: "?j < length (job_targets w)" using ok k by (simp add: targets_ok_def)
  have area: "t\<lparr>interlocked_offset := 0\<rparr> = (target_of w k)\<lparr>interlocked_offset := 0\<rparr>"
    using s'(2) s by (simp add: offset_cfg_def)
  have "with_target k f w = Inr (off, ?w)"
    using f s by (simp add: with_target_def target_of_def Let_def)
  moreover have "targets_ok D ?w"
    unfolding targets_ok_def
  proof (intro allI impI)
    fix k' assume k': "k' < length (targets ?w)"
    have o: "offset_inv D (rel_thread_id (params w)) (target_of w k', th_rng w)"
      and l: "td_target (targets w ! k') < length (job_targets w)" using ok k' by (simp_all add: targets_ok_def)
    have "offset_inv D (rel_thread_id (params w)) (target_of ?w k', r)"
    proof (cases "td_target (targets w ! k') = ?j")
      case True
      with j s s'(1) show ?thesis by (simp add: target_of_def)
    next
      case False
      then have "target_of ?w k' = target_of w k'" by (simp add: target_of_def)
      with o show ?thesis by (simp add: offset_inv_def)
    qed
    with l show "td_target (targets ?w ! k') < length (job_targets ?w) \<and>
        offset_inv D (rel_thread_id (params ?w)) (target_of ?w k', th_rng ?w)" by simp
  qed
  moreover have "same_setup w ?w"
    unfolding same_setup_def using area j by (simp add: map_update target_of_def) (metis list_update_id map_update)
  ultimately show ?thesis by simp
qed

lemma with_target_next:
  assumes ok: "targets_ok D w" and k: "k < length (targets w)" and off: "in_range (target_of w k) off"
  shows "\<exists>off' w'. with_target k (get_next_offset D (rel_thread_id (params w)) off) w = Inr (off', w') \<and>
    in_range (target_of w k) off' \<and> targets_ok D w' \<and> same_setup w w' \<and> io w' = io w \<and>
    targets w' = targets w \<and> thread_bytes_count w' = thread_bytes_count w"
proof -
  have "offset_inv D (rel_thread_id (params w)) (target_of w k, th_rng w)" using ok k by (simp add: targets_ok_def)
  from offsets.nxt_ok [OF this, of off] off obtain off' s' where
    n: "get_next_offset D (rel_thread_id (params w)) off (target_of w k, th_rng w) = Inr (off', s')"
    "offset_inv D (rel_thread_id (params w)) s'" "offset_cfg s' = offset_cfg (target_of w k, th_rng w)"
    "in_range (target_of w k) off'"
    by (auto simp: in_range_cfg)
  from with_target_ok [where f = "get_next_offset D (rel_thread_id (params w)) off", OF ok k n(1-3)] n(4) show ?thesis by blast
qed

text \<open>
  The loop's invariant: the targets are usable, the results consistent, and every operation of the
  thread asks for one block inside its target.
\<close>

definition worker_ok ::
  "'s io_manager \<Rightarrow> ('s \<Rightarrow> nat \<Rightarrow> bool) \<Rightarrow> 'g distribution \<Rightarrow> ('g, 'h, 's) worker \<Rightarrow> bool" where
  "worker_ok m owns D w \<longleftrightarrow> targets_ok D w \<and>
    (\<forall>k < length (targets w). results_ok (block_size (target_of w k)) (td_results (targets w ! k))) \<and>
    (\<forall>op. owns (io w) op \<longrightarrow> get_target_data m op (io w) < length (targets w) \<and>
       in_range (target_of w (get_target_data m op (io w))) (get_offset m op (io w)) \<and>
       get_nbytes m op (io w) = block_size (target_of w (get_target_data m op (io w))))"

lemma pick_type_fields:
  assumes "pick_type d t w = (ty, w')"
  obtains r where "w' = w\<lparr>rw_rng := r\<rparr>"
  using assms by (auto simp: pick_type_def split: prod.splits)

lemma record_results_of_ok:
  assumes r: "record_results_of m opt rd op ret w = Inr w'" and ok: "worker_ok m owns D w" and own: "owns (io w) op"
    and ret: "word_of_int ret = block_size (target_of w (get_target_data m op (io w)))"
  shows "worker_ok m owns D w' \<and> same_setup w w' \<and> io w' = io w"
proof (cases "rd_record rd")
  case False
  with r ok show ?thesis by (simp add: record_results_of_def)
next
  case True
  let ?k = "get_target_data m op (io w)"
  have k: "?k < length (targets w)" using ok own by (simp add: worker_ok_def)
  from True r obtain res where
    rec: "record_op opt (get_type m op (io w)) ret (rd_now_us rd) (get_time m op (io w)) (td_results (targets w ! ?k)) = Inr res"
    and w': "w' = w\<lparr>thread_bytes_count := thread_bytes_count w + block_size (job_targets w ! td_target (targets w ! ?k)),
       targets := (targets w)[?k := (targets w ! ?k)\<lparr>td_results := res\<rparr>]\<rparr>"
    by (auto simp: record_results_of_def Let_def bindE_Inr_iff)
  have td: "td_target (targets w' ! j) = td_target (targets w ! j)" for j
    using k by (cases "j = ?k") (simp_all add: w')
  then have tgt: "target_of w' j = target_of w j" for j by (simp add: target_of_def w')
  have "results_ok (block_size (target_of w ?k)) res"
    using record_op_ok [OF rec _ ret] ok k by (simp add: worker_ok_def)
  then have "results_ok (block_size (target_of w' j)) (td_results (targets w' ! j))" if "j < length (targets w)" for j
    using ok that k unfolding tgt by (cases "j = ?k") (simp_all add: w' worker_ok_def)
  moreover have "targets_ok D w'"
    using ok td tgt by (simp add: worker_ok_def targets_ok_def w')
  moreover have "map td_target (targets w') = map td_target (targets w)"
    using td by (intro nth_equalityI) (simp_all add: w')
  ultimately show ?thesis
    using ok tgt by (simp add: worker_ok_def same_setup_def w')
qed

text \<open>
  What the other threads may do to the targets between two rounds: they move the offset of an
  interlocked target, inside the target.
\<close>

definition rely :: "('g, 'h, 's) worker \<Rightarrow> off_t list \<Rightarrow> bool" where
  "rely w offs \<longleftrightarrow> length offs = length (job_targets w) \<and>
    (\<forall>j < length (job_targets w). use_interlocked (job_targets w ! j) \<longrightarrow> in_range (job_targets w ! j) (offs ! j))"

lemma interlocked_area:
  assumes "t'\<lparr>interlocked_offset := 0\<rparr> = t\<lparr>interlocked_offset := 0\<rparr>"
  shows "use_interlocked t' = use_interlocked t"
proof -
  have "use_interlocked (t'\<lparr>interlocked_offset := 0\<rparr>) = use_interlocked (t\<lparr>interlocked_offset := 0\<rparr>)"
    by (simp only: assms)
  then show ?thesis by simp
qed

lemma rely_same_setup:
  assumes "same_setup w w'"
  shows "rely w' offs = rely w offs"
proof -
  have "use_interlocked (job_targets w' ! j) = use_interlocked (job_targets w ! j)"
    and "in_range (job_targets w' ! j) off = in_range (job_targets w ! j) off" if "j < length (job_targets w)" for j off
    using interlocked_area [OF same_setupD(5) [OF assms that]] same_area(1) [OF same_setupD(5) [OF assms that]]
    by simp_all
  then show ?thesis using same_setupD(3) [OF assms] by (auto simp: rely_def)
qed

lemma interfere_ok:
  assumes ok: "worker_ok m owns D w" and r: "rely w offs"
  shows "worker_ok m owns D (interfere offs w) \<and> same_setup w (interfere offs w) \<and>
    io (interfere offs w) = io w \<and> targets (interfere offs w) = targets w \<and> params (interfere offs w) = params w"
proof -
  let ?w = "interfere offs w"
  have j: "job_targets ?w ! j = (job_targets w ! j)\<lparr>interlocked_offset := offs ! j\<rparr>" if "j < length (job_targets w)" for j
    using r that by (simp add: interfere_def rely_def)
  have l: "length (job_targets ?w) = length (job_targets w)" using r by (simp add: interfere_def rely_def)
  have s: "same_setup w ?w"
    unfolding same_setup_def using l j by (auto simp: interfere_def intro!: nth_equalityI)
  have k: "td_target (targets w ! k) < length (job_targets w)" if "k < length (targets w)" for k
    using ok that by (simp add: worker_ok_def targets_ok_def)
  have "targets_ok D ?w"
    unfolding targets_ok_def
  proof (intro allI impI)
    fix k assume "k < length (targets ?w)"
    then have k': "k < length (targets w)" by (simp add: interfere_def)
    have "offset_inv D (rel_thread_id (params w)) (target_of w k, th_rng w)"
      using ok k' by (simp add: worker_ok_def targets_ok_def)
    then have "offset_inv D (rel_thread_id (params w)) (target_of ?w k, th_rng w)"
      by (rule offset_inv_area) (use r j [OF k [OF k']] k [OF k'] in \<open>simp_all add: target_of_def interfere_def rely_def\<close>)
    then show "td_target (targets ?w ! k) < length (job_targets ?w) \<and>
        offset_inv D (rel_thread_id (params ?w)) (target_of ?w k, th_rng ?w)"
      using k [OF k'] l by (simp add: interfere_def)
  qed
  moreover have "in_range (target_of ?w k) off = in_range (target_of w k) off"
    "block_size (target_of ?w k) = block_size (target_of w k)" if "k < length (targets w)" for k off
    using same_setup_target [OF s that k [OF that]] by simp_all
  ultimately show ?thesis
    using ok s by (simp add: worker_ok_def interfere_def)
qed

text \<open>The ways a round can end without a fault.\<close>

lemma restart_op_out: "restart_op m env t op w = Inr (out, w') \<Longrightarrow> out \<noteq> Left_Loop"
  by (auto simp: restart_op_def Let_def bindE_Inr_iff case_prod_unfold split: if_splits)

lemma work_step_cases:
  assumes r: "work_step m env opt rd w = Inr (out, w')"
  obtains (left) "out = Left_Loop" "w' = w"
  | (throttled) "out = Continue" "w' = w"
  | (late) op s1 where "m_wait m (thread_gid w) (io w) = Inr (op, s1)" "out = Left_Loop" "w' = w\<lparr>io := s1\<rparr>"
  | (failed) op s1 where "m_wait m (thread_gid w) (io w) = Inr (op, s1)" "out = Aborted"
      "w' = thread_abort (w\<lparr>io := s1\<rparr>)"
  | (finished) op s1 w2 where "m_wait m (thread_gid w) (io w) = Inr (op, s1)"
      "word_of_int (get_ret m op s1) = block_size (target_of w (get_target_data m op s1))"
      "record_results_of m opt rd op (get_ret m op s1) (w\<lparr>io := s1\<rparr>) = Inr w2"
      "restart_op m env (rd_now_us rd) op w2 = Inr (out, w')"
proof (cases "\<not> rd_run rd \<or>
    throttled opt (max_throughput (job_targets w ! td_target (targets w ! 0))) rd (thread_bytes_count w)")
  case True
  with r left throttled show ?thesis by (auto simp: work_step_def split: if_splits)
next
  case False
  with r obtain op s1 where w: "m_wait m (thread_gid w) (io w) = Inr (op, s1)"
    by (auto simp: work_step_def bindE_Inr_iff)
  show ?thesis
    using r False w late [OF w] failed [OF w] finished [OF w]
    by (auto simp: work_step_def Let_def bindE_Inr_iff target_of_def split: if_splits)
qed

text \<open>The rounds of the loop over any engine that keeps the contract.\<close>

definition results_of_ok :: "('g, 'h, 's) worker \<Rightarrow> bool" where
  "results_of_ok w \<longleftrightarrow> (\<forall>k < length (targets w). results_ok (block_size (target_of w k)) (td_results (targets w ! k)))"

lemma worker_okD:
  assumes "worker_ok m owns D w"
  shows "targets_ok D w" and "results_of_ok w"
    and "owns (io w) op \<Longrightarrow> get_target_data m op (io w) < length (targets w)"
    and "owns (io w) op \<Longrightarrow> in_range (target_of w (get_target_data m op (io w))) (get_offset m op (io w))"
    and "owns (io w) op \<Longrightarrow> get_nbytes m op (io w) = block_size (target_of w (get_target_data m op (io w)))"
  using assms by (simp_all add: worker_ok_def results_of_ok_def)

lemma results_of_ok_cong:
  assumes "results_of_ok w" and "same_setup w w'" and "targets w' = targets w" and "targets_ok D w"
  shows "results_of_ok w'"
  using assms same_setup_target(2) [OF assms(2)]
  by (simp add: results_of_ok_def targets_ok_def)

lemma targets_ok_fields [simp]:
  "targets_ok D (w\<lparr>io := s\<rparr>) = targets_ok D w" "targets_ok D (w\<lparr>rw_rng := r\<rparr>) = targets_ok D w"
  "target_of (w\<lparr>io := s\<rparr>) k = target_of w k" "target_of (w\<lparr>rw_rng := r\<rparr>) k = target_of w k"
  "target_of (thread_abort w) k = target_of w k" "targets (thread_abort w) = targets w"
  "same_setup w' (w\<lparr>io := s\<rparr>) = same_setup w' w" "same_setup w' (w\<lparr>rw_rng := r\<rparr>) = same_setup w' w"
  "results_of_ok (w\<lparr>io := s\<rparr>) = results_of_ok w" "results_of_ok (w\<lparr>rw_rng := r\<rparr>) = results_of_ok w"
  "results_of_ok (thread_abort w) = results_of_ok w"
  by (simp_all add: targets_ok_def target_of_def thread_abort_def same_setup_def results_of_ok_def)

context async_io_attrs begin

text \<open>What holds between two rounds of a worker whose thread id is the group.\<close>

definition running :: "'g distribution \<Rightarrow> ('g, 'h, 's) worker \<Rightarrow> bool" where
  "running D w \<longleftrightarrow> worker_ok m owns D w \<and> inv (io w) \<and> queued (io w) = {#} \<and> thread_gid w = gid"

text \<open>
  Restarting an operation comes down to its submission: up to there it cannot fail.
\<close>

lemma restart_queued:
  assumes ok: "worker_ok m owns (dist64 env) w" and i: "inv (io w)" and q: "queued (io w) = {#}"
    and g: "thread_gid w = gid" and o: "owns (io w) op" and n: "op \<notin># flying (io w)"
  obtains off ty w1 s4 where
    "restart_op m env t op w = bindE (m_submit m gid s4) (\<lambda>(err, s5).
      if err \<noteq> 0 then Inr (Aborted, thread_abort (w1\<lparr>io := s5\<rparr>)) else Inr (Continue, w1\<lparr>io := s5\<rparr>))"
    and "m_enqueue m op (set_type m op ty (set_offset m op off (set_time m op t (io w)))) = Inr (0, s4)"
    and "in_range (target_of w (get_target_data m op (io w))) off"
    and "targets_ok (dist64 env) w1" and "same_setup w w1" and "targets w1 = targets w"
    and "thread_bytes_count w1 = thread_bytes_count w"
    and "inv s4" and "owns s4 = owns (io w)" and "queued s4 = {#op#}" and "flying s4 = flying (io w)"
proof -
  let ?k = "get_target_data m op (io w)" and ?s1 = "set_time m op t (io w)" and ?D = "dist64 env"
  note w = worker_okD [OF ok]
  have s1: "get_offset m j ?s1 = get_offset m j (io w)" for j using set_keeps [of ?s1 op t "io w"] by simp
  from with_target_next [OF w(1) w(3) [OF o] w(4) [OF o]] obtain off w1 where
    n1: "with_target ?k (get_next_offset ?D (rel_thread_id (params w)) (get_offset m op ?s1)) w = Inr (off, w1)"
    and off: "in_range (target_of w ?k) off" and w1: "targets_ok ?D w1" "same_setup w w1" "targets w1 = targets w"
      "thread_bytes_count w1 = thread_bytes_count w"
    unfolding s1 by blast
  obtain ty w2 where p: "pick_type (dist32 env) (job_targets w1 ! td_target (targets w1 ! ?k)) w1 = (ty, w2)" by force
  from pick_type_fields [OF p] obtain rr where w2: "w2 = w1\<lparr>rw_rng := rr\<rparr>" .
  let ?s3 = "set_type m op ty (set_offset m op off ?s1)"
  from sets_ok [OF i, of op ty off t] have s3: "inv ?s3" "owns ?s3 = owns (io w)" "queued ?s3 = {#}"
    "flying ?s3 = flying (io w)" by (simp_all add: q)
  from enqueue_ok [OF s3(1), of op] s3 o n obtain s4 where e: "m_enqueue m op ?s3 = Inr (0, s4)" "inv s4"
    "owns s4 = owns (io w)" "queued s4 = {#op#}" "flying s4 = flying (io w)" by auto
  have "restart_op m env t op w = bindE (m_submit m gid s4) (\<lambda>(err, s5).
      if err \<noteq> 0 then Inr (Aborted, thread_abort (w2\<lparr>io := s5\<rparr>)) else Inr (Continue, w2\<lparr>io := s5\<rparr>))"
    by (simp add: restart_op_def Let_def n1 p e(1) g)
  from that [OF this e(1) off] w1 e(2-5) show ?thesis by (simp add: w2)
qed

lemma restart_ok:
  assumes ok: "worker_ok m owns (dist64 env) w" and i: "inv (io w)" and q: "queued (io w) = {#}"
    and g: "thread_gid w = gid" and o: "owns (io w) op" and n: "op \<notin># flying (io w)"
    and r: "restart_op m env t op w = Inr (out, w')"
  shows "results_of_ok w' \<and> (out = Continue \<longrightarrow> running (dist64 env) w' \<and> same_setup w w' \<and>
    flying (io w') = add_mset op (flying (io w)))"
proof -
  let ?D = "dist64 env"
  note w = worker_okD [OF ok]
  obtain off ty w1 s4 where
    sub: "restart_op m env t op w = bindE (m_submit m gid s4) (\<lambda>(err, s5).
      if err \<noteq> 0 then Inr (Aborted, thread_abort (w1\<lparr>io := s5\<rparr>)) else Inr (Continue, w1\<lparr>io := s5\<rparr>))"
    and e: "m_enqueue m op (set_type m op ty (set_offset m op off (set_time m op t (io w)))) = Inr (0, s4)"
    and off: "in_range (target_of w (get_target_data m op (io w))) off"
    and w1: "targets_ok ?D w1" "same_setup w w1" "targets w1 = targets w" "thread_bytes_count w1 = thread_bytes_count w"
    and s4: "inv s4" "owns s4 = owns (io w)" "queued s4 = {#op#}" "flying s4 = flying (io w)"
    by (rule restart_queued [OF ok i q g o n])
  from r obtain err s5 where s: "m_submit m gid s4 = Inr (err, s5)"
    and w': "(out, w') = (if err \<noteq> 0 then (Aborted, thread_abort (w1\<lparr>io := s5\<rparr>)) else (Continue, w1\<lparr>io := s5\<rparr>))"
    by (auto simp: sub bindE_Inr_iff split: if_splits)
  have res: "results_of_ok (w1\<lparr>io := s5\<rparr>)" using results_of_ok_cong [OF w(2) w1(2,3) w(1)] by simp
  show ?thesis
  proof (cases "err = 0")
    case False
    with w' res show ?thesis by simp
  next
    case True
    then have c: "out = Continue" "w' = w1\<lparr>io := s5\<rparr>" using w' by simp_all
    from submit_ok [OF s4(1) s [unfolded True]] s4 have s5: "inv s5" "owns s5 = owns (io w)" "queued s5 = {#}"
      "flying s5 = add_mset op (flying (io w))" by simp_all
    have at: "get_offset m j s5 = (if j = op then off else get_offset m j (io w))"
      "get_target_data m j s5 = get_target_data m j (io w)" "get_nbytes m j s5 = get_nbytes m j (io w)" for j
      using submit_keeps [OF s4(1) s, of j] enqueue_keeps [OF e, of j] sets_keep [OF i o, of j ty off t] by simp_all
    have st: "same_setup w w'" using w1(2) by (simp add: c)
    have "in_range (target_of w' (get_target_data m j s5)) (get_offset m j s5)"
      "get_nbytes m j s5 = block_size (target_of w' (get_target_data m j s5))" if "owns (io w) j" for j
      using w(3-5) [OF that] off w(1) same_setup_target [OF st] by (simp_all add: at targets_ok_def)
    then have "worker_ok m owns ?D w'"
      using w(3) res w1 s5 at by (simp add: worker_ok_def c results_of_ok_def)
    then show ?thesis
      using st s5 same_setupD(1) [OF st] g res by (simp add: running_def c thread_gid_def)
  qed
qed

lemma wait_running:
  assumes run: "running D w" and r: "m_wait m (thread_gid w) (io w) = Inr (op, s1)"
  shows "inv s1 \<and> owns (io w) op \<and> flying (io w) = add_mset op (flying s1) \<and> op \<notin># flying s1 \<and>
    running D (w\<lparr>io := s1\<rparr>)"
proof -
  have ok: "worker_ok m owns D w" and i: "inv (io w)" and q: "queued (io w) = {#}"
    and g: "thread_gid w = gid" using run by (simp_all add: running_def)
  from wait_ok [OF i, of op s1] r g have s1: "inv s1" "owns s1 = owns (io w)" "owns (io w) op" "queued s1 = {#}"
    "flying (io w) = add_mset op (flying s1)" by (simp_all add: q)
  moreover have "op \<notin># flying s1" using once [OF i, of op] s1(5) q by (simp add: not_in_iff)
  moreover have "worker_ok m owns D (w\<lparr>io := s1\<rparr>)"
    using ok s1 wait_keeps [OF i, of op s1] r g by (simp add: worker_ok_def)
  ultimately show ?thesis using g by (simp add: running_def thread_gid_def)
qed

lemma step_ok:
  assumes run: "running (dist64 env) w" and r: "work_step m env opt rd w = Inr (out, w')"
  shows "results_of_ok w' \<and> (out = Continue \<longrightarrow> running (dist64 env) w' \<and> same_setup w w' \<and>
    flying (io w') = flying (io w)) \<and>
    (out = Left_Loop \<longrightarrow> running (dist64 env) w' \<and> same_setup w w' \<and> flying (io w') \<subseteq># flying (io w))"
proof -
  have ok: "worker_ok m owns (dist64 env) w" and i: "inv (io w)" and g: "thread_gid w = gid"
    using run by (simp_all add: running_def)
  note waited = wait_running [OF run]
  from r show ?thesis
  proof (cases rule: work_step_cases)
    case (late op s1)
    with waited [OF late(1)] worker_okD(2) [OF ok] show ?thesis by simp
  next
    case (failed op s1)
    with waited [OF failed(1)] worker_okD(2) [OF ok] show ?thesis by simp
  next
    case (finished op s1 w2)
    let ?w1 = "w\<lparr>io := s1\<rparr>"
    from waited [OF finished(1)] have s1: "inv s1" "owns s1 op" "flying (io w) = add_mset op (flying s1)"
      "op \<notin># flying s1" "queued s1 = {#}" and ok1: "worker_ok m owns (dist64 env) ?w1"
      using wait_ok [OF i, of op s1] finished(1) g by (simp_all add: running_def)
    from record_results_of_ok [OF finished(3) ok1] s1(2) finished(2)
    have w2: "worker_ok m owns (dist64 env) w2" "same_setup ?w1 w2" "io w2 = s1" by simp_all
    have "thread_gid w2 = gid" using same_setupD(1) [OF w2(2)] g by (simp add: thread_gid_def)
    with restart_ok [OF w2(1) _ _ _ _ _ finished(4)] w2(3) s1 have
      "results_of_ok w' \<and> (out = Continue \<longrightarrow> running (dist64 env) w' \<and> same_setup w2 w' \<and>
        flying (io w') = add_mset op (flying s1))" by simp
    moreover have "out \<noteq> Left_Loop" by (rule restart_op_out [OF finished(4)])
    moreover have "same_setup w w2" using w2(2) same_setup_trans [of w ?w1 w2] by simp
    ultimately show ?thesis using s1(3) same_setup_trans by auto
  qed (use run worker_okD(2) [OF ok] in simp_all)
qed

text \<open>
  The loop: whatever the flags, the clock and the other threads do, the invariant holds after it,
  the operations in flight are the ones of the start, and the results add up in every case.
\<close>

lemma loop_ok:
  assumes "running (dist64 env) w" and "\<forall>x \<in> set xs. rely w (fst x)"
    and "work_loop m env opt xs w = Inr (out, w')"
  shows "results_of_ok w' \<and> (out \<noteq> Aborted \<longrightarrow> running (dist64 env) w' \<and> same_setup w w' \<and>
    flying (io w') \<subseteq># flying (io w)) \<and> (out = Continue \<longrightarrow> flying (io w') = flying (io w))"
  using assms
proof (induction xs arbitrary: w)
  case Nil
  then show ?case by (auto simp: running_def dest: worker_okD(2))
next
  case (Cons x xs)
  let ?w = "interfere (fst x) w"
  have ok: "worker_ok m owns (dist64 env) w" and rl: "rely w (fst x)" using Cons.prems by (simp_all add: running_def)
  note f = interfere_ok [OF ok rl]
  then have run: "running (dist64 env) ?w" using Cons.prems(1) by (simp add: running_def thread_gid_def)
  from Cons.prems(3) obtain o1 w1 where s: "work_step m env opt (snd x) ?w = Inr (o1, w1)"
    and l: "(if o1 = Continue then work_loop m env opt xs w1 else Inr (o1, w1)) = Inr (out, w')"
    by (auto simp: bindE_Inr_iff)
  note st = step_ok [OF run s]
  show ?case
  proof (cases "o1 = Continue")
    case True
    with st f have w1: "running (dist64 env) w1" "same_setup w w1" "flying (io w1) = flying (io w)"
      using same_setup_trans [of w ?w w1] by simp_all
    have "\<forall>y \<in> set xs. rely w1 (fst y)" using Cons.prems(2) rely_same_setup [OF w1(2)] by simp
    from Cons.IH [OF w1(1) this] l True w1 show ?thesis using same_setup_trans [OF w1(2)] by auto
  next
    case False
    with l have "out = o1" "w' = w1" by simp_all
    with False st f show ?thesis using same_setup_trans [of w ?w w1] by (cases o1) auto
  qed
qed

end

section \<open>The start of a worker\<close>

lemma worker_ok_cong:
  assumes "worker_ok m owns D w" and "targets_ok D w'" and "same_setup w w'" and "targets w' = targets w" and "io w' = io w"
  shows "worker_ok m owns D w'"
proof -
  have "in_range (target_of w' k) off = in_range (target_of w k) off"
    "block_size (target_of w' k) = block_size (target_of w k)" if "k < length (targets w)" for k off
    using same_setup_target [OF assms(3) that] worker_okD(1) [OF assms(1)] that by (simp_all add: targets_ok_def)
  then show ?thesis using assms by (simp add: worker_ok_def)
qed

lemma same_setup_overlap:
  assumes "same_setup w w'" and "targets_ok D w" and "k < length (targets w)"
  shows "overlap (target_of w' k) = overlap (target_of w k)"
proof -
  have "overlap ((target_of w' k)\<lparr>interlocked_offset := 0\<rparr>) = overlap ((target_of w k)\<lparr>interlocked_offset := 0\<rparr>)"
    using same_setupD(5) [OF assms(1), of "td_target (targets w ! k)"] same_setupD(4) [OF assms(1,3)] assms(2,3)
    by (simp only: target_of_def targets_ok_def)
  then show ?thesis by simp
qed

lemma with_target_start:
  assumes ok: "targets_ok D w" and k: "k < length (targets w)"
  shows "\<exists>off w'. with_target k (get_start_offset D (rel_thread_id (params w))) w = Inr (off, w') \<and>
    in_range (target_of w k) off \<and> targets_ok D w' \<and> same_setup w w' \<and> io w' = io w \<and> targets w' = targets w"
proof -
  have "offset_inv D (rel_thread_id (params w)) (target_of w k, th_rng w)" using ok k by (simp add: targets_ok_def)
  from offsets.start_ok [OF this] obtain off s' where
    n: "get_start_offset D (rel_thread_id (params w)) (target_of w k, th_rng w) = Inr (off, s')"
    "offset_inv D (rel_thread_id (params w)) s'" "offset_cfg s' = offset_cfg (target_of w k, th_rng w)"
    "in_range (target_of w k) off"
    by (auto simp: in_range_cfg)
  from with_target_ok [where f = "get_start_offset D (rel_thread_id (params w))", OF ok k n(1-3)] n(4)
  show ?thesis by blast
qed

context async_io_start begin

text \<open>What holds while the first operations are made: nothing has been submitted.\<close>

definition ready :: "'g distribution \<Rightarrow> ('g, 'h, 's) worker \<Rightarrow> bool" where
  "ready D w \<longleftrightarrow> worker_ok m owns D w \<and> inv (io w) \<and> flying (io w) = {#} \<and> thread_gid w = gid"

lemma start_op_ok:
  assumes rdy: "ready (dist64 env) w" and k: "k < length (targets w)" and off: "in_range (target_of w k) off0"
    and now: "time_us env = Inr now" and room: "0 < room (io w)"
  shows "\<exists>off w'. start_op m env k i (off0, w) = Inr (Some off, w') \<and> ready (dist64 env) w' \<and>
    in_range (target_of w k) off \<and> same_setup w w' \<and> room (io w') = room (io w) - 1 \<and>
    size (queued (io w')) = Suc (size (queued (io w))) \<and> targets w' = targets w"
proof -
  have ok: "worker_ok m owns (dist64 env) w" and i: "inv (io w)" and f: "flying (io w) = {#}" and g: "thread_gid w = gid"
    using rdy by (simp_all add: ready_def)
  note w = worker_okD [OF ok]
  let ?t = "target_of w k" and ?td = "targets w ! k"
  let ?rb = "buf_ptr (td_buffer ?td) + of_nat i * block_size ?t"
  let ?wb = "if separate_buffers ?t then buf_ptr (td_write_buffer ?td) else ?rb"
  obtain ty w1 where p: "pick_type (dist32 env) ?t w = (ty, w1)" by force
  from pick_type_fields [OF p] obtain rr where w1: "w1 = w\<lparr>rw_rng := rr\<rparr>" .
  from add_op [OF i room, of ty "td_fd ?td" off0 ?rb ?wb "block_size ?t" k now] obtain op s1 s2 where
    a: "m_construct m ty (td_fd ?td) off0 ?rb ?wb (block_size ?t) gid k now (io w) = Inr (op, s1)"
      "m_enqueue m op s1 = Inr (0, s2)" "inv s2" "room s2 = room (io w) - 1"
      "size (queued s2) = Suc (size (queued (io w)))" "flying s2 = flying (io w)" "owns s2 = (owns (io w))(op := True)"
      "get_offset m op s2 = off0" "get_target_data m op s2 = k" "get_nbytes m op s2 = block_size ?t"
      "\<forall>j. owns (io w) j \<longrightarrow> get_offset m j s2 = get_offset m j (io w) \<and> get_target_data m j s2 = get_target_data m j (io w) \<and>
        get_nbytes m j s2 = get_nbytes m j (io w)"
    by blast
  let ?w2 = "w\<lparr>rw_rng := rr, io := s2\<rparr>"
  have ok2: "worker_ok m owns (dist64 env) ?w2"
    using ok a k off by (simp add: worker_ok_def)
  have "in_range (target_of ?w2 k) off0" "k < length (targets ?w2)" using off k by simp_all
  with with_target_next [OF worker_okD(1) [OF ok2]] obtain off' w3 where
    n: "with_target k (get_next_offset (dist64 env) (rel_thread_id (params w)) off0) ?w2 = Inr (off', w3)"
      "in_range ?t off'" "targets_ok (dist64 env) w3" "same_setup ?w2 w3" "io w3 = s2" "targets w3 = targets w"
    by force
  have "start_op m env k i (off0, w) = Inr (Some off', w3)"
    using p a(1,2) n(1) by (simp add: start_op_def Let_def target_of_def [symmetric] now w1 g cong: if_cong split del: if_split)
  moreover have "worker_ok m owns (dist64 env) w3"
    by (rule worker_ok_cong [OF ok2 n(3,4)]) (simp_all add: n)
  moreover have s: "same_setup w w3" using n(4) same_setup_trans [of w ?w2 w3] by simp
  ultimately show ?thesis
    using n a f g same_setupD(1) [OF s] by (simp add: ready_def thread_gid_def)
qed

lemma start_ops_ok:
  assumes "ready (dist64 env) w" and "k < length (targets w)" and "in_range (target_of w k) off0"
    and "time_us env = Inr now" and "length is \<le> room (io w)"
  shows "\<exists>w'. start_ops m env k is (off0, w) = Inr (True, w') \<and> ready (dist64 env) w' \<and> same_setup w w' \<and>
    room (io w') = room (io w) - length is \<and> size (queued (io w')) = size (queued (io w)) + length is \<and>
    targets w' = targets w"
  using assms
proof (induction "is" arbitrary: off0 w)
  case Nil
  then show ?case by simp
next
  case (Cons i "is")
  from Cons.prems have "0 < room (io w)" by simp
  from start_op_ok [OF Cons.prems(1-4) this, of i] obtain off w1 where
    o: "start_op m env k i (off0, w) = Inr (Some off, w1)" and w1: "ready (dist64 env) w1" "in_range (target_of w k) off"
      "same_setup w w1" "room (io w1) = room (io w) - 1" "size (queued (io w1)) = Suc (size (queued (io w)))"
      "targets w1 = targets w" by blast
  have "in_range (target_of w1 k) off"
    using w1(2) same_setup_target(1) [OF w1(3) Cons.prems(2)] Cons.prems(1,2)
    by (simp add: ready_def worker_ok_def targets_ok_def)
  moreover have "length is \<le> room (io w1)" using w1(4) Cons.prems(5) by simp
  ultimately obtain w2 where
    w2: "start_ops m env k is (off, w1) = Inr (True, w2)" "ready (dist64 env) w2" "same_setup w1 w2"
      "room (io w2) = room (io w1) - length is" "size (queued (io w2)) = size (queued (io w1)) + length is"
      "targets w2 = targets w1"
    using Cons.IH [OF w1(1) _ _ Cons.prems(4), of off] w1(6) Cons.prems(2) by auto
  show ?case
    using o w2 w1 same_setup_trans [OF w1(3) w2(3)] by (intro exI [of _ w2]) simp
qed

lemma start_targets_ok:
  assumes "ready (dist64 env) w" and "\<forall>k \<in> set ks. k < length (targets w)" and "time_us env = Inr now"
    and "(\<Sum>k \<leftarrow> ks. unat (overlap (target_of w k))) \<le> room (io w)"
  shows "\<exists>w'. start_targets m env ks w = Inr (True, w') \<and> ready (dist64 env) w' \<and> same_setup w w' \<and>
    size (queued (io w')) = size (queued (io w)) + (\<Sum>k \<leftarrow> ks. unat (overlap (target_of w k))) \<and>
    targets w' = targets w"
  using assms
proof (induction ks arbitrary: w)
  case Nil
  then show ?case by simp
next
  case (Cons k ks)
  have ok: "worker_ok m owns (dist64 env) w" and k: "k < length (targets w)"
    using Cons.prems by (simp_all add: ready_def)
  note t = worker_okD(1) [OF ok]
  from with_target_start [OF t k] obtain off w1 where
    st: "with_target k (get_start_offset (dist64 env) (rel_thread_id (params w))) w = Inr (off, w1)"
      "in_range (target_of w k) off" "targets_ok (dist64 env) w1" "same_setup w w1" "io w1 = io w" "targets w1 = targets w"
    by blast
  have "worker_ok m owns (dist64 env) w1" by (rule worker_ok_cong [OF ok st(3,4,6,5)])
  then have r1: "ready (dist64 env) w1"
    using Cons.prems(1) st same_setupD(1) [OF st(4)] by (simp add: ready_def thread_gid_def)
  have ov1: "overlap (target_of w1 j) = overlap (target_of w j)" if "j < length (targets w)" for j
    by (rule same_setup_overlap [OF st(4) t that])
  let ?n = "unat (overlap (target_of w k))"
  have "in_range (target_of w1 k) off"
    using st(2) same_setup_target(1) [OF st(4) k] t k by (simp add: targets_ok_def)
  from start_ops_ok [OF r1 _ this Cons.prems(3), of "[0..<?n]"] k st(5,6) Cons.prems(4) obtain w2 where
    w2: "start_ops m env k [0..<?n] (off, w1) = Inr (True, w2)" "ready (dist64 env) w2" "same_setup w1 w2"
      "room (io w2) = room (io w) - ?n" "size (queued (io w2)) = size (queued (io w)) + ?n" "targets w2 = targets w"
    by auto
  have s2: "same_setup w w2" by (rule same_setup_trans [OF st(4) w2(3)])
  have ov: "(\<Sum>j \<leftarrow> ks. unat (overlap (target_of w2 j))) = (\<Sum>j \<leftarrow> ks. unat (overlap (target_of w j)))"
    using Cons.prems(2) same_setup_overlap [OF s2 t] by (intro arg_cong [where f = sum_list] map_cong) simp_all
  have "(\<Sum>j \<leftarrow> ks. unat (overlap (target_of w2 j))) \<le> room (io w2)" using ov w2(4) Cons.prems(4) by simp
  then obtain w3 where
    w3: "start_targets m env ks w2 = Inr (True, w3)" "ready (dist64 env) w3" "same_setup w2 w3"
      "size (queued (io w3)) = size (queued (io w2)) + (\<Sum>j \<leftarrow> ks. unat (overlap (target_of w j)))"
      "targets w3 = targets w2"
    using Cons.IH [OF w2(2) _ Cons.prems(3)] Cons.prems(2) w2(6) ov by auto
  have "start_targets m env (k # ks) w = Inr (True, w3)"
    using st(1) w2(1) w3(1) ov1 [OF k] st(6) by (simp add: target_of_def)
  with w3 w2 same_setup_trans [OF s2 w3(3)] show ?case by (intro exI [of _ w3]) simp
qed

end

text \<open>Opening the targets changes neither the counters nor the shared state.\<close>

lemma init_bucketizers_ok:
  assumes "init_bucketizers opt valid res = Inr res'"
  shows "results_ok bs res' = results_ok bs res"
  using assms by (auto simp: init_bucketizers_def bindE_Inr_iff results_ok_def split: if_splits)

lemma setup_target_ok:
  assumes s: "setup_target env opt valid k w = Inr (True, w')" and k: "k < length (targets w)"
    and t: "targets_ok D w" and res: "results_of_ok w"
  shows "targets_ok D w' \<and> results_of_ok w' \<and> same_setup w w' \<and> io w' = io w \<and> job_targets w' = job_targets w"
proof -
  have fd: "open_file env (path (job_targets w ! td_target (targets w ! k)))
      (open_flags (job_targets w ! td_target (targets w ! k))) \<noteq> - 1"
    using s by (auto simp: setup_target_def Let_def bindE_Inr_iff)
  have "\<exists>res' r td'. init_bucketizers opt valid (td_results (targets w ! k)) = Inr res' \<and>
      w' = w\<lparr>th_rng := r, targets := (targets w)[k := td']\<rparr> \<and> td_target td' = td_target (targets w ! k) \<and>
      td_results td' = res'"
    using s fd by (auto simp: setup_target_def Let_def bindE_Inr_iff split del: if_split)
      (rule exI, rule exI, rule conjI, rule refl, simp)
  then obtain res' r td' where i: "init_bucketizers opt valid (td_results (targets w ! k)) = Inr res'"
    and w': "w' = w\<lparr>th_rng := r, targets := (targets w)[k := td']\<rparr>"
    and td': "td_target td' = td_target (targets w ! k)" "td_results td' = res'" by blast
  have td: "td_target (targets w' ! j) = td_target (targets w ! j)" for j
    using k by (cases "j = k") (simp_all add: w' td')
  then have to: "target_of w' j = target_of w j" for j by (simp add: target_of_def w')
  have "results_ok (block_size (target_of w j)) (td_results (targets w' ! j))" if "j < length (targets w)" for j
    using init_bucketizers_ok [OF i] res that by (cases "j = k") (simp_all add: w' td' results_of_ok_def)
  moreover have "targets_ok D w'"
    using t td to by (simp add: targets_ok_def w' offset_inv_def)
  moreover have "map td_target (targets w') = map td_target (targets w)"
    using td by (intro nth_equalityI) (simp_all add: w')
  ultimately show ?thesis using to by (simp add: results_of_ok_def same_setup_def w')
qed

lemma setup_targets_ok:
  assumes "setup_targets env opt valid ks w = Inr (True, w')" and "\<forall>k \<in> set ks. k < length (targets w)"
    and "targets_ok D w" and "results_of_ok w"
  shows "targets_ok D w' \<and> results_of_ok w' \<and> same_setup w w' \<and> io w' = io w \<and> job_targets w' = job_targets w"
  using assms
proof (induction ks arbitrary: w)
  case Nil
  then show ?case by simp
next
  case (Cons k ks)
  from Cons.prems(1) obtain w1 where s: "setup_target env opt valid k w = Inr (True, w1)"
    and r: "setup_targets env opt valid ks w1 = Inr (True, w')"
    by (auto simp: bindE_Inr_iff split: if_splits)
  from setup_target_ok [OF s _ Cons.prems(3,4)] Cons.prems(2) have w1: "targets_ok D w1" "results_of_ok w1"
    "same_setup w w1" "io w1 = io w" "job_targets w1 = job_targets w" by simp_all
  with Cons.IH [OF r _ w1(1,2)] Cons.prems(2) same_setupD(2) [OF w1(3)] same_setup_trans [OF w1(3)]
  show ?case by simp
qed

definition depth :: "('g, 'h, 's) worker \<Rightarrow> nat" where
  "depth w = (\<Sum>k \<leftarrow> [0..<length (targets w)]. unat (overlap (target_of w k)))"

lemma depth_same_setup:
  assumes "same_setup w w'" and "targets_ok D w"
  shows "depth w' = depth w"
proof -
  have "map (\<lambda>k. unat (overlap (target_of w' k))) [0..<length (targets w)] =
      map (\<lambda>k. unat (overlap (target_of w k))) [0..<length (targets w)]"
    using same_setup_overlap [OF assms] by (intro map_cong) simp_all
  with same_setupD(2) [OF assms(1)] show ?thesis unfolding depth_def by argo
qed

text \<open>Making the worker's random engines, and the end of the start.\<close>

lemma worker_fields_ok [simp]:
  "targets_ok D (w\<lparr>th_rng := r\<rparr>) = targets_ok D w" "results_of_ok (w\<lparr>th_rng := r\<rparr>) = results_of_ok w"
  "same_setup (w\<lparr>th_rng := r\<rparr>) w' = same_setup w w'" "same_setup (w\<lparr>rw_rng := r\<rparr>) w' = same_setup w w'"
  "same_setup (w\<lparr>io := s\<rparr>) w' = same_setup w w'" "thread_gid (w\<lparr>th_rng := r\<rparr>) = thread_gid w"
  "thread_gid (w\<lparr>rw_rng := r\<rparr>) = thread_gid w" "thread_gid (w\<lparr>io := s\<rparr>) = thread_gid w"
  by (simp_all add: targets_ok_def offset_inv_def target_of_def results_of_ok_def same_setup_def thread_gid_def)

context async_io_start begin

text \<open>A start that succeeds, up to its submission.\<close>

lemma thread_start_queued:
  assumes f: "fresh (io w0)" and g: "thread_gid w0 = gid" and t: "targets_ok (dist64 env) w0" and res: "results_of_ok w0"
    and now: "time_us env = Inr now" and room: "depth w0 \<le> room (io w0)"
    and st: "thread_start m env opt w0 = Inr (True, w')"
  obtains s1 w1 w2 s2 where "m_create_group m gid (sint (ucast (total_overlap_of w1) :: 32 word)) (io w0) = Inr (True, s1)"
    and "start_targets m env [0..<length (targets w1)] (w1\<lparr>io := s1\<rparr>) = Inr (True, w2)"
    and "m_submit m gid (io w2) = Inr (0, s2)"
    and "w' = w2\<lparr>io := s2, params := (params w2)\<lparr>initialized := True\<rparr>, thread_bytes_count := 0\<rparr>"
    and "thread_gid w1 = gid" and "same_setup w0 w1" and "same_setup w1 w2" and "ready (dist64 env) w2"
    and "size (queued (io w2)) = depth w0" and "depth w2 = depth w0"
proof -
  from st obtain rng rw valid w1 s1 w2 s2 where
    s: "setup_targets env opt valid [0..<length (targets w0)] (w0\<lparr>th_rng := rng, rw_rng := rw\<rparr>) = Inr (True, w1)"
    and c: "m_create_group m (thread_gid w1) (sint (ucast (total_overlap_of w1) :: 32 word)) (io w1) = Inr (True, s1)"
    and a: "start_targets m env [0..<length (targets w1)] (w1\<lparr>io := s1\<rparr>) = Inr (True, w2)"
    and b: "m_submit m (thread_gid w2) (io w2) = Inr (0, s2)"
    and w': "w' = w2\<lparr>io := s2, params := (params w2)\<lparr>initialized := True\<rparr>, thread_bytes_count := 0\<rparr>"
    by (auto simp: thread_start_def Let_def bindE_Inr_iff split: if_splits)
  from setup_targets_ok [OF s, of "dist64 env"] t res have w1: "targets_ok (dist64 env) w1" "results_of_ok w1"
    "same_setup w0 w1" "io w1 = io w0" by simp_all
  have g1: "thread_gid w1 = gid" using same_setupD(1) [OF w1(3)] g by (simp add: thread_gid_def)
  from create_ok [of "io w1"] f c w1(4) g1 have s1: "inv s1" "\<forall>i. \<not> owns s1 i" "queued s1 = {#}" "flying s1 = {#}"
    "room s1 = room (io w0)" by simp_all
  let ?w1 = "w1\<lparr>io := s1\<rparr>"
  have d1: "depth w1 = depth w0" by (rule depth_same_setup [OF w1(3) t])
  have "worker_ok m owns (dist64 env) ?w1"
    using w1(1,2) s1(2) by (simp add: worker_ok_def results_of_ok_def)
  then have "ready (dist64 env) ?w1" using s1 g1 by (simp add: ready_def)
  from start_targets_ok [OF this _ now, of "[0..<length (targets w1)]"] a s1 room d1
  have w2: "ready (dist64 env) w2" "same_setup w1 w2" "size (queued (io w2)) = depth w0"
    by (auto simp: depth_def)
  have "depth w2 = depth w0" using depth_same_setup [OF w2(2) w1(1)] d1 by simp
  moreover have "thread_gid w2 = gid" using w2(1) by (simp add: ready_def)
  ultimately show ?thesis using that [OF _ a _ w' g1 w1(3) w2(2,1,3)] c b w1(4) g1 by simp
qed

lemma thread_start_ok:
  assumes f: "fresh (io w0)" and g: "thread_gid w0 = gid" and t: "targets_ok (dist64 env) w0" and res: "results_of_ok w0"
    and now: "time_us env = Inr now" and room: "depth w0 \<le> room (io w0)"
    and st: "thread_start m env opt w0 = Inr (True, w')"
  shows "running (dist64 env) w' \<and> size (flying (io w')) = depth w0 \<and> depth w' = depth w0 \<and>
    params w' = (params w0)\<lparr>initialized := True\<rparr> \<and> same_setup w0 (w'\<lparr>params := params w0\<rparr>)"
proof -
  obtain s1 w1 w2 s2 where "m_create_group m gid (sint (ucast (total_overlap_of w1) :: 32 word)) (io w0) = Inr (True, s1)"
    and "start_targets m env [0..<length (targets w1)] (w1\<lparr>io := s1\<rparr>) = Inr (True, w2)"
    and b: "m_submit m gid (io w2) = Inr (0, s2)"
    and w': "w' = w2\<lparr>io := s2, params := (params w2)\<lparr>initialized := True\<rparr>, thread_bytes_count := 0\<rparr>"
    and "thread_gid w1 = gid" and w1: "same_setup w0 w1" and w2: "same_setup w1 w2" "ready (dist64 env) w2"
      "size (queued (io w2)) = depth w0" "depth w2 = depth w0"
    by (rule thread_start_queued [OF assms])
  have i2: "inv (io w2)" "flying (io w2) = {#}" "thread_gid w2 = gid" and ok2: "worker_ok m owns (dist64 env) w2"
    using w2(2) by (simp_all add: ready_def)
  from submit_ok [OF i2(1) b] i2 have s2: "inv s2" "owns s2 = owns (io w2)" "queued s2 = {#}"
    "flying s2 = queued (io w2)" by simp_all
  have at: "get_offset m j s2 = get_offset m j (io w2) \<and> get_target_data m j s2 = get_target_data m j (io w2) \<and>
      get_nbytes m j s2 = get_nbytes m j (io w2)" for j
    using submit_keeps [OF i2(1) b] by simp
  have "worker_ok m owns (dist64 env) w'"
    using ok2 s2 at by (simp add: worker_ok_def w' targets_ok_def target_of_def)
  moreover have "depth w' = depth w0" using w2(4) by (simp add: depth_def w' target_of_def)
  moreover have "same_setup w0 (w'\<lparr>params := params w0\<rparr>)"
    using same_setup_trans [OF w1 w2(1)] by (simp add: same_setup_def w')
  ultimately show ?thesis
    using s2 i2(3) w2(3) same_setupD(1) [OF w2(1)] same_setupD(1) [OF w1]
    by (simp add: running_def w' thread_gid_def)
qed

text \<open>A worker from its start to any point of its loop.\<close>

lemma worker_run:
  assumes "fresh (io w0)" and "thread_gid w0 = gid" and "targets_ok (dist64 env) w0" and "results_of_ok w0"
    and "time_us env = Inr now" and "depth w0 \<le> room (io w0)"
    and "thread_start m env opt w0 = Inr (True, w)"
    and "\<forall>x \<in> set xs. rely w (fst x)" and "work_loop m env opt xs w = Inr (out, w')"
  shows "results_of_ok w' \<and> (out = Continue \<longrightarrow> size (flying (io w')) = depth w0 \<and> queued (io w') = {#}) \<and>
    (out \<noteq> Aborted \<longrightarrow> (\<forall>op. owns (io w') op \<longrightarrow> get_target_data m op (io w') < length (targets w') \<and>
      in_range (target_of w' (get_target_data m op (io w'))) (get_offset m op (io w')) \<and>
      get_nbytes m op (io w') = block_size (target_of w' (get_target_data m op (io w')))))"
proof -
  from thread_start_ok [OF assms(1-7)] have "running (dist64 env) w" "size (flying (io w)) = depth w0" by simp_all
  with loop_ok [OF this(1) assms(8,9)] show ?thesis
    by (cases out) (simp_all add: running_def worker_ok_def)
qed

text \<open>The targets are then the ones the worker was given.\<close>

lemma worker_run_areas:
  assumes "fresh (io w0)" and "thread_gid w0 = gid" and "targets_ok (dist64 env) w0" and "results_of_ok w0"
    and "time_us env = Inr now" and "depth w0 \<le> room (io w0)"
    and "thread_start m env opt w0 = Inr (True, w)"
    and "\<forall>x \<in> set xs. rely w (fst x)" and "work_loop m env opt xs w = Inr (out, w')" and "out \<noteq> Aborted"
    and "owns (io w') op"
  shows "get_target_data m op (io w') < length (targets w0) \<and>
    in_range (target_of w0 (get_target_data m op (io w'))) (get_offset m op (io w')) \<and>
    get_nbytes m op (io w') = block_size (target_of w0 (get_target_data m op (io w')))"
proof -
  from thread_start_ok [OF assms(1-7)] have r: "running (dist64 env) w" and s: "same_setup w0 (w\<lparr>params := params w0\<rparr>)"
    by simp_all
  from loop_ok [OF r assms(8,9)] assms(10) have "same_setup w w'" by simp
  with s have s': "same_setup w0 (w'\<lparr>params := params w0\<rparr>)" by (simp add: same_setup_def)
  let ?k = "get_target_data m op (io w')"
  from worker_run [OF assms(1-9)] assms(10,11) have "?k < length (targets w')"
    "in_range (target_of w' ?k) (get_offset m op (io w'))" "get_nbytes m op (io w') = block_size (target_of w' ?k)" by blast+
  moreover from this have k: "?k < length (targets w0)" using same_setupD(2) [OF s'] by simp
  moreover have "target_of (w'\<lparr>params := params w0\<rparr>) ?k = target_of w' ?k" by (simp add: target_of_def)
  ultimately show ?thesis
    using same_setup_target [OF s' k] assms(3) by (simp add: targets_ok_def)
qed

end

section \<open>The files of a worker\<close>

lemma restart_op_targets:
  assumes "restart_op m env t op w = Inr (out, w')"
  shows "targets w' = targets w"
  using assms by (auto simp: restart_op_def with_target_def pick_type_def thread_abort_def Let_def bindE_Inr_iff
      split: if_splits prod.splits)

lemma work_step_fds:
  assumes "work_step m env opt rd w = Inr (out, w')"
  shows "map td_fd (targets w') = map td_fd (targets w)"
  using assms
proof (cases rule: work_step_cases)
  case (finished op s1 w2)
  have "map td_fd (targets w2) = map td_fd (targets w)"
  proof (cases "rd_record rd")
    case False
    with finished(3) show ?thesis by (auto simp: record_results_of_def)
  next
    case True
    let ?k = "get_target_data m op s1"
    from True finished(3) obtain res where
      "targets w2 = (targets w)[?k := (targets w ! ?k)\<lparr>td_results := res\<rparr>]"
      by (auto simp: record_results_of_def Let_def bindE_Inr_iff)
    then show ?thesis by (cases "?k < length (targets w)") (simp_all add: map_update list_update_same_conv list_update_beyond)
  qed
  with restart_op_targets [OF finished(4)] show ?thesis by simp
qed (simp_all add: thread_abort_def)

lemma work_loop_fds:
  assumes "work_loop m env opt xs w = Inr (out, w')"
  shows "map td_fd (targets w') = map td_fd (targets w)"
  using assms
proof (induction xs arbitrary: w)
  case Nil
  then show ?case by simp
next
  case (Cons x xs)
  from Cons.prems obtain o1 w1 where s: "work_step m env opt (snd x) (interfere (fst x) w) = Inr (o1, w1)"
    and l: "(if o1 = Continue then work_loop m env opt xs w1 else Inr (o1, w1)) = Inr (out, w')"
    by (auto simp: bindE_Inr_iff)
  have "map td_fd (targets w1) = map td_fd (targets w)" using work_step_fds [OF s] by (simp add: interfere_def)
  with l Cons.IH show ?case by (auto split: if_splits)
qed

lemma start_op_targets:
  assumes "start_op m env k i (off0, w) = Inr (Some off, w')"
  shows "targets w' = targets w"
  using assms by (auto simp: start_op_def with_target_def pick_type_def Let_def bindE_Inr_iff split: if_splits prod.splits)

lemma start_ops_targets:
  assumes "start_ops m env k is (off0, w) = Inr (True, w')"
  shows "targets w' = targets w"
  using assms
proof (induction "is" arbitrary: off0 w)
  case Nil
  then show ?case by simp
next
  case (Cons i "is")
  from Cons.prems obtain off w1 where a: "start_op m env k i (off0, w) = Inr (Some off, w1)"
    and b: "start_ops m env k is (off, w1) = Inr (True, w')"
    by (auto simp: bindE_Inr_iff split: option.splits)
  from start_op_targets [OF a] Cons.IH [OF b] show ?case by simp
qed

lemma start_targets_targets:
  assumes "start_targets m env ks w = Inr (True, w')"
  shows "targets w' = targets w"
  using assms
proof (induction ks arbitrary: w)
  case Nil
  then show ?case by simp
next
  case (Cons k ks)
  from Cons.prems obtain off w1 w2 where
    a: "with_target k (get_start_offset (dist64 env) (rel_thread_id (params w))) w = Inr (off, w1)"
    and b: "start_ops m env k [0..<unat (overlap (job_targets w ! td_target (targets w ! k)))] (off, w1) = Inr (True, w2)"
    and c: "start_targets m env ks w2 = Inr (True, w')"
    by (auto simp: bindE_Inr_iff split: if_splits)
  have "targets w1 = targets w" using a by (auto simp: with_target_def Let_def bindE_Inr_iff)
  with start_ops_targets [OF b] Cons.IH [OF c] show ?case by simp
qed

definition opened_by :: "('g, 'h) environment \<Rightarrow> ('g, 'h, 's) worker \<Rightarrow> nat \<Rightarrow> int" where
  "opened_by env w k = open_file env (path (target_of w k)) (open_flags (target_of w k))"

lemma setup_target_opens:
  assumes s: "setup_target env opt valid k w = Inr (True, w')" and k: "k < length (targets w)"
  shows "td_fd (targets w' ! k) = opened_by env w k \<and> opened_by env w k \<noteq> - 1 \<and> job_targets w' = job_targets w \<and>
    length (targets w') = length (targets w) \<and> (\<forall>j. td_target (targets w' ! j) = td_target (targets w ! j)) \<and>
    (\<forall>j. j \<noteq> k \<longrightarrow> td_fd (targets w' ! j) = td_fd (targets w ! j))"
proof -
  have fd: "opened_by env w k \<noteq> - 1"
    using s by (auto simp: opened_by_def target_of_def setup_target_def Let_def bindE_Inr_iff)
  have "\<exists>r td'. w' = w\<lparr>th_rng := r, targets := (targets w)[k := td']\<rparr> \<and> td_target td' = td_target (targets w ! k) \<and>
      td_fd td' = opened_by env w k"
    using s fd by (auto simp: opened_by_def target_of_def setup_target_def Let_def bindE_Inr_iff split del: if_split)
      (rule exI, rule exI, rule conjI, rule refl, simp)
  then obtain r td' where w': "w' = w\<lparr>th_rng := r, targets := (targets w)[k := td']\<rparr>"
    and td': "td_target td' = td_target (targets w ! k)" "td_fd td' = opened_by env w k" by blast
  have "td_target (targets w' ! j) = td_target (targets w ! j)" for j
    using k by (cases "j = k") (simp_all add: w' td')
  with fd k td' show ?thesis by (simp add: w')
qed

lemma setup_targets_opens:
  assumes "setup_targets env opt valid ks w = Inr (True, w')" and "\<forall>k \<in> set ks. k < length (targets w)" and "distinct ks"
  shows "(\<forall>k \<in> set ks. td_fd (targets w' ! k) = opened_by env w k \<and> opened_by env w k \<noteq> - 1) \<and>
    (\<forall>k. k \<notin> set ks \<longrightarrow> td_fd (targets w' ! k) = td_fd (targets w ! k)) \<and> length (targets w') = length (targets w)"
  using assms
proof (induction ks arbitrary: w)
  case Nil
  then show ?case by simp
next
  case (Cons k ks)
  from Cons.prems(1) obtain w1 where s: "setup_target env opt valid k w = Inr (True, w1)"
    and r: "setup_targets env opt valid ks w1 = Inr (True, w')"
    by (auto simp: bindE_Inr_iff split: if_splits)
  have k: "k < length (targets w)" using Cons.prems(2) by simp
  note o = setup_target_opens [OF s k]
  have "opened_by env w1 j = opened_by env w j" for j using o by (simp add: opened_by_def target_of_def)
  with Cons.IH [OF r] Cons.prems(2,3) o show ?case by simp
qed

lemma thread_start_fds:
  assumes "thread_start m env opt w0 = Inr (True, w)"
  shows "map td_fd (targets w) = map (opened_by env w0) [0..<length (targets w0)] \<and>
    (\<forall>k < length (targets w0). opened_by env w0 k \<noteq> - 1)"
proof -
  from assms obtain rng rw valid w1 s1 w2 where
    s: "setup_targets env opt valid [0..<length (targets w0)] (w0\<lparr>th_rng := rng, rw_rng := rw\<rparr>) = Inr (True, w1)"
    and a: "start_targets m env [0..<length (targets w1)] (w1\<lparr>io := s1\<rparr>) = Inr (True, w2)"
    and w: "targets w = targets w2"
    by (auto simp: thread_start_def Let_def bindE_Inr_iff split: if_splits)
  have e: "opened_by env (w0\<lparr>th_rng := rng, rw_rng := rw\<rparr>) k = opened_by env w0 k" for k
    by (simp add: opened_by_def target_of_def)
  from setup_targets_opens [OF s] have
    o: "\<forall>k < length (targets w0). td_fd (targets w1 ! k) = opened_by env w0 k \<and> opened_by env w0 k \<noteq> - 1"
    "length (targets w1) = length (targets w0)" by (simp_all add: e)
  have "targets w = targets w1" using start_targets_targets [OF a] w by simp
  then have "map td_fd (targets w) = map (opened_by env w0) [0..<length (targets w0)]"
    using o by (intro nth_equalityI) simp_all
  with o(1) show ?thesis by blast
qed

section \<open>Properties\<close>

text \<open>The recorded operations of one type, and their latencies.\<close>

definition ops_of :: "iop_type \<Rightarrow> (iop_type \<times> int \<times> u64 \<times> u64) list \<Rightarrow> (iop_type \<times> int \<times> u64 \<times> u64) list" where
  "ops_of ty ops = filter (\<lambda>x. fst x = ty) ops"

definition latencies :: "(iop_type \<times> int \<times> u64 \<times> u64) list \<Rightarrow> u64 multiset" where
  "latencies ops = mset (map (\<lambda>(ty, ret, now, start). now - start) ops)"

lemma record_ops_counts:
  assumes "foldE (\<lambda>(ty, ret, now, start) res. record_op opt ty ret now (Inr start) res) ops res = Inr res'"
  shows "iops_count res' = iops_count res + of_nat (length ops) \<and>
    bytes_count res' = bytes_count res + (\<Sum>(ty, ret, now, start) \<leftarrow> ops. word_of_int ret) \<and>
    read_iops_count res' = read_iops_count res + of_nat (length (ops_of READ_IOP ops)) \<and>
    write_iops_count res' = write_iops_count res + of_nat (length (ops_of WRITE_IOP ops))"
  using assms
proof (induction ops arbitrary: res)
  case Nil
  then show ?case by (simp add: ops_of_def)
next
  case (Cons x ops)
  obtain ty ret now start where x: "x = (ty, ret, now, start)" by (cases x) auto
  from Cons.prems x obtain r1 where r: "record_op opt ty ret now (Inr start) res = Inr r1"
    and "foldE (\<lambda>(ty, ret, now, start) res. record_op opt ty ret now (Inr start) res) ops r1 = Inr res'"
    by (auto simp: bindE_Inr_iff)
  from Cons.IH [OF this(2)] record_op_counts [OF r] x show ?case by (cases ty) (simp_all add: ops_of_def)
qed

lemma record_ops_latency:
  assumes "foldE (\<lambda>(ty, ret, now, start) res. record_op opt ty ret now (Inr start) res) ops res = Inr res'"
    and "latency_room (length ops) res" and "measure_latency opt"
  shows "hist_samples (read_latency_histogram res') = latencies (ops_of READ_IOP ops) + hist_samples (read_latency_histogram res) \<and>
    hist_samples (write_latency_histogram res') = latencies (ops_of WRITE_IOP ops) + hist_samples (write_latency_histogram res)"
  using assms
proof (induction ops arbitrary: res)
  case Nil
  then show ?case by (simp add: ops_of_def latencies_def)
next
  case (Cons x ops)
  obtain ty ret now start where x: "x = (ty, ret, now, start)" by (cases x) auto
  from Cons.prems(1) x obtain r1 where r: "record_op opt ty ret now (Inr start) res = Inr r1"
    and f: "foldE (\<lambda>(ty, ret, now, start) res. record_op opt ty ret now (Inr start) res) ops r1 = Inr res'"
    by (auto simp: bindE_Inr_iff)
  from record_op_latency [OF r, of "length ops"] Cons.prems(2,3) have l: "latency_room (length ops) r1"
    "hist_samples (read_latency_histogram r1) =
      (if ty = READ_IOP then {#now - start#} else {#}) + hist_samples (read_latency_histogram res)"
    "hist_samples (write_latency_histogram r1) =
      (if ty = WRITE_IOP then {#now - start#} else {#}) + hist_samples (write_latency_histogram res)" by simp_all
  from Cons.IH [OF f l(1) Cons.prems(3)] show ?case
    by (cases ty) (simp_all add: l(2,3) x ops_of_def latencies_def)
qed

text \<open>
  C10. The results of a target count exactly the operations recorded in it: after any sequence of
  recorded operations the number of operations and bytes, and the numbers of reads and writes and
  their bytes, are those of the sequence, the totals are the sums over reads and writes, and with \<open>-L\<close>
  the two latency histograms hold the latencies of exactly the reads and of exactly the writes.
\<close>

theorem results_count_operations:
  assumes "foldE (\<lambda>(ty, ret, now, start) res. record_op opt ty ret now (Inr start) res) ops TargetResults = Inr res"
    and "\<forall>(ty, ret, now, start) \<in> set ops. word_of_int ret = bs" and "measure_latency opt"
    and "length ops < 2 ^ 32"
  shows "unat (iops_count res) = length ops \<and> bytes_count res = of_nat (length ops) * bs \<and> results_ok bs res \<and>
    unat (read_iops_count res) = length (ops_of READ_IOP ops) \<and>
    read_bytes_count res = of_nat (length (ops_of READ_IOP ops)) * bs \<and>
    unat (write_iops_count res) = length (ops_of WRITE_IOP ops) \<and>
    write_bytes_count res = of_nat (length (ops_of WRITE_IOP ops)) * bs \<and>
    hist_samples (read_latency_histogram res) = latencies (ops_of READ_IOP ops) \<and>
    hist_samples (write_latency_histogram res) = latencies (ops_of WRITE_IOP ops)"
proof -
  have ok: "results_ok bs res"
    by (rule foldE_invariant [OF assms(1), where P = "results_ok bs"])
      (use assms(2) record_op_ok in \<open>auto simp: results_ok_def TargetResults_def\<close>)
  have n: "unat (word_of_nat (length (ops_of ty ops)) :: u64) = length (ops_of ty ops)" for ty
    unfolding ops_of_def by (intro unat_of_nat_u64 le_less_trans [OF length_filter_le]) (use assms(4) in simp)
  have b: "(\<Sum>(ty, ret, now, start) \<leftarrow> ops. word_of_int ret :: u64) = of_nat (length ops) * bs"
    using assms(2) by (induction ops) (auto simp: distrib_right)
  have c: "read_iops_count res = of_nat (length (ops_of READ_IOP ops))" "write_iops_count res = of_nat (length (ops_of WRITE_IOP ops))"
    "unat (iops_count res) = length ops" "bytes_count res = of_nat (length ops) * bs"
    using record_ops_counts [OF assms(1)] b assms(4) by (simp_all add: TargetResults_def unat_of_nat_u64)
  have "latency_room (length ops) TargetResults"
    using assms(4) by (simp add: latency_room_def TargetResults_def)
  from record_ops_latency [OF assms(1) this assms(3)]
  have "hist_samples (read_latency_histogram res) = latencies (ops_of READ_IOP ops)"
    "hist_samples (write_latency_histogram res) = latencies (ops_of WRITE_IOP ops)" by (simp_all add: TargetResults_def)
  with ok c show ?thesis by (simp add: n results_ok_def)
qed

lemma results_count_operations_witness:
  "\<exists>res. foldE (\<lambda>(ty, ret, now, start) res. record_op (JobOptions\<lparr>measure_latency := True\<rparr>) ty ret now (Inr start) res)
      [(READ_IOP, 16, 500, 100), (WRITE_IOP, 16, 600, 550), (READ_IOP, 16, 700, 690)] TargetResults = Inr res \<and>
    unat (iops_count res) = 3 \<and> unat (read_iops_count res) = 2 \<and> unat (write_iops_count res) = 1 \<and>
    hist_samples (read_latency_histogram res) = {#400, 10#} \<and> hist_samples (write_latency_histogram res) = {#50#}"
proof -
  let ?f = "foldE (\<lambda>(ty, ret, now, start) res. record_op (JobOptions\<lparr>measure_latency := True\<rparr>) ty ret now (Inr start) res)
      [(READ_IOP, 16, 500, 100), (WRITE_IOP, 16, 600, 550), (READ_IOP, 16, 700, 690)] TargetResults"
  obtain res where r: "?f = Inr res"
    by (simp add: record_op_def record_read_def record_write_def Let_def JobOptions_def)
  from results_count_operations [OF r, of 16] r show ?thesis by (simp add: JobOptions_def ops_of_def latencies_def)
qed

end
