(* ===== verification/Progress.thy ===== *)
theory Progress
  imports Thread
begin

text \<open>
  Workers make progress: over a device that serves every request and with files that can be opened, a
  worker starts, never faults, aborts or leaves its loop by itself, and counts one operation for every
  round in which results are recorded. The lemmas are proved over the contract \<open>async_io_service\<close> of an engine; \<open>Workers\<close>
  states them for the two engines of the program.
\<close>

unbundle bit_operations_syntax

section \<open>What is recorded\<close>

text \<open>The operations a worker has counted, over all its targets.\<close>

definition ops_done :: "('g, 'h, 's) worker \<Rightarrow> u64" where
  "ops_done w = (\<Sum>td \<leftarrow> targets w. iops_count (td_results td))"

lemma sum_list_map_update:
  fixes f :: "'a \<Rightarrow> 'b::comm_monoid_add"
  assumes "k < length xs" and "f y = f (xs ! k) + d"
  shows "(\<Sum>x \<leftarrow> xs[k := y]. f x) = (\<Sum>x \<leftarrow> xs. f x) + d"
  using assms
proof (induction xs arbitrary: k)
  case Nil
  then show ?case by simp
next
  case (Cons x xs)
  then show ?case by (cases k) (simp_all add: ac_simps)
qed

text \<open>Without \<open>-L\<close> and \<open>-D\<close> recording an operation cannot fail.\<close>

lemma record_op_plain:
  assumes "\<not> measure_latency opt" and "\<not> measure_iops_std_dev opt"
  obtains res' where "record_op opt ty ret t s res = Inr res'"
  using assms by (cases ty) (auto simp: record_op_def record_read_def record_write_def Let_def)

lemma record_results_plain:
  assumes m: "\<not> measure_latency opt" "\<not> measure_iops_std_dev opt"
    and k: "get_target_data m op (io w) < length (targets w)"
  obtains w' where "record_results_of m opt rd op ret w = Inr w'"
    and "ops_done w' = ops_done w + (if rd_record rd then 1 else 0)"
proof (cases "rd_record rd")
  case False
  with that show ?thesis by (simp add: record_results_of_def)
next
  case True
  let ?td = "targets w ! get_target_data m op (io w)"
  from record_op_plain [OF m] obtain res where
    r: "record_op opt (get_type m op (io w)) ret (rd_now_us rd) (get_time m op (io w)) (td_results ?td) = Inr res" .
  then have "iops_count res = iops_count (td_results ?td) + 1" by (rule record_op_counts)
  with k r True show ?thesis
    by (intro that) (auto simp: record_results_of_def Let_def ops_done_def sum_list_map_update [where d = 1])
qed

section \<open>Rounds\<close>

lemma same_setup_throughput:
  assumes "same_setup w w'" and "targets_ok D w" and "k < length (targets w)"
  shows "max_throughput (target_of w' k) = max_throughput (target_of w k)"
  using same_area(3) [OF same_setupD(5) [OF assms(1)]] same_setupD(4) [OF assms(1,3)] assms(2,3)
  by (simp add: target_of_def targets_ok_def)

text \<open>Blocks of less than 2 GB: the result of a larger transfer does not fit the engines' \<open>int\<close>.\<close>

definition blocks_fit :: "('g, 'h, 's) worker \<Rightarrow> bool" where
  "blocks_fit w \<longleftrightarrow> (\<forall>k < length (targets w). block_size (target_of w k) < 2 ^ 31)"

lemma blocks_fit_same:
  assumes "same_setup w w'" and "targets_ok D w" and "blocks_fit w"
  shows "blocks_fit w'"
  using assms same_setup_target(2) [OF assms(1)] same_setupD(2) [OF assms(1)]
  by (simp add: blocks_fit_def targets_ok_def)

lemma ops_done_fields [simp]:
  "ops_done (w\<lparr>io := s\<rparr>) = ops_done w" "ops_done (interfere offs w) = ops_done w"
  by (simp_all add: ops_done_def interfere_def)

context async_io_service begin

lemma restart_progress:
  assumes run: "running (dist64 env) w" and o: "owns (io w) op" and n: "op \<notin># flying (io w)" and sv: "serves (io w)"
  obtains w' where "restart_op m env t op w = Inr (Continue, w')" and "serves (io w')" and "targets w' = targets w"
proof -
  have ok: "worker_ok m owns (dist64 env) w" and i: "inv (io w)" and q: "queued (io w) = {#}"
    and g: "thread_gid w = gid" using run by (simp_all add: running_def)
  obtain off ty w1 s4 where
    sub: "restart_op m env t op w = bindE (m_submit m gid s4) (\<lambda>(err, s5).
      if err \<noteq> 0 then Inr (Aborted, thread_abort (w1\<lparr>io := s5\<rparr>)) else Inr (Continue, w1\<lparr>io := s5\<rparr>))"
    and e: "m_enqueue m op (set_type m op ty (set_offset m op off (set_time m op t (io w)))) = Inr (0, s4)"
    and "in_range (target_of w (get_target_data m op (io w))) off"
    and "targets_ok (dist64 env) w1" "same_setup w w1" and t: "targets w1 = targets w"
    and "thread_bytes_count w1 = thread_bytes_count w" and i4: "inv s4"
    and "owns s4 = owns (io w)" "queued s4 = {#op#}" "flying s4 = flying (io w)"
    by (rule restart_queued [OF ok i q g o n])
  have "serves s4" by (rule enqueue_serves [OF sets_serve [OF sv] e])
  from submit_serves [OF i4 this] obtain s5 where "m_submit m gid s4 = Inr (0, s5)" "serves s5" by blast
  with t that [of "w1\<lparr>io := s5\<rparr>"] show ?thesis by (simp add: sub)
qed

lemma step_progress:
  assumes run: "running (dist64 env) w" and sv: "serves (io w)" and fl: "flying (io w) \<noteq> {#}"
    and b: "blocks_fit w"
    and m: "\<not> measure_latency opt" "\<not> measure_iops_std_dev opt" and on: "rd_run rd" "rd_run_after rd"
  obtains w' where "work_step m env opt rd w = Inr (Continue, w')" and "serves (io w')"
    and "max_throughput (target_of w 0) = 0 \<Longrightarrow> ops_done w' = ops_done w + (if rd_record rd then 1 else 0)"
proof (cases "throttled opt (max_throughput (target_of w 0)) rd (thread_bytes_count w)")
  case True
  with on sv that [of w] show ?thesis by (auto simp: work_step_def target_of_def throttled_def)
next
  case False
  have i: "inv (io w)" and g: "thread_gid w = gid" using run by (simp_all add: running_def)
  from wait_serves [OF i sv fl] obtain op s1 where w: "m_wait m (thread_gid w) (io w) = Inr (op, s1)"
    and s1: "serves s1" "get_errno m op s1 = 0"
      "get_nbytes m op s1 < 2 ^ 31 \<longrightarrow> word_of_int (get_ret m op s1) = get_nbytes m op s1"
    unfolding g by blast
  let ?w1 = "w\<lparr>io := s1\<rparr>"
  from wait_running [OF run w] have run1: "running (dist64 env) ?w1" and n: "op \<notin># flying s1" by simp_all
  have ow: "owns s1 op" using wait_ok [OF i, of op s1] w g by simp
  have ok1: "worker_ok m owns (dist64 env) ?w1" using run1 by (simp add: running_def)
  note d = worker_okD(3,5) [OF ok1, of op]
  have full: "word_of_int (get_ret m op s1) = block_size (target_of ?w1 (get_target_data m op (io ?w1)))"
    using d ow s1(3) b by (simp add: blocks_fit_def)
  from d(1) ow record_results_plain [OF m, where m = m and op = op and w = ?w1 and rd = rd and ret = "get_ret m op s1"]
  obtain w2 where r: "record_results_of m opt rd op (get_ret m op s1) ?w1 = Inr w2"
    "ops_done w2 = ops_done w + (if rd_record rd then 1 else 0)" by auto
  from record_results_of_ok [OF r(1) ok1 _ full] ow have w2: "worker_ok m owns (dist64 env) w2" "same_setup ?w1 w2"
    "io w2 = s1" by simp_all
  have "running (dist64 env) w2"
    using run1 w2 same_setupD(1) [OF w2(2)] by (simp add: running_def thread_gid_def)
  from restart_progress [OF this, of op "rd_now_us rd"] ow n s1(1) w2(3) obtain w' where
    w': "restart_op m env (rd_now_us rd) op w2 = Inr (Continue, w')" "serves (io w')" "targets w' = targets w2" by auto
  have "work_step m env opt rd w = Inr (Continue, w')"
    using False on w s1(2) full r(1) w'(1) by (simp add: work_step_def Let_def target_of_def)
  with w' r(2) that [of w'] show ?thesis by (simp add: ops_done_def)
qed

text \<open>
  The loop, with the flags up: it ends when its inputs do, and without a limit on the throughput it has
  counted the rounds in which results are recorded.
\<close>

lemma loop_progress:
  assumes "running (dist64 env) w" and "serves (io w)" and "flying (io w) \<noteq> {#}" and "0 < length (targets w)"
    and "blocks_fit w" and m: "\<not> measure_latency opt" "\<not> measure_iops_std_dev opt"
    and "\<forall>x \<in> set xs. rely w (fst x) \<and> rd_run (snd x) \<and> rd_run_after (snd x)"
  shows "\<exists>w'. work_loop m env opt xs w = Inr (Continue, w') \<and>
    (max_throughput (target_of w 0) = 0 \<longrightarrow>
      ops_done w' = ops_done w + of_nat (length (filter (\<lambda>x. rd_record (snd x)) xs)))"
  using assms(1-5,8)
proof (induction xs arbitrary: w)
  case Nil
  then show ?case by simp
next
  case (Cons x xs)
  let ?w = "interfere (fst x) w"
  have ok: "worker_ok m owns (dist64 env) w" and rl: "rely w (fst x)" using Cons.prems by (simp_all add: running_def)
  note f = interfere_ok [OF ok rl]
  then have run: "running (dist64 env) ?w" using Cons.prems(1) by (simp add: running_def thread_gid_def)
  have b: "blocks_fit ?w" using blocks_fit_same worker_okD(1) [OF ok] f Cons.prems(5) by blast
  from step_progress [OF run _ _ b m, of "snd x"] f Cons.prems(2,3,6) obtain w1 where
    s: "work_step m env opt (snd x) ?w = Inr (Continue, w1)" "serves (io w1)"
      "max_throughput (target_of ?w 0) = 0 \<Longrightarrow> ops_done w1 = ops_done w + (if rd_record (snd x) then 1 else 0)"
    by auto
  note st = step_ok [OF run s(1)]
  have w1: "running (dist64 env) w1" "same_setup w w1" "flying (io w1) = flying (io w)"
    using st f same_setup_trans [of w ?w w1] by simp_all
  have t: "max_throughput (target_of ?w 0) = max_throughput (target_of w 0)"
    "max_throughput (target_of w1 0) = max_throughput (target_of w 0)"
    using same_setup_throughput worker_okD(1) [OF ok] w1(2) f Cons.prems(4) by blast+
  have "0 < length (targets w1)" "\<forall>y \<in> set xs. rely w1 (fst y) \<and> rd_run (snd y) \<and> rd_run_after (snd y)"
    using Cons.prems(4,6) rely_same_setup [OF w1(2)] same_setupD(2) [OF w1(2)] by simp_all
  moreover have "blocks_fit w1" using blocks_fit_same [OF w1(2) worker_okD(1) [OF ok] Cons.prems(5)] .
  moreover have "flying (io w1) \<noteq> {#}" using w1(3) Cons.prems(3) by simp
  ultimately obtain w' where
    "work_loop m env opt xs w1 = Inr (Continue, w')"
    "max_throughput (target_of w1 0) = 0 \<longrightarrow> ops_done w' = ops_done w1 + of_nat (length (filter (\<lambda>x. rd_record (snd x)) xs))"
    using Cons.IH [OF w1(1) s(2)] by blast
  with s(1,3) t show ?case by auto
qed

end

section \<open>The start\<close>

lemma with_target_io:
  assumes "with_target k f w = Inr (off, w')"
  shows "io w' = io w \<and> params w' = params w"
  using assms by (auto simp: with_target_def Let_def bindE_Inr_iff)

lemma setup_target_io:
  assumes "setup_target env opt valid k w = Inr (True, w')"
  shows "io w' = io w \<and> params w' = params w"
  using assms by (auto simp: setup_target_def Let_def bindE_Inr_iff split: if_splits)

lemma setup_targets_io:
  assumes "setup_targets env opt valid ks w = Inr (True, w')"
  shows "io w' = io w \<and> params w' = params w"
  using assms
proof (induction ks arbitrary: w)
  case Nil
  then show ?case by simp
next
  case (Cons k ks)
  then show ?case by (auto simp: bindE_Inr_iff split: if_splits dest: setup_target_io)
qed

context async_io_service begin

lemma start_op_serves:
  assumes "start_op m env k i (off0, w) = Inr (Some off, w')" and "serves (io w)" and "thread_gid w = gid"
  shows "serves (io w') \<and> thread_gid w' = gid"
proof -
  obtain ty w1 where p: "pick_type (dist32 env) (job_targets w ! td_target (targets w ! k)) w = (ty, w1)" by force
  from pick_type_fields [OF p] obtain r where w1: "w1 = w\<lparr>rw_rng := r\<rparr>" .
  from assms(1) p w1 obtain op s1 e s2 td c rb wb sz now where
    c: "m_construct m ty td c rb wb sz (thread_gid w) k now (io w) = Inr (op, s1)" and e: "m_enqueue m op s1 = Inr (e, s2)"
    and t: "with_target k (get_next_offset (dist64 env) (rel_thread_id (params w)) off0) (w1\<lparr>io := s2\<rparr>) = Inr (off, w')"
    by (auto simp: start_op_def Let_def bindE_Inr_iff split: if_splits)
  have "serves s2" by (rule enqueue_serves [OF construct_serves [OF assms(2) c [unfolded assms(3)]] e])
  with with_target_io [OF t] assms(3) show ?thesis by (simp add: w1 thread_gid_def)
qed

lemma start_ops_serves:
  assumes "start_ops m env k is (off0, w) = Inr (True, w')" and "serves (io w)" and "thread_gid w = gid"
  shows "serves (io w') \<and> thread_gid w' = gid"
  using assms
proof (induction "is" arbitrary: off0 w)
  case Nil
  then show ?case by simp
next
  case (Cons i "is")
  from Cons.prems(1) obtain off w1 where a: "start_op m env k i (off0, w) = Inr (Some off, w1)"
    and b: "start_ops m env k is (off, w1) = Inr (True, w')"
    by (auto simp: bindE_Inr_iff split: option.splits)
  from start_op_serves [OF a Cons.prems(2,3)] Cons.IH [OF b] show ?case by blast
qed

lemma start_targets_serves:
  assumes "start_targets m env ks w = Inr (True, w')" and "serves (io w)" and "thread_gid w = gid"
  shows "serves (io w') \<and> thread_gid w' = gid"
  using assms
proof (induction ks arbitrary: w)
  case Nil
  then show ?case by simp
next
  case (Cons k ks)
  from Cons.prems(1) obtain off w1 w2 where
    a: "with_target k (get_start_offset (dist64 env) (rel_thread_id (params w))) w = Inr (off, w1)"
    and b: "start_ops m env k [0..<unat (overlap (job_targets w ! td_target (targets w ! k)))] (off, w1) = Inr (True, w2)"
    and c: "start_targets m env ks w2 = Inr (True, w')"
    by (auto simp: bindE_Inr_iff split: if_splits)
  from with_target_io [OF a] Cons.prems(2,3) have "serves (io w1)" "thread_gid w1 = gid" by (simp_all add: thread_gid_def)
  from start_ops_serves [OF b this] Cons.IH [OF c] show ?case by blast
qed

lemma thread_start_serves:
  assumes "fresh (io w0)" and "thread_gid w0 = gid" and "targets_ok (dist64 env) w0" and "results_of_ok w0"
    and "time_us env = Inr now" and "depth w0 \<le> room (io w0)"
    and "thread_start m env opt w0 = Inr (True, w')" and sv: "serves (io w0)"
  shows "serves (io w')"
proof -
  obtain s1 w1 w2 s2 where c: "m_create_group m gid (sint (ucast (total_overlap_of w1) :: 32 word)) (io w0) = Inr (True, s1)"
    and a: "start_targets m env [0..<length (targets w1)] (w1\<lparr>io := s1\<rparr>) = Inr (True, w2)"
    and b: "m_submit m gid (io w2) = Inr (0, s2)"
    and w': "w' = w2\<lparr>io := s2, params := (params w2)\<lparr>initialized := True\<rparr>, thread_bytes_count := 0\<rparr>"
    and g1: "thread_gid w1 = gid" and "same_setup w0 w1" and "same_setup w1 w2" and r: "ready (dist64 env) w2"
    and "size (queued (io w2)) = depth w0" "depth w2 = depth w0"
    by (rule thread_start_queued [OF assms(1-7)])
  have "serves (io w2)" using start_targets_serves [OF a] create_serves [OF sv c] g1 by simp
  moreover have "inv (io w2)" using r by (simp add: ready_def)
  ultimately show ?thesis using submit_serves [of "io w2"] b by (simp add: w')
qed

text \<open>A worker that has started with at least one operation goes on as long as the flags let it.\<close>

lemma worker_progress:
  assumes "fresh (io w0)" and "thread_gid w0 = gid" and "targets_ok (dist64 env) w0" and "results_of_ok w0"
    and "time_us env = Inr now" and "depth w0 \<le> room (io w0)" and "0 < depth w0"
    and "thread_start m env opt w0 = Inr (True, w)" and "serves (io w0)" and "blocks_fit w0"
    and "\<not> measure_latency opt" and "\<not> measure_iops_std_dev opt"
    and "\<forall>x \<in> set xs. rely w (fst x) \<and> rd_run (snd x) \<and> rd_run_after (snd x)"
  shows "\<exists>w'. work_loop m env opt xs w = Inr (Continue, w') \<and>
    (max_throughput (target_of w 0) = 0 \<longrightarrow>
      ops_done w' = ops_done w + of_nat (length (filter (\<lambda>x. rd_record (snd x)) xs)))"
proof -
  from thread_start_ok [OF assms(1-6,8)] have r: "running (dist64 env) w" "size (flying (io w)) = depth w0" "depth w = depth w0"
    and st: "same_setup w0 (w\<lparr>params := params w0\<rparr>)" by simp_all
  have "blocks_fit (w\<lparr>params := params w0\<rparr>)" by (rule blocks_fit_same [OF st assms(3,10)])
  then have b: "blocks_fit w" by (simp add: blocks_fit_def target_of_def)
  have "flying (io w) \<noteq> {#}" using r(2) assms(7) by auto
  moreover have "0 < length (targets w)"
  proof (rule ccontr)
    assume "\<not> 0 < length (targets w)"
    then have "depth w = 0" by (simp add: depth_def)
    with r(3) assms(7) show False by simp
  qed
  ultimately show ?thesis
    using loop_progress [OF r(1) thread_start_serves [OF assms(1-6,8,9)] _ _ b assms(11-13)] by blast
qed

end

section \<open>A start that succeeds\<close>

text \<open>An environment in which files can be opened and buffers allocated; \<open>O_DIRECT\<close> buffers need a sector size.\<close>

definition env_ready :: "('g, 'h) environment \<Rightarrow> ('g, 'h, 's) worker \<Rightarrow> bool" where
  "env_ready env w \<longleftrightarrow> (\<forall>n. alloc env n \<noteq> 0) \<and>
    (\<forall>k < length (targets w). opened_by env w k \<noteq> - 1 \<and> buffer_align (target_of w k) \<noteq> 0 \<and>
      buffer_align (target_of w k) AND (buffer_align (target_of w k) - 1) = 0)"

lemma buffer_calloc_returns:
  assumes "\<forall>n. al n \<noteq> 0" and "a \<noteq> 0" and "a AND (a - 1) = 0"
  shows "\<exists>b'. buffer_calloc al n a b = Inr b'"
  using assms by (simp add: buffer_calloc_def new_buffer_def Let_def)

lemma fill_rand_loop_returns: "\<exists>y. fill_rand_loop D is bs r = Inr y"
proof (induction "is" arbitrary: bs r)
  case Nil
  then show ?case by simp
next
  case (Cons i "is")
  have "sint (ucast (256 - 1 :: off_t) :: 32 word) = 255" by simp
  then obtain v r' where "get_rand_offset D 256 r = Inr (v, r')"
    by (simp add: get_rand_offset_def case_prod_unfold Let_def)
  with Cons.IH show ?case by auto
qed

lemma fill_buffer_returns: "\<exists>b' r'. fill_buffer env t b r = Inr (b', r')"
  using fill_rand_loop_returns [of "dist64 env" "[0..<unat (buf_sz b)]" "bytes b" r]
  by (auto simp: fill_buffer_def fill_rand_def)

lemma setup_target_returns:
  assumes e: "env_ready env w" and k: "k < length (targets w)" and d: "\<not> measure_iops_std_dev opt"
  shows "\<exists>w'. setup_target env opt valid k w = Inr (True, w')"
proof -
  let ?td = "targets w ! k" and ?t = "target_of w k"
  have a: "\<forall>n. alloc env n \<noteq> 0" and f: "open_file env (path ?t) (open_flags ?t) \<noteq> - 1"
    and al: "buffer_align ?t \<noteq> 0" "buffer_align ?t AND (buffer_align ?t - 1) = 0"
    using e k by (simp_all add: env_ready_def opened_by_def)
  obtain b0 where b0: "buffer_calloc (alloc env) (ucast (overlap ?t) * block_size ?t) (buffer_align ?t) (td_buffer ?td) = Inr b0"
    using buffer_calloc_returns [OF a al] by blast
  obtain c0 where c0: "buffer_calloc (alloc env) (block_size ?t) (buffer_align ?t) (td_write_buffer ?td) = Inr c0"
    using buffer_calloc_returns [OF a al] by blast
  obtain b r1 where b: "fill_buffer env ?t b0 (th_rng w) = Inr (b, r1)" using fill_buffer_returns by blast
  obtain c r2 where c: "fill_buffer env ?t c0 r1 = Inr (c, r2)" using fill_buffer_returns by blast
  show ?thesis
    using f b0 c0 b c d by (simp add: setup_target_def init_bucketizers_def Let_def target_of_def)
qed

lemma setup_targets_returns:
  assumes "env_ready env w" and "\<forall>k \<in> set ks. k < length (targets w)" and d: "\<not> measure_iops_std_dev opt"
  shows "\<exists>w'. setup_targets env opt valid ks w = Inr (True, w')"
  using assms(1,2)
proof (induction ks arbitrary: w)
  case Nil
  then show ?case by simp
next
  case (Cons k ks)
  have "k < length (targets w)" using Cons.prems(2) by simp
  from setup_target_returns [OF Cons.prems(1) this d] obtain w1 where
    s: "setup_target env opt valid k w = Inr (True, w1)" by blast
  from setup_target_opens [OF s] Cons.prems(2) have o: "job_targets w1 = job_targets w"
    "length (targets w1) = length (targets w)" "\<And>j. td_target (targets w1 ! j) = td_target (targets w ! j)" by auto
  then have "target_of w1 j = target_of w j" for j by (simp add: target_of_def)
  then have "env_ready env w1" using Cons.prems(1) o by (simp add: env_ready_def opened_by_def)
  with Cons.IH [of w1] Cons.prems(2) o s show ?case by auto
qed

context async_io_service begin

lemma thread_start_progress:
  assumes f: "fresh (io w0)" and g: "thread_gid w0 = gid" and t: "targets_ok (dist64 env) w0" and res: "results_of_ok w0"
    and now: "time_us env = Inr now" and room: "depth w0 \<le> room (io w0)" and "0 < length (targets w0)"
    and sv: "serves (io w0)" and e: "env_ready env w0" and d: "\<not> measure_iops_std_dev opt"
    and c: "\<And>n. \<exists>s1. m_create_group m gid n (io w0) = Inr (True, s1)"
  shows "\<exists>w. thread_start m env opt w0 = Inr (True, w)"
proof -
  define rng where "rng = (if use_time_seed opt
      then RngEngine_random (mt64 env) (mt32 env) (fst (random_device env)) (snd (random_device env))
      else RngEngine_seed (mt64 env) (mt32 env) (rand_seed opt))"
  define rw where "rw = RngEngine_random (mt64 env) (mt32 env) (fst (rw_random_device env)) (snd (rw_random_device env))"
  let ?w = "w0\<lparr>th_rng := rng, rw_rng := rw\<rparr>"
  have "env_ready env ?w" using e by (simp add: env_ready_def opened_by_def target_of_def)
  from setup_targets_returns [OF this _ d, of "[0..<length (targets w0)]" 0] obtain w1 where
    s: "setup_targets env opt 0 [0..<length (targets w0)] ?w = Inr (True, w1)" by auto
  from setup_targets_ok [OF s, of "dist64 env"] t res have w1: "targets_ok (dist64 env) w1" "results_of_ok w1"
    "same_setup w0 w1" "io w1 = io w0" by simp_all
  have g1: "thread_gid w1 = gid" using same_setupD(1) [OF w1(3)] g by (simp add: thread_gid_def)
  from c obtain s1 where s1: "m_create_group m gid (sint (ucast (total_overlap_of w1) :: 32 word)) (io w0) = Inr (True, s1)"
    by blast
  from create_ok [OF f s1] have i1: "inv s1" "\<forall>i. \<not> owns s1 i" "queued s1 = {#}" "flying s1 = {#}" "room s1 = room (io w0)"
    by simp_all
  let ?w1 = "w1\<lparr>io := s1\<rparr>"
  have "worker_ok m owns (dist64 env) ?w1" using w1(1,2) i1(2) by (simp add: worker_ok_def results_of_ok_def)
  then have r: "ready (dist64 env) ?w1" using i1 g1 by (simp add: ready_def)
  have d1: "depth w1 = depth w0" by (rule depth_same_setup [OF w1(3) t])
  from start_targets_ok [OF r _ now, of "[0..<length (targets w1)]"] i1 room d1 obtain w2 where
    a: "start_targets m env [0..<length (targets w1)] ?w1 = Inr (True, w2)" "ready (dist64 env) w2" by (auto simp: depth_def)
  have i2: "inv (io w2)" "thread_gid w2 = gid" using a(2) by (simp_all add: ready_def)
  have "serves (io w2)" using start_targets_serves [OF a(1)] create_serves [OF sv s1] g1 by simp
  from submit_serves [OF i2(1) this] obtain s2 where "m_submit m gid (io w2) = Inr (0, s2)" by blast
  moreover have "targets w1 \<noteq> []" using same_setupD(2) [OF w1(3)] assms(7) by auto
  ultimately show ?thesis
    using s s1 a(1) g1 i2(2) w1(4) d by (simp add: thread_start_def valid_buckets_def Let_def rng_def rw_def)
qed

lemma thread_progress:
  assumes "fresh (io w0)" and "thread_gid w0 = gid" and "targets_ok (dist64 env) w0" and "results_of_ok w0"
    and "time_us env = Inr now" and "depth w0 \<le> room (io w0)" and "0 < depth w0"
    and "serves (io w0)" and "\<And>n. \<exists>s1. m_create_group m gid n (io w0) = Inr (True, s1)"
    and "env_ready env w0" and "blocks_fit w0" and "\<not> measure_latency opt" and "\<not> measure_iops_std_dev opt"
    and "\<forall>x \<in> set xs. rely w0 (fst x) \<and> rd_run (snd x) \<and> rd_run_after (snd x)"
  shows "\<exists>w w'. thread_start m env opt w0 = Inr (True, w) \<and> work_loop m env opt xs w = Inr (Continue, w') \<and>
    (max_throughput (target_of w0 0) = 0 \<longrightarrow>
      ops_done w' = ops_done w + of_nat (length (filter (\<lambda>x. rd_record (snd x)) xs)))"
proof -
  have l: "0 < length (targets w0)"
  proof (rule ccontr)
    assume "\<not> 0 < length (targets w0)"
    then have "depth w0 = 0" by (simp add: depth_def)
    with assms(7) show False by simp
  qed
  from thread_start_progress [OF assms(1-6) l assms(8,10,13,9)] obtain w where
    s: "thread_start m env opt w0 = Inr (True, w)" by blast
  from thread_start_ok [OF assms(1-6) s] have st: "same_setup w0 (w\<lparr>params := params w0\<rparr>)" by simp
  have "rely (w\<lparr>params := params w0\<rparr>) offs = rely w0 offs" for offs by (rule rely_same_setup [OF st])
  then have "rely w offs = rely w0 offs" for offs by (simp add: rely_def)
  then have r: "\<forall>x \<in> set xs. rely w (fst x) \<and> rd_run (snd x) \<and> rd_run_after (snd x)" using assms(14) by simp
  have "max_throughput (target_of w 0) = max_throughput (target_of w0 0)"
    using same_setup_throughput [OF st assms(3) l] by (simp add: target_of_def)
  with worker_progress [OF assms(1-7) s assms(8,11-13) r] s show ?thesis by auto
qed

end

end
