(* ===== verification/Kernel_AIO.thy ===== *)
theory Kernel_AIO
  imports Async_IO
begin

text \<open>
  The engine over Linux kernel AIO (\<open>src/src/kernel_aio.h\<close>, \<open>src/src/kernel_aio.cc\<close>): its
  operations and groups, the arrays of control blocks it allocates for the kernel, and the
  methods of \<open>_KernelAsyncIOManager\<close>. libaio is a parameter, the record \<open>libaio\<close> over a
  kernel state. The locale \<open>async_io\<close> is interpreted on the engine at the end.
\<close>

section \<open>Data\<close>

record iocb =
  cb_data :: u64
  aio_fildes :: int
  aio_lio_opcode :: iop_type
  c_buf :: u64
  c_nbytes :: size_t
  c_offset :: off_t

text \<open>An operation; its time is indeterminate until it is set.\<close>

record kernel_iop =
  k_type :: iop_type
  k_group_id :: int
  cb :: iocb
  k_err :: int
  k_result :: int
  k_cb_array :: "nat option"
  k_target_data :: nat
  k_time :: "u64 option"
  k_read_buf :: u64
  k_write_buf :: u64

text \<open>An array of pointers to control blocks, by the operations they belong to.\<close>

record cb_array =
  ca_size :: size_t
  ca_items :: "nat list"
  items_left :: size_t
  freed :: bool

record kernel_group =
  ctx :: u64
  op_queue :: "nat list"
  arrays :: "nat set"
  in_flight :: "u64 \<Rightarrow> nat option"
  next_flight :: u64

record 'k kernel_state =
  k_started :: bool
  k_groups :: "int \<Rightarrow> kernel_group option"
  k_locked :: bool
  k_ops :: "kernel_iop list"
  k_arrays :: "cb_array list"
  k_kernel :: 'k

text \<open>libaio: the error code (and context or event) and the new state of the kernel.\<close>

record 'k libaio =
  io_queue_init :: "int \<Rightarrow> 'k \<Rightarrow> int \<times> u64 \<times> 'k"
  io_submit :: "u64 \<Rightarrow> iocb list \<Rightarrow> 'k \<Rightarrow> int \<times> 'k"
  io_cancel :: "u64 \<Rightarrow> iocb \<Rightarrow> 'k \<Rightarrow> 'k"
  io_getevents :: "u64 \<Rightarrow> 'k \<Rightarrow> (int \<times> u64 \<times> int) \<times> 'k"

definition KernelAsyncIOManager :: "'k \<Rightarrow> 'k kernel_state" where
  "KernelAsyncIOManager k = \<lparr>k_started = False, k_groups = (\<lambda>_. None), k_locked = False, k_ops = [],
     k_arrays = [], k_kernel = k\<rparr>"

section \<open>Operations\<close>

definition KernelAsyncIop ::
  "iop_type \<Rightarrow> int \<Rightarrow> off_t \<Rightarrow> u64 \<Rightarrow> u64 \<Rightarrow> size_t \<Rightarrow> int \<Rightarrow> nat \<Rightarrow> u64 \<Rightarrow> kernel_iop" where
  "KernelAsyncIop t fd off rbuf wbuf nbytes gid tdata time_stamp =
    \<lparr>k_type = t, k_group_id = gid,
     cb = (if t = READ_IOP
       then \<lparr>cb_data = 0, aio_fildes = fd, aio_lio_opcode = READ_IOP, c_buf = rbuf, c_nbytes = nbytes, c_offset = off\<rparr>
       else \<lparr>cb_data = 0, aio_fildes = fd, aio_lio_opcode = WRITE_IOP, c_buf = wbuf, c_nbytes = nbytes, c_offset = off\<rparr>),
     k_err = 0, k_result = 0, k_cb_array = None, k_target_data = tdata, k_time = None,
     k_read_buf = rbuf, k_write_buf = wbuf\<rparr>"

definition update_op :: "nat \<Rightarrow> (kernel_iop \<Rightarrow> kernel_iop) \<Rightarrow> 'k kernel_state \<Rightarrow> 'k kernel_state" where
  "update_op i f s = (if i < length (k_ops s) then s\<lparr>k_ops := (k_ops s)[i := f (k_ops s ! i)]\<rparr> else s)"

definition k_set_type :: "iop_type \<Rightarrow> kernel_iop \<Rightarrow> kernel_iop" where
  "k_set_type t a = a\<lparr>k_type := t, cb := (cb a)\<lparr>aio_lio_opcode := t,
     c_buf := if t = READ_IOP then k_read_buf a else k_write_buf a\<rparr>\<rparr>"

definition k_set_offset :: "off_t \<Rightarrow> kernel_iop \<Rightarrow> kernel_iop" where
  "k_set_offset off a = a\<lparr>cb := (cb a)\<lparr>c_offset := off\<rparr>\<rparr>"

definition k_set_fd :: "int \<Rightarrow> kernel_iop \<Rightarrow> kernel_iop" where
  "k_set_fd fd a = a\<lparr>cb := (cb a)\<lparr>aio_fildes := fd\<rparr>\<rparr>"

definition k_set_nbytes :: "size_t \<Rightarrow> kernel_iop \<Rightarrow> kernel_iop" where
  "k_set_nbytes n a = a\<lparr>cb := (cb a)\<lparr>c_nbytes := n\<rparr>\<rparr>"

definition k_set_group_id :: "int \<Rightarrow> kernel_iop \<Rightarrow> kernel_iop" where
  "k_set_group_id gid a = a\<lparr>k_group_id := gid\<rparr>"

definition k_set_target_data :: "nat \<Rightarrow> kernel_iop \<Rightarrow> kernel_iop" where
  "k_set_target_data td a = a\<lparr>k_target_data := td\<rparr>"

definition k_set_time :: "u64 \<Rightarrow> kernel_iop \<Rightarrow> kernel_iop" where
  "k_set_time t a = a\<lparr>k_time := Some t\<rparr>"

definition k_get_time :: "kernel_iop \<Rightarrow> fault + u64" where
  "k_get_time a = (case k_time a of None \<Rightarrow> Inl Undefined | Some t \<Rightarrow> Inr t)"

section \<open>The manager\<close>

definition kernel_start :: "int \<Rightarrow> 'k kernel_state \<Rightarrow> fault + bool \<times> 'k kernel_state" where
  "kernel_start n s = Inr (True, s\<lparr>k_started := True\<rparr>)"

text \<open>Both early returns leave \<open>groups_mutex\<close> locked.\<close>

definition kernel_create_group ::
  "'k libaio \<Rightarrow> int \<Rightarrow> int \<Rightarrow> 'k kernel_state \<Rightarrow> fault + bool \<times> 'k kernel_state" where
  "kernel_create_group lib gid n s =
    (if k_locked s then Inl Deadlock
     else
       let s1 = s\<lparr>k_locked := True\<rparr>
       in if k_groups s gid \<noteq> None then Inr (False, s1)
          else
            let (err, c, k) = io_queue_init lib n (k_kernel s);
                g = \<lparr>ctx = c, op_queue = [], arrays = {}, in_flight = (\<lambda>_. None), next_flight = 0\<rparr>;
                s2 = s1\<lparr>k_groups := (k_groups s)(gid \<mapsto> g), k_kernel := k\<rparr>
            in if err \<noteq> 0 then Inr (False, s2)
               else if c = 0 then Inl Assert_Failed
               else Inr (True, s2\<lparr>k_locked := False\<rparr>))"

definition kernel_construct ::
  "iop_type \<Rightarrow> int \<Rightarrow> off_t \<Rightarrow> u64 \<Rightarrow> u64 \<Rightarrow> size_t \<Rightarrow> int \<Rightarrow> nat \<Rightarrow> u64 \<Rightarrow> 'k kernel_state
    \<Rightarrow> fault + nat \<times> 'k kernel_state" where
  "kernel_construct t fd off rbuf wbuf nbytes gid tdata time_stamp s =
    (if \<not> k_started s then Inl Assert_Failed
     else Inr (length (k_ops s),
       s\<lparr>k_ops := k_ops s @ [KernelAsyncIop t fd off rbuf wbuf nbytes gid tdata time_stamp]\<rparr>))"

text \<open>The lookup of a group under the mutex; a group that does not exist is a null pointer.\<close>

definition get_group :: "int \<Rightarrow> 'k kernel_state \<Rightarrow> fault + kernel_group" where
  "get_group gid s =
    (if \<not> k_started s then Inl Assert_Failed
     else if k_locked s then Inl Deadlock
     else (case k_groups s gid of None \<Rightarrow> Inl Undefined | Some g \<Rightarrow> Inr g))"

definition kernel_enqueue :: "nat \<Rightarrow> 'k kernel_state \<Rightarrow> fault + int \<times> 'k kernel_state" where
  "kernel_enqueue i s =
    (if i \<ge> length (k_ops s) then Inl Undefined
     else
       let gid = k_group_id (k_ops s ! i)
       in bindE (get_group gid s)
            (\<lambda>g. Inr (0, s\<lparr>k_groups := (k_groups s)(gid \<mapsto> g\<lparr>op_queue := op_queue g @ [i]\<rparr>)\<rparr>)))"

text \<open>The body of the loop of \<open>submit\<close>: the operation gets the array and a fresh id.\<close>

definition submit_step ::
  "nat \<Rightarrow> nat \<Rightarrow> kernel_iop list \<times> kernel_group \<Rightarrow> fault + kernel_iop list \<times> kernel_group" where
  "submit_step aid i = (\<lambda>(ops, g).
    if i \<ge> length ops then Inl Undefined
    else (case free_id (in_flight g) (next_flight g) of
        None \<Rightarrow> Inl Diverges
      | Some f \<Rightarrow>
          let a = ops ! i
          in Inr (ops[i := a\<lparr>k_cb_array := Some aid, cb := (cb a)\<lparr>cb_data := f\<rparr>\<rparr>],
               g\<lparr>in_flight := (in_flight g)(f \<mapsto> i), next_flight := f + 1\<rparr>)))"

text \<open>
  The result of \<open>io_submit\<close> is compared with the size as unsigned 64-bit numbers. On failure
  every operation is cancelled and its id released, the array is freed, and the queue is kept.
\<close>

definition kernel_submit :: "'k libaio \<Rightarrow> int \<Rightarrow> 'k kernel_state \<Rightarrow> fault + int \<times> 'k kernel_state" where
  "kernel_submit lib gid s =
    bindE (get_group gid s) (\<lambda>g.
      let aid = length (k_arrays s); q = op_queue g
      in bindE (foldE (submit_step aid) q (k_ops s, g)) (\<lambda>(ops, g1).
        let (err, k1) = io_submit lib (ctx g1) (map (\<lambda>i. cb (ops ! i)) q) (k_kernel s);
            n = word_of_nat (length q);
            arr = \<lparr>ca_size = n, ca_items = q, items_left = n, freed = False\<rparr>
        in if word_of_int err \<noteq> n then
             let k2 = fold (\<lambda>i. io_cancel lib (ctx g1) (cb (ops ! i))) q k1;
                 m2 = fold (\<lambda>i m. m(cb_data (cb (ops ! i)) := None)) q (in_flight g1)
             in Inr (err, s\<lparr>k_ops := ops, k_kernel := k2, k_arrays := k_arrays s @ [arr\<lparr>freed := True\<rparr>],
                  k_groups := (k_groups s)(gid \<mapsto> g1\<lparr>in_flight := m2, arrays := arrays g1 - {aid}\<rparr>)\<rparr>)
           else Inr (0, s\<lparr>k_ops := ops, k_kernel := k1, k_arrays := k_arrays s @ [arr],
                  k_groups := (k_groups s)(gid \<mapsto> g1\<lparr>op_queue := []\<rparr>)\<rparr>)))"

text \<open>The release of one item of an array, which frees the array with its last item.\<close>

definition release_item :: "nat \<Rightarrow> cb_array list \<Rightarrow> fault + cb_array list" where
  "release_item aid as =
    (let arr = (as ! aid)\<lparr>items_left := items_left (as ! aid) - 1\<rparr>
     in if items_left arr = 0 then
          (if freed arr then Inl Undefined else Inr (as[aid := arr\<lparr>freed := True\<rparr>]))
        else Inr (as[aid := arr]))"

definition kernel_wait :: "'k libaio \<Rightarrow> int \<Rightarrow> 'k kernel_state \<Rightarrow> fault + nat \<times> 'k kernel_state" where
  "kernel_wait lib gid s =
    bindE (get_group gid s) (\<lambda>g.
      let ((err, event_data, event_res), k1) = io_getevents lib (ctx g) (k_kernel s)
      in if err \<noteq> 1 then Inl Exit_Failure
         else (case in_flight g event_data of
             None \<Rightarrow> Inl Undefined
           | Some i \<Rightarrow>
               (case k_cb_array (k_ops s ! i) of
                  None \<Rightarrow> Inl Undefined
                | Some aid \<Rightarrow>
                    bindE (release_item aid (k_arrays s)) (\<lambda>as.
                      let g1 = g\<lparr>in_flight := (in_flight g)(event_data := None),
                            arrays := (if freed (as ! aid) then arrays g - {aid} else arrays g)\<rparr>
                      in Inr (i, s\<lparr>k_kernel := k1, k_arrays := as, k_groups := (k_groups s)(gid \<mapsto> g1),
                           k_ops := (k_ops s)[i := (k_ops s ! i)\<lparr>k_result := as_int event_res\<rparr>]\<rparr>)))))"

definition kernel_manager :: "'k libaio \<Rightarrow> 'k kernel_state io_manager" where
  "kernel_manager lib = \<lparr>
     m_start = kernel_start, m_create_group = kernel_create_group lib, m_construct = kernel_construct,
     m_enqueue = kernel_enqueue, m_submit = kernel_submit lib, m_wait = kernel_wait lib,
     get_type = (\<lambda>i s. k_type (k_ops s ! i)), set_type = (\<lambda>i t. update_op i (k_set_type t)),
     get_fd = (\<lambda>i s. aio_fildes (cb (k_ops s ! i))), set_fd = (\<lambda>i fd. update_op i (k_set_fd fd)),
     get_offset = (\<lambda>i s. c_offset (cb (k_ops s ! i))), set_offset = (\<lambda>i off. update_op i (k_set_offset off)),
     get_nbytes = (\<lambda>i s. c_nbytes (cb (k_ops s ! i))), set_nbytes = (\<lambda>i n. update_op i (k_set_nbytes n)),
     get_group_id = (\<lambda>i s. k_group_id (k_ops s ! i)), set_group_id = (\<lambda>i gid. update_op i (k_set_group_id gid)),
     get_time = (\<lambda>i s. k_get_time (k_ops s ! i)), set_time = (\<lambda>i t. update_op i (k_set_time t)),
     get_target_data = (\<lambda>i s. k_target_data (k_ops s ! i)),
     set_target_data = (\<lambda>i td. update_op i (k_set_target_data td)),
     get_ret = (\<lambda>i s. k_result (k_ops s ! i)), get_errno = (\<lambda>i s. k_err (k_ops s ! i))\<rparr>"

section \<open>What the engine relies on\<close>

text \<open>
  The documented behaviour of libaio, with \<open>pending k c\<close> the data words of the requests
  submitted to the context \<open>c\<close> and not yet returned: a submission that reports all its
  control blocks has queued them all, it reports 0 only for no control blocks, and an event returned is one of the pending ones.
\<close>

definition libaio_ok :: "'k libaio \<Rightarrow> ('k \<Rightarrow> u64 \<Rightarrow> u64 multiset) \<Rightarrow> bool" where
  "libaio_ok lib pending \<longleftrightarrow>
    (\<forall>c cbs k err k'. io_submit lib c cbs k = (err, k') \<longrightarrow> word_of_int err = (word_of_nat (length cbs) :: u64) \<longrightarrow>
       pending k' c = pending k c + mset (map cb_data cbs)) \<and>
    (\<forall>c cbs k k'. io_submit lib c cbs k = (0, k') \<longrightarrow> cbs = []) \<and>
    (\<forall>c k d res k'. io_getevents lib c k = ((1, d, res), k') \<longrightarrow>
       d \<in># pending k c \<and> pending k' c = pending k c - {#d#})"

section \<open>The invariant\<close>

text \<open>The ids in flight whose operation was last submitted in the array \<open>aid\<close>.\<close>

definition items_of :: "nat \<Rightarrow> kernel_iop list \<Rightarrow> (u64 \<Rightarrow> nat option) \<Rightarrow> u64 set" where
  "items_of aid ops m = {f. \<exists>i. m f = Some i \<and> k_cb_array (ops ! i) = Some aid}"

definition flight_ok :: "kernel_iop list \<Rightarrow> (u64 \<Rightarrow> nat option) \<Rightarrow> bool" where
  "flight_ok ops m \<longleftrightarrow> inj_on m (dom m) \<and> (\<forall>i \<in> ran m. i < length ops) \<and> length ops < 2 ^ 63"

definition arrays_ok :: "kernel_iop list \<Rightarrow> (u64 \<Rightarrow> nat option) \<Rightarrow> cb_array list \<Rightarrow> bool" where
  "arrays_ok ops m as \<longleftrightarrow> (\<forall>f i. m f = Some i \<longrightarrow> (\<exists>aid < length as. k_cb_array (ops ! i) = Some aid \<and>
     \<not> freed (as ! aid) \<and> unat (items_left (as ! aid)) = card (items_of aid ops m)))"

definition kernel_inv :: "'k libaio \<Rightarrow> ('k \<Rightarrow> u64 \<Rightarrow> u64 multiset) \<Rightarrow> int \<Rightarrow> 'k kernel_state \<Rightarrow> bool" where
  "kernel_inv lib pending gid s \<longleftrightarrow> libaio_ok lib pending \<and> k_started s \<and> \<not> k_locked s \<and>
    (\<exists>g. k_groups s gid = Some g \<and> distinct (op_queue g) \<and> set (op_queue g) \<inter> ran (in_flight g) = {} \<and>
      (\<forall>i \<in> set (op_queue g) \<union> ran (in_flight g). i < length (k_ops s) \<and> k_group_id (k_ops s ! i) = gid) \<and>
      flight_ok (k_ops s) (in_flight g) \<and> arrays_ok (k_ops s) (in_flight g) (k_arrays s) \<and>
      pending (k_kernel s) (ctx g) = mset_set (dom (in_flight g)))"

definition kernel_owns :: "int \<Rightarrow> 'k kernel_state \<Rightarrow> nat \<Rightarrow> bool" where
  "kernel_owns gid s i \<longleftrightarrow> i < length (k_ops s) \<and> k_group_id (k_ops s ! i) = gid"

definition kernel_queued :: "int \<Rightarrow> 'k kernel_state \<Rightarrow> nat multiset" where
  "kernel_queued gid s = (case k_groups s gid of None \<Rightarrow> {#} | Some g \<Rightarrow> mset (op_queue g))"

definition kernel_flying :: "int \<Rightarrow> 'k kernel_state \<Rightarrow> nat multiset" where
  "kernel_flying gid s = (case k_groups s gid of None \<Rightarrow> {#} | Some g \<Rightarrow> mset_set (ran (in_flight g)))"

lemma finite_dom_u64 [simp]: "finite (dom (m :: u64 \<Rightarrow> 'o option))"
  by simp

lemma finite_ran_u64 [simp]: "finite (ran (m :: u64 \<Rightarrow> 'o option))"
  by (simp add: finite_ran)

lemma ran_eq_image: "ran m = (\<lambda>f. the (m f)) ` dom m"
  by (force simp: ran_def dom_def)

lemma flight_ok_card:
  assumes "flight_ok ops m"
  shows "card (dom m) < 2 ^ 63"
proof -
  have "inj_on (\<lambda>f. the (m f)) (dom m)"
    using assms by (auto simp: flight_ok_def inj_on_def dom_def)
  then have "card (dom m) = card (ran m)" by (simp add: ran_eq_image card_image)
  also have "\<dots> \<le> card {..<length ops}"
    using assms by (intro card_mono) (auto simp: flight_ok_def)
  also have "\<dots> < 2 ^ 63" using assms by (simp add: flight_ok_def)
  finally show ?thesis .
qed

section \<open>Submission\<close>

text \<open>What a run of \<open>submit_step\<close> over the queue \<open>q\<close> makes of the heap and the group.\<close>

definition submitted ::
  "nat \<Rightarrow> nat list \<Rightarrow> kernel_iop list \<times> kernel_group \<Rightarrow> kernel_iop list \<times> kernel_group \<Rightarrow> bool" where
  "submitted aid q = (\<lambda>(ops, g) (ops', g').
    length ops' = length ops \<and> ctx g' = ctx g \<and> op_queue g' = op_queue g \<and> arrays g' = arrays g \<and>
    (\<forall>i. i \<notin> set q \<longrightarrow> ops' ! i = ops ! i) \<and>
    (\<forall>i \<in> set q. k_cb_array (ops' ! i) = Some aid \<and> k_group_id (ops' ! i) = k_group_id (ops ! i) \<and>
       in_flight g' (cb_data (cb (ops' ! i))) = Some i) \<and>
    (\<forall>f i. in_flight g' f = Some i \<longleftrightarrow> in_flight g f = Some i \<or> i \<in> set q \<and> f = cb_data (cb (ops' ! i))) \<and>
    mset_set (dom (in_flight g')) = mset_set (dom (in_flight g)) + mset (map (\<lambda>i. cb_data (cb (ops' ! i))) q))"

lemma submit_steps:
  assumes "distinct q" and "set q \<inter> ran (in_flight g) = {}" and "\<forall>i \<in> set q. i < length ops"
    and "flight_ok ops (in_flight g)"
  shows "\<exists>r. foldE (submit_step aid) q (ops, g) = Inr r \<and> submitted aid q (ops, g) r"
  using assms
proof (induction q arbitrary: ops g)
  case Nil
  then show ?case by (auto simp: submitted_def)
next
  case (Cons i q)
  let ?m = "in_flight g"
  have "card (dom ?m) < 2 ^ LENGTH(64)" using flight_ok_card [OF Cons.prems(4)] by simp
  from free_id_ends [OF this, of "next_flight g"] obtain f where
    f: "free_id ?m (next_flight g) = Some f" "?m f = None" by blast
  let ?ops = "ops[i := (ops ! i)\<lparr>k_cb_array := Some aid, cb := (cb (ops ! i))\<lparr>cb_data := f\<rparr>\<rparr>]"
  let ?g = "g\<lparr>in_flight := ?m(f \<mapsto> i), next_flight := f + 1\<rparr>"
  have i: "i < length ops" "i \<notin> ran ?m" "i \<notin> set q" using Cons.prems by auto
  have step: "submit_step aid i (ops, g) = Inr (?ops, ?g)"
    using i f by (simp add: submit_step_def Let_def)
  have ran: "ran (in_flight ?g) = insert i (ran ?m)" using f(2) by (simp add: ran_map_upd)
  have inj: "inj_on (?m(f \<mapsto> i)) (dom (?m(f \<mapsto> i)))"
    using Cons.prems(4) i(2) by (auto simp: flight_ok_def inj_on_def dom_def ran_def)
  have "flight_ok ?ops (in_flight ?g)"
    using Cons.prems(4) i(1) inj by (simp add: flight_ok_def ran [simplified])
  moreover have "distinct q" "set q \<inter> ran (in_flight ?g) = {}" "\<forall>j \<in> set q. j < length ?ops"
    using Cons.prems(1-3) i(3) unfolding ran by auto
  ultimately obtain r where "foldE (submit_step aid) q (?ops, ?g) = Inr r" "submitted aid q (?ops, ?g) r"
    using Cons.IH [of ?g ?ops] by blast
  then obtain ops' g' where
    r: "foldE (submit_step aid) q (?ops, ?g) = Inr (ops', g')" "submitted aid q (?ops, ?g) (ops', g')"
    by (cases r) blast
  have dm: "mset_set (dom (?m(f \<mapsto> i))) = add_mset f (mset_set (dom ?m))"
    using f(2) by (simp add: domIff)
  have oi: "ops' ! i = ?ops ! i" using r(2) i(3) by (simp add: submitted_def)
  have len: "length ops' = length ops" using r(2) by (simp add: submitted_def)
  have fl: "in_flight g' f' = Some j \<longleftrightarrow> in_flight g f' = Some j \<or> j \<in> set (i # q) \<and> f' = cb_data (cb (ops' ! j))"
    for f' j
  proof -
    have "in_flight g' f' = Some j \<longleftrightarrow> (?m(f \<mapsto> i)) f' = Some j \<or> j \<in> set q \<and> f' = cb_data (cb (ops' ! j))"
      using r(2) by (simp add: submitted_def)
    then show ?thesis using oi i f(2) by auto
  qed
  have "submitted aid (i # q) (ops, g) (ops', g')"
    unfolding submitted_def prod.case
  proof (intro conjI allI impI ballI)
    fix j assume "j \<notin> set (i # q)"
    then show "ops' ! j = ops ! j" using r(2) by (simp add: submitted_def)
  next
    fix j assume j: "j \<in> set (i # q)"
    show "k_cb_array (ops' ! j) = Some aid" using r(2) oi i j by (cases "j = i") (simp_all add: submitted_def)
    show "k_group_id (ops' ! j) = k_group_id (ops ! j)"
      using r(2) oi i j by (cases "j = i") (simp_all add: submitted_def)
    show "in_flight g' (cb_data (cb (ops' ! j))) = Some j" using fl j by blast
  next
    show "mset_set (dom (in_flight g')) = mset_set (dom (in_flight g)) +
        mset (map (\<lambda>i. cb_data (cb (ops' ! i))) (i # q))"
      using r(2) oi i dm by (simp add: submitted_def)
  qed (use r(2) fl in \<open>simp_all add: submitted_def\<close>)
  with r(1) step show ?case by auto
qed

lemma submitted_ran:
  assumes "submitted aid q (ops, g) (ops', g')"
  shows "ran (in_flight g') = ran (in_flight g) \<union> set q"
  using assms by (auto simp: submitted_def ran_def)

lemma submitted_flight_ok:
  assumes "submitted aid q (ops, g) (ops', g')" and "set q \<inter> ran (in_flight g) = {}"
    and "\<forall>i \<in> set q. i < length ops" and "flight_ok ops (in_flight g)"
  shows "flight_ok ops' (in_flight g')"
proof -
  have fl: "in_flight g' f = Some i \<longleftrightarrow> in_flight g f = Some i \<or> i \<in> set q \<and> f = cb_data (cb (ops' ! i))" for f i
    using assms(1) by (simp add: submitted_def)
  have "f = f'" if "in_flight g' f = Some i" "in_flight g' f' = Some i" for f f' i
  proof (cases "i \<in> set q")
    case True
    with assms(2) have "in_flight g f \<noteq> Some i" "in_flight g f' \<noteq> Some i" by (auto simp: ran_def)
    with that fl show ?thesis by blast
  next
    case False
    with that fl have "in_flight g f = Some i" "in_flight g f' = Some i" by blast+
    with assms(4) show ?thesis by (auto simp: flight_ok_def inj_on_def dom_def)
  qed
  then have "inj_on (in_flight g') (dom (in_flight g'))" by (auto simp: inj_on_def dom_def)
  moreover have "length ops' = length ops" using assms(1) by (simp add: submitted_def)
  ultimately show ?thesis
    using assms(3,4) submitted_ran [OF assms(1)] by (auto simp: flight_ok_def)
qed

lemma submitted_arrays_ok:
  assumes sub: "submitted (length as) q (ops, g) (ops', g')" and dj: "set q \<inter> ran (in_flight g) = {}"
    and d: "distinct q" and q: "\<forall>i \<in> set q. i < length ops" and fo: "flight_ok ops (in_flight g)"
    and ao: "arrays_ok ops (in_flight g) as"
    and n: "items_left arr = word_of_nat (length q)" and nf: "\<not> freed arr"
  shows "arrays_ok ops' (in_flight g') (as @ [arr])"
  unfolding arrays_ok_def
proof (intro allI impI)
  fix f i
  let ?m = "in_flight g" and ?m' = "in_flight g'" and ?a = "length as"
  assume fi: "?m' f = Some i"
  have fl: "?m' f = Some i \<longleftrightarrow> ?m f = Some i \<or> i \<in> set q \<and> f = cb_data (cb (ops' ! i))" for f i
    using sub by (simp add: submitted_def)
  have new: "k_cb_array (ops' ! i) = Some ?a" "?m' (cb_data (cb (ops' ! i))) = Some i" if "i \<in> set q" for i
    using sub that by (simp_all add: submitted_def)
  have same: "ops' ! i = ops ! i" if "?m f = Some i" for f i
  proof -
    have "i \<notin> set q" using that dj by (auto simp: ran_def)
    then show ?thesis using sub by (simp add: submitted_def)
  qed
  have old: "\<exists>aid < ?a. k_cb_array (ops ! i) = Some aid" if "?m f = Some i" for f i
    using ao that unfolding arrays_ok_def by blast
  show "\<exists>aid < length (as @ [arr]). k_cb_array (ops' ! i) = Some aid \<and> \<not> freed ((as @ [arr]) ! aid) \<and>
      unat (items_left ((as @ [arr]) ! aid)) = card (items_of aid ops' ?m')"
  proof (cases "i \<in> set q")
    case True
    have "?m' x = Some j \<and> k_cb_array (ops' ! j) = Some ?a \<longleftrightarrow> j \<in> set q \<and> x = cb_data (cb (ops' ! j))"
      for x j
      using new [of j] fl [of x j] old [of x j] same [of x j] by auto
    then have "items_of ?a ops' ?m' = (\<lambda>i. cb_data (cb (ops' ! i))) ` set q"
      by (auto simp: items_of_def)
    moreover have "inj_on (\<lambda>i. cb_data (cb (ops' ! i))) (set q)"
      using new(2) by (metis (mono_tags, lifting) inj_onI option.inject)
    ultimately have "card (items_of ?a ops' ?m') = length q"
      using d by (simp add: card_image distinct_card)
    moreover have "length q < 2 ^ 64"
    proof -
      have "card (set q) \<le> card {..<length ops}" using q by (intro card_mono) auto
      with d fo show ?thesis by (simp add: distinct_card flight_ok_def)
    qed
    ultimately show ?thesis using new(1) [OF True] n nf by (simp add: unat_of_nat_u64 nth_append)
  next
    case False
    with fi fl have m: "?m f = Some i" by blast
    then obtain aid where a: "aid < ?a" "k_cb_array (ops ! i) = Some aid" "\<not> freed (as ! aid)"
      "unat (items_left (as ! aid)) = card (items_of aid ops ?m)"
      using ao unfolding arrays_ok_def by blast
    have "?m' x = Some j \<and> k_cb_array (ops' ! j) = Some aid \<longleftrightarrow> ?m x = Some j \<and> k_cb_array (ops ! j) = Some aid"
      for x j
      using a(1) new(1) [of j] fl [of x j] same [of x j] by auto
    then have "items_of aid ops' ?m' = items_of aid ops ?m"
      by (simp add: items_of_def)
    with a same [OF m] show ?thesis by (auto simp: nth_append)
  qed
qed

lemma kernel_invE:
  assumes "kernel_inv lib pending gid s"
  obtains g where "libaio_ok lib pending" "k_started s" "\<not> k_locked s" "k_groups s gid = Some g"
    "distinct (op_queue g)" "set (op_queue g) \<inter> ran (in_flight g) = {}"
    "\<forall>i \<in> set (op_queue g). i < length (k_ops s) \<and> k_group_id (k_ops s ! i) = gid"
    "\<forall>i \<in> ran (in_flight g). i < length (k_ops s) \<and> k_group_id (k_ops s ! i) = gid"
    "flight_ok (k_ops s) (in_flight g)" "arrays_ok (k_ops s) (in_flight g) (k_arrays s)"
    "pending (k_kernel s) (ctx g) = mset_set (dom (in_flight g))"
  using assms unfolding kernel_inv_def by blast

lemma kernel_submit_inv:
  assumes inv: "kernel_inv lib pending gid s" and r: "kernel_submit lib gid s = Inr (0, s')"
  shows "kernel_inv lib pending gid s' \<and> kernel_owns gid s' = kernel_owns gid s \<and>
    kernel_queued gid s' = {#} \<and> kernel_flying gid s' = kernel_queued gid s + kernel_flying gid s"
proof -
  from inv obtain g where lib: "libaio_ok lib pending" and st: "k_started s" "\<not> k_locked s"
    and g: "k_groups s gid = Some g" and d: "distinct (op_queue g)"
    and dj: "set (op_queue g) \<inter> ran (in_flight g) = {}"
    and q: "\<forall>i \<in> set (op_queue g). i < length (k_ops s) \<and> k_group_id (k_ops s ! i) = gid"
    and fl: "\<forall>i \<in> ran (in_flight g). i < length (k_ops s) \<and> k_group_id (k_ops s ! i) = gid"
    and fo: "flight_ok (k_ops s) (in_flight g)" and ao: "arrays_ok (k_ops s) (in_flight g) (k_arrays s)"
    and p: "pending (k_kernel s) (ctx g) = mset_set (dom (in_flight g))"
    by (rule kernel_invE)
  let ?q = "op_queue g" and ?a = "length (k_arrays s)"
  have ql: "\<forall>i \<in> set ?q. i < length (k_ops s)" using q by blast
  from submit_steps [OF d dj ql fo, of ?a] obtain ops' g' where
    f: "foldE (submit_step ?a) ?q (k_ops s, g) = Inr (ops', g')"
    and sub: "submitted ?a ?q (k_ops s, g) (ops', g')" by force
  have same: "ctx g' = ctx g" "op_queue g' = ?q" "length ops' = length (k_ops s)"
    using sub by (simp_all add: submitted_def)
  obtain err k1 where k: "io_submit lib (ctx g) (map (\<lambda>i. cb (ops' ! i)) ?q) (k_kernel s) = (err, k1)" by force
  let ?n = "word_of_nat (length ?q) :: u64"
  let ?arr = "\<lparr>ca_size = ?n, ca_items = ?q, items_left = ?n, freed = False\<rparr>"
  have err: "word_of_int err = ?n"
  proof (rule ccontr)
    assume ne: "word_of_int err \<noteq> ?n"
    with r have "err = 0"
      by (simp add: kernel_submit_def get_group_def st g f k same Let_def)
    with lib k have "?q = []" unfolding libaio_ok_def by (metis map_is_Nil_conv)
    with ne \<open>err = 0\<close> show False by simp
  qed
  with r have s': "s' = s\<lparr>k_ops := ops', k_kernel := k1, k_arrays := k_arrays s @ [?arr],
      k_groups := (k_groups s)(gid \<mapsto> g'\<lparr>op_queue := []\<rparr>)\<rparr>"
    by (simp add: kernel_submit_def get_group_def st g f k same Let_def)
  have "pending k1 (ctx g) = pending (k_kernel s) (ctx g) + mset (map cb_data (map (\<lambda>i. cb (ops' ! i)) ?q))"
    using lib k err unfolding libaio_ok_def by (metis length_map)
  then have pend: "pending k1 (ctx g) = mset_set (dom (in_flight g'))"
    using sub p by (simp add: submitted_def comp_def)
  have grp: "k_group_id (ops' ! i) = k_group_id (k_ops s ! i)" for i
    using sub by (cases "i \<in> set ?q") (simp_all add: submitted_def)
  have ran: "ran (in_flight g') = ran (in_flight g) \<union> set ?q" by (rule submitted_ran [OF sub])
  have fo': "flight_ok ops' (in_flight g')" by (rule submitted_flight_ok [OF sub dj ql fo])
  have ao': "arrays_ok ops' (in_flight g') (k_arrays s @ [?arr])"
    by (rule submitted_arrays_ok [OF sub dj d ql fo ao]) simp_all
  have "kernel_inv lib pending gid s'"
    unfolding kernel_inv_def s' using lib st q fl fo' ao' pend same grp
    by (auto simp: ran)
  moreover have "kernel_owns gid s' = kernel_owns gid s"
    using same grp by (simp add: kernel_owns_def s' fun_eq_iff)
  moreover have "kernel_flying gid s' = kernel_queued gid s + kernel_flying gid s"
  proof -
    have "mset_set (ran (in_flight g) \<union> set ?q) = mset_set (ran (in_flight g)) + mset_set (set ?q)"
      using dj by (intro mset_set_Union) auto
    then show ?thesis using d g by (simp add: kernel_flying_def kernel_queued_def s' ran mset_set_set)
  qed
  ultimately show ?thesis using g by (simp add: kernel_queued_def s')
qed

section \<open>Completion\<close>

text \<open>
  What \<open>wait\<close> does with an event for an operation in flight: it returns the operation, and
  the array of the operation is freed exactly when no other one in flight uses it.
\<close>

lemma kernel_wait_event:
  assumes inv: "kernel_inv lib pending gid s" and g: "k_groups s gid = Some g"
    and k: "io_getevents lib (ctx g) (k_kernel s) = ((1, d, res), k1)"
  shows "\<exists>i aid as. in_flight g d = Some i \<and> k_cb_array (k_ops s ! i) = Some aid \<and> aid < length (k_arrays s) \<and>
    kernel_wait lib gid s = Inr (i, s\<lparr>k_kernel := k1, k_arrays := as,
      k_groups := (k_groups s)(gid \<mapsto> g\<lparr>in_flight := (in_flight g)(d := None),
        arrays := (if freed (as ! aid) then arrays g - {aid} else arrays g)\<rparr>),
      k_ops := (k_ops s)[i := (k_ops s ! i)\<lparr>k_result := as_int res\<rparr>]\<rparr>) \<and>
    length as = length (k_arrays s) \<and> (\<forall>j. j \<noteq> aid \<longrightarrow> as ! j = k_arrays s ! j) \<and>
    unat (items_left (as ! aid)) = card (items_of aid (k_ops s) (in_flight g) - {d}) \<and>
    (freed (as ! aid) \<longleftrightarrow> items_of aid (k_ops s) (in_flight g) \<subseteq> {d})"
proof -
  have i0: "libaio_ok lib pending" "k_started s" "\<not> k_locked s"
    "arrays_ok (k_ops s) (in_flight g) (k_arrays s)"
    "pending (k_kernel s) (ctx g) = mset_set (dom (in_flight g))"
    using inv g by (auto simp: kernel_inv_def)
  let ?m = "in_flight g"
  have "d \<in># pending (k_kernel s) (ctx g)"
    using i0(1) k unfolding libaio_ok_def by blast
  then obtain i where i: "?m d = Some i" using i0(5) by auto
  with i0(4) obtain aid where aid: "aid < length (k_arrays s)" "k_cb_array (k_ops s ! i) = Some aid"
    "\<not> freed (k_arrays s ! aid)" "unat (items_left (k_arrays s ! aid)) = card (items_of aid (k_ops s) ?m)"
    unfolding arrays_ok_def by blast
  let ?I = "items_of aid (k_ops s) ?m" and ?old = "k_arrays s ! aid"
  have d: "d \<in> ?I" using i aid by (simp add: items_of_def)
  have fin: "finite ?I" by (rule finite_subset [of _ "dom ?m"]) (auto simp: items_of_def)
  then have pos: "0 < card ?I" using d by (auto simp: card_gt_0_iff)
  have c: "card (?I - {d}) = card ?I - 1" using d fin by simp
  have "1 \<le> items_left ?old" using pos aid(4) by (simp add: word_le_nat_alt)
  then have left: "unat (items_left ?old - 1) = card (?I - {d})"
    using aid(4) c by (simp add: unat_sub)
  have zero: "items_left ?old - 1 = 0 \<longleftrightarrow> ?I \<subseteq> {d}"
  proof -
    have "items_left ?old - 1 = 0 \<longleftrightarrow> card (?I - {d}) = 0" using left by (metis unat_0 unat_eq_zero)
    then show ?thesis using fin by auto
  qed
  let ?new = "?old\<lparr>items_left := items_left ?old - 1\<rparr>"
  let ?as = "(k_arrays s)[aid := (if items_left ?old - 1 = 0 then ?new\<lparr>freed := True\<rparr> else ?new)]"
  have rel: "release_item aid (k_arrays s) = Inr ?as"
    using aid(3) by (simp add: release_item_def Let_def)
  have "kernel_wait lib gid s = Inr (i, s\<lparr>k_kernel := k1, k_arrays := ?as,
      k_groups := (k_groups s)(gid \<mapsto> g\<lparr>in_flight := ?m(d := None),
        arrays := (if freed (?as ! aid) then arrays g - {aid} else arrays g)\<rparr>),
      k_ops := (k_ops s)[i := (k_ops s ! i)\<lparr>k_result := as_int res\<rparr>]\<rparr>)"
    by (simp add: kernel_wait_def get_group_def i0 g k i aid(2) rel Let_def)
  with i aid left zero show ?thesis
    by (intro exI [of _ i] exI [of _ aid] exI [of _ ?as]) (simp add: nth_list_update)
qed

lemma items_of_release:
  assumes "m d = Some i" and "inj_on m (dom m)"
  shows "items_of aid (ops[i := (ops ! i)\<lparr>k_result := as_int res\<rparr>]) (m(d := None)) = items_of aid ops m - {d}"
proof -
  have "k_cb_array (ops[i := (ops ! i)\<lparr>k_result := as_int res\<rparr>] ! j) = k_cb_array (ops ! j)" for j
    by (cases "i < length ops"; cases "j = i") (simp_all add: list_update_beyond)
  then show ?thesis by (auto simp: items_of_def)
qed

lemma ran_release:
  assumes "m d = Some i" and "inj_on m (dom m)"
  shows "ran (m(d := None)) = ran m - {i}"
proof -
  have only: "a = d" if "m a = Some i" for a using assms that by (auto simp: inj_on_def dom_def)
  show ?thesis
  proof (intro equalityI subsetI)
    fix j assume "j \<in> ran (m(d := None))"
    then obtain a where "a \<noteq> d" "m a = Some j" by (auto simp: ran_def split: if_splits)
    with only show "j \<in> ran m - {i}" by (auto simp: ran_def)
  next
    fix j assume "j \<in> ran m - {i}"
    then obtain a where "m a = Some j" "j \<noteq> i" by (auto simp: ran_def)
    with assms(1) have "(m(d := None)) a = Some j" by auto
    then show "j \<in> ran (m(d := None))" by (rule ranI)
  qed
qed

lemma kernel_wait_inv:
  assumes inv: "kernel_inv lib pending gid s" and r: "kernel_wait lib gid s = Inr (i, s')"
  shows "kernel_inv lib pending gid s' \<and> kernel_owns gid s' = kernel_owns gid s \<and> kernel_owns gid s i \<and>
    kernel_queued gid s' = kernel_queued gid s \<and> kernel_flying gid s = add_mset i (kernel_flying gid s')"
proof -
  from inv obtain g where lib: "libaio_ok lib pending" and st: "k_started s" "\<not> k_locked s"
    and g: "k_groups s gid = Some g" and d: "distinct (op_queue g)"
    and dj: "set (op_queue g) \<inter> ran (in_flight g) = {}"
    and q: "\<forall>i \<in> set (op_queue g). i < length (k_ops s) \<and> k_group_id (k_ops s ! i) = gid"
    and fl: "\<forall>i \<in> ran (in_flight g). i < length (k_ops s) \<and> k_group_id (k_ops s ! i) = gid"
    and fo: "flight_ok (k_ops s) (in_flight g)" and ao: "arrays_ok (k_ops s) (in_flight g) (k_arrays s)"
    and p: "pending (k_kernel s) (ctx g) = mset_set (dom (in_flight g))"
    by (rule kernel_invE)
  obtain err dd res k1 where k: "io_getevents lib (ctx g) (k_kernel s) = ((err, dd, res), k1)" by (metis prod_cases3 surj_pair)
  with r have "err = 1" by (auto simp: kernel_wait_def get_group_def st g split: if_splits)
  with k have k': "io_getevents lib (ctx g) (k_kernel s) = ((1, dd, res), k1)" by simp
  from kernel_wait_event [OF inv g k'] r obtain aid as where
    m: "in_flight g dd = Some i" and aid: "k_cb_array (k_ops s ! i) = Some aid" "aid < length (k_arrays s)"
    and s': "s' = s\<lparr>k_kernel := k1, k_arrays := as,
      k_groups := (k_groups s)(gid \<mapsto> g\<lparr>in_flight := (in_flight g)(dd := None),
        arrays := (if freed (as ! aid) then arrays g - {aid} else arrays g)\<rparr>),
      k_ops := (k_ops s)[i := (k_ops s ! i)\<lparr>k_result := as_int res\<rparr>]\<rparr>"
    and as: "length as = length (k_arrays s)" "\<forall>j. j \<noteq> aid \<longrightarrow> as ! j = k_arrays s ! j"
      "unat (items_left (as ! aid)) = card (items_of aid (k_ops s) (in_flight g) - {dd})"
      "freed (as ! aid) \<longleftrightarrow> items_of aid (k_ops s) (in_flight g) \<subseteq> {dd}"
    by (elim exE conjE) (simp only: sum.inject prod.inject, blast)
  let ?m = "in_flight g" and ?m' = "(in_flight g)(dd := None)"
  let ?ops = "(k_ops s)[i := (k_ops s ! i)\<lparr>k_result := as_int res\<rparr>]"
  have inj: "inj_on ?m (dom ?m)" using fo by (simp add: flight_ok_def)
  have own: "kernel_owns gid s i" using fl m by (auto simp: kernel_owns_def ran_def)
  have ran: "ran ?m' = ran ?m - {i}" by (rule ran_release [OF m inj])
  have fld: "k_cb_array (?ops ! j) = k_cb_array (k_ops s ! j)" "k_group_id (?ops ! j) = k_group_id (k_ops s ! j)" for j
    using own by (cases "j = i"; simp add: kernel_owns_def)+
  have it: "items_of a ?ops ?m' = items_of a (k_ops s) ?m - {dd}" for a
    by (rule items_of_release [OF m inj])
  have fo': "flight_ok ?ops ?m'"
    using fo ran by (auto simp: flight_ok_def inj_on_def)
  have ao': "arrays_ok ?ops ?m' as"
    unfolding arrays_ok_def
  proof (intro allI impI)
    fix f j assume f: "?m' f = Some j"
    then have ff: "?m f = Some j" "f \<noteq> dd" by (auto split: if_splits)
    with ao obtain a where a: "a < length (k_arrays s)" "k_cb_array (k_ops s ! j) = Some a"
      "\<not> freed (k_arrays s ! a)" "unat (items_left (k_arrays s ! a)) = card (items_of a (k_ops s) ?m)"
      unfolding arrays_ok_def by blast
    have "f \<in> items_of a (k_ops s) ?m" using ff a by (simp add: items_of_def)
    moreover have "items_of a (k_ops s) ?m - {dd} = items_of a (k_ops s) ?m" if "a \<noteq> aid"
      using that m aid(1) by (auto simp: items_of_def)
    ultimately have "\<not> freed (as ! a) \<and> unat (items_left (as ! a)) = card (items_of a ?ops ?m')"
      using as a ff(2) it by (cases "a = aid") auto
    with a as(1) fld show "\<exists>aid<length as. k_cb_array (?ops ! j) = Some aid \<and> \<not> freed (as ! aid) \<and>
        unat (items_left (as ! aid)) = card (items_of aid ?ops ?m')" by auto
  qed
  have "pending k1 (ctx g) = pending (k_kernel s) (ctx g) - {#dd#}"
    using lib k \<open>err = 1\<close> unfolding libaio_ok_def by blast
  also have "\<dots> = mset_set (dom ?m')" using m by (simp add: p mset_set_Diff [of _ "{dd}", simplified] domI)
  finally have p': "pending k1 (ctx g) = mset_set (dom ?m')" .
  have "kernel_inv lib pending gid s'"
    unfolding kernel_inv_def using lib st d dj q fl fo' ao' p' fld ran
    by (auto simp: s')
  moreover have "kernel_owns gid s' = kernel_owns gid s" using fld by (simp add: kernel_owns_def s' fun_eq_iff)
  moreover have "kernel_flying gid s = add_mset i (kernel_flying gid s')"
  proof -
    have "i \<in> ran ?m" using m by (rule ranI)
    then have "mset_set (ran ?m) = add_mset i (mset_set (ran ?m - {i}))" by (simp add: mset_set.remove)
    then show ?thesis using g ran by (simp add: kernel_flying_def s')
  qed
  moreover have "kernel_queued gid s' = kernel_queued gid s" using g by (simp add: kernel_queued_def s')
  ultimately show ?thesis using own by blast
qed

lemma kernel_wait_result:
  assumes "kernel_inv lib pending gid s" and "kernel_wait lib gid s = Inr (i, s')"
  shows "\<exists>n. k_result (k_ops s' ! i) = as_int n"
proof -
  from assms(2) obtain g where g: "get_group gid s = Inr g"
    unfolding kernel_wait_def bindE_Inr_iff by blast
  obtain err d res k1 where "io_getevents lib (ctx g) (k_kernel s) = ((err, d, res), k1)"
    by (metis prod_cases3 surj_pair)
  with assms(2) g have "k_ops s' = (k_ops s)[i := (k_ops s ! i)\<lparr>k_result := as_int res\<rparr>]"
    by (auto simp: kernel_wait_def bindE_Inr_iff Let_def split: if_splits option.splits)
  moreover have "i < length (k_ops s)" using kernel_wait_inv [OF assms] by (simp add: kernel_owns_def)
  ultimately show ?thesis by auto
qed

section \<open>The contract of the engines\<close>

lemma kernel_enqueue_inv:
  assumes inv: "kernel_inv lib pending gid s" and own: "kernel_owns gid s i"
    and new: "i \<notin># kernel_queued gid s + kernel_flying gid s"
  shows "\<exists>s'. kernel_enqueue i s = Inr (0, s') \<and> kernel_inv lib pending gid s' \<and>
    kernel_owns gid s' = kernel_owns gid s \<and> kernel_queued gid s' = add_mset i (kernel_queued gid s) \<and>
    kernel_flying gid s' = kernel_flying gid s"
proof -
  from inv obtain g where lib: "libaio_ok lib pending" and st: "k_started s" "\<not> k_locked s"
    and g: "k_groups s gid = Some g" and d: "distinct (op_queue g)"
    and dj: "set (op_queue g) \<inter> ran (in_flight g) = {}"
    and q: "\<forall>i \<in> set (op_queue g). i < length (k_ops s) \<and> k_group_id (k_ops s ! i) = gid"
    and fl: "\<forall>i \<in> ran (in_flight g). i < length (k_ops s) \<and> k_group_id (k_ops s ! i) = gid"
    and fo: "flight_ok (k_ops s) (in_flight g)" and ao: "arrays_ok (k_ops s) (in_flight g) (k_arrays s)"
    and p: "pending (k_kernel s) (ctx g) = mset_set (dom (in_flight g))"
    by (rule kernel_invE)
  let ?s = "s\<lparr>k_groups := (k_groups s)(gid \<mapsto> g\<lparr>op_queue := op_queue g @ [i]\<rparr>)\<rparr>"
  have i: "i < length (k_ops s)" "k_group_id (k_ops s ! i) = gid" using own by (simp_all add: kernel_owns_def)
  have n: "i \<notin> set (op_queue g)" "i \<notin> ran (in_flight g)"
    using new g by (auto simp: kernel_queued_def kernel_flying_def)
  have "kernel_enqueue i s = Inr (0, ?s)"
    using i by (simp add: kernel_enqueue_def get_group_def st g)
  moreover have "kernel_inv lib pending gid ?s"
    unfolding kernel_inv_def using lib st d dj q fl fo ao p i n by auto
  ultimately show ?thesis using g by (simp add: kernel_owns_def [abs_def] kernel_queued_def kernel_flying_def)
qed

text \<open>The setters touch no field that the invariant mentions.\<close>

lemma update_op_inv:
  assumes inv: "kernel_inv lib pending gid s"
    and f: "\<And>a. k_group_id (f a) = k_group_id a" "\<And>a. k_cb_array (f a) = k_cb_array a"
  shows "kernel_inv lib pending gid (update_op i f s) \<and> kernel_owns gid (update_op i f s) = kernel_owns gid s \<and>
    kernel_queued gid (update_op i f s) = kernel_queued gid s \<and>
    kernel_flying gid (update_op i f s) = kernel_flying gid s"
proof (cases "i < length (k_ops s)")
  case True
  let ?ops = "(k_ops s)[i := f (k_ops s ! i)]"
  have fld: "k_group_id (?ops ! j) = k_group_id (k_ops s ! j)" "k_cb_array (?ops ! j) = k_cb_array (k_ops s ! j)" for j
    using True f by (cases "j = i"; simp)+
  have "items_of a ?ops m = items_of a (k_ops s) m" for a m by (simp add: items_of_def fld)
  then show ?thesis
    using inv True by (simp add: update_op_def kernel_inv_def flight_ok_def arrays_ok_def fld kernel_owns_def [abs_def]
        kernel_queued_def kernel_flying_def)
next
  case False
  then show ?thesis using inv by (simp add: update_op_def)
qed

interpretation kernel: async_io "kernel_manager lib" gid "kernel_inv lib pending gid" "kernel_owns gid"
  "kernel_queued gid" "kernel_flying gid" for lib pending gid
proof
  fix s :: "'a kernel_state" and i
  assume "kernel_inv lib pending gid s" and "i \<in># kernel_flying gid s"
  then show "count (kernel_queued gid s + kernel_flying gid s) i = 1"
    by (auto simp: kernel_inv_def kernel_queued_def kernel_flying_def count_mset_0_iff)
next
  fix s s' :: "'a kernel_state" and i t off ty
  assume i: "kernel_inv lib pending gid s" and "s' \<in> {set_time (kernel_manager lib) i t s,
    set_offset (kernel_manager lib) i off s, set_type (kernel_manager lib) i ty s}"
  then consider "s' = update_op i (k_set_time t) s" | "s' = update_op i (k_set_offset off) s"
    | "s' = update_op i (k_set_type ty) s" by (auto simp: kernel_manager_def)
  then show "kernel_inv lib pending gid s' \<and> kernel_owns gid s' = kernel_owns gid s \<and>
      kernel_queued gid s' = kernel_queued gid s \<and> kernel_flying gid s' = kernel_flying gid s"
    by cases (use update_op_inv [OF i] in \<open>simp_all add: k_set_time_def k_set_offset_def k_set_type_def\<close>)
qed (use kernel_enqueue_inv kernel_submit_inv kernel_wait_inv in \<open>simp_all add: kernel_manager_def\<close>)

lemma submit_steps_keep:
  assumes "foldE (submit_step aid) q (ops, g) = Inr (ops', g')"
  shows "k_target_data (ops' ! j) = k_target_data (ops ! j) \<and> c_offset (cb (ops' ! j)) = c_offset (cb (ops ! j)) \<and>
        c_nbytes (cb (ops' ! j)) = c_nbytes (cb (ops ! j))"
proof -
  have "k_target_data (fst (ops', g') ! j) = k_target_data (ops ! j) \<and>
      c_offset (cb (fst (ops', g') ! j)) = c_offset (cb (ops ! j)) \<and>
        c_nbytes (cb (fst (ops', g') ! j)) = c_nbytes (cb (ops ! j))"
  proof (rule foldE_invariant [OF assms])
    fix i :: nat and a a' assume p: "k_target_data (fst a ! j) = k_target_data (ops ! j) \<and>
        c_offset (cb (fst a ! j)) = c_offset (cb (ops ! j)) \<and>
        c_nbytes (cb (fst a ! j)) = c_nbytes (cb (ops ! j))" and r: "submit_step aid i a = Inr a'"
    obtain o1 g1 where a: "a = (o1, g1)" by force
    from r a obtain f where "a' = (o1[i := (o1 ! i)\<lparr>k_cb_array := Some aid, cb := (cb (o1 ! i))\<lparr>cb_data := f\<rparr>\<rparr>],
        g1\<lparr>in_flight := (in_flight g1)(f \<mapsto> i), next_flight := f + 1\<rparr>)" "i < length o1"
      by (auto simp: submit_step_def Let_def split: if_splits option.splits)
    with p a show "k_target_data (fst a' ! j) = k_target_data (ops ! j) \<and>
        c_offset (cb (fst a' ! j)) = c_offset (cb (ops ! j)) \<and>
        c_nbytes (cb (fst a' ! j)) = c_nbytes (cb (ops ! j))"
      by (cases "j = i") simp_all
  qed simp
  then show ?thesis by simp
qed

lemma kernel_submit_keeps:
  assumes "kernel_submit lib gid s = Inr (e, s')"
  shows "k_target_data (k_ops s' ! j) = k_target_data (k_ops s ! j) \<and>
    c_offset (cb (k_ops s' ! j)) = c_offset (cb (k_ops s ! j)) \<and>
        c_nbytes (cb (k_ops s' ! j)) = c_nbytes (cb (k_ops s ! j))"
proof -
  from assms obtain g r where g: "get_group gid s = Inr g"
    and f: "foldE (submit_step (length (k_arrays s))) (op_queue g) (k_ops s, g) = Inr r"
    unfolding kernel_submit_def Let_def bindE_Inr_iff by blast
  obtain ops' g' where r: "r = (ops', g')" by force
  obtain err k1 where "io_submit lib (ctx g') (map (\<lambda>i. cb (ops' ! i)) (op_queue g)) (k_kernel s) = (err, k1)" by force
  with assms g f r have "k_ops s' = ops'"
    by (auto simp: kernel_submit_def Let_def split: if_splits)
  with f r submit_steps_keep show ?thesis by metis
qed

lemma kernel_wait_keeps:
  assumes "kernel_wait lib gid s = Inr (i, s')"
  shows "k_target_data (k_ops s' ! j) = k_target_data (k_ops s ! j) \<and>
    c_offset (cb (k_ops s' ! j)) = c_offset (cb (k_ops s ! j)) \<and>
        c_nbytes (cb (k_ops s' ! j)) = c_nbytes (cb (k_ops s ! j))"
proof -
  from assms obtain g where g: "get_group gid s = Inr g"
    unfolding kernel_wait_def bindE_Inr_iff by blast
  obtain err d res k1 where "io_getevents lib (ctx g) (k_kernel s) = ((err, d, res), k1)"
    by (metis prod_cases3 surj_pair)
  with assms g have "k_ops s' = (k_ops s)[i := (k_ops s ! i)\<lparr>k_result := as_int res\<rparr>]"
    by (auto simp: kernel_wait_def bindE_Inr_iff Let_def split: if_splits option.splits)
  then show ?thesis by (cases "i < length (k_ops s)"; cases "j = i") (simp_all add: list_update_beyond)
qed

lemma update_op_keeps:
  assumes "\<And>a. k_target_data (f a) = k_target_data a" and "\<And>a. c_offset (cb (f a)) = c_offset (cb a)"
    and "\<And>a. c_nbytes (cb (f a)) = c_nbytes (cb a)"
  shows "k_target_data (k_ops (update_op i f s) ! j) = k_target_data (k_ops s ! j) \<and>
    c_offset (cb (k_ops (update_op i f s) ! j)) = c_offset (cb (k_ops s ! j)) \<and>
        c_nbytes (cb (k_ops (update_op i f s) ! j)) = c_nbytes (cb (k_ops s ! j))"
  using assms by (cases "j = i") (simp_all add: update_op_def)

interpretation kernel_attrs: async_io_attrs "kernel_manager lib" gid "kernel_inv lib pending gid" "kernel_owns gid"
  "kernel_queued gid" "kernel_flying gid" for lib pending gid
proof
  fix s s' :: "'a kernel_state" and i j t ty
  assume "s' \<in> {set_time (kernel_manager lib) i t s, set_type (kernel_manager lib) i ty s}"
  then consider "s' = update_op i (k_set_time t) s" | "s' = update_op i (k_set_type ty) s"
    by (auto simp: kernel_manager_def)
  then show "get_offset (kernel_manager lib) j s' = get_offset (kernel_manager lib) j s \<and>
      get_target_data (kernel_manager lib) j s' = get_target_data (kernel_manager lib) j s \<and>
      get_nbytes (kernel_manager lib) j s' = get_nbytes (kernel_manager lib) j s"
    by cases (simp_all add: kernel_manager_def k_set_time_def k_set_type_def update_op_keeps)
next
  fix s :: "'a kernel_state" and i j off
  assume "kernel_owns gid s i"
  then show "get_offset (kernel_manager lib) j (set_offset (kernel_manager lib) i off s) =
      (if j = i then off else get_offset (kernel_manager lib) j s) \<and>
      get_target_data (kernel_manager lib) j (set_offset (kernel_manager lib) i off s) =
      get_target_data (kernel_manager lib) j s \<and>
      get_nbytes (kernel_manager lib) j (set_offset (kernel_manager lib) i off s) = get_nbytes (kernel_manager lib) j s"
    by (cases "j = i") (simp_all add: kernel_manager_def update_op_def k_set_offset_def kernel_owns_def)
next
  fix s s' :: "'a kernel_state" and e j
  assume "m_submit (kernel_manager lib) gid s = Inr (e, s')"
  then have "kernel_submit lib gid s = Inr (e, s')" by (simp add: kernel_manager_def)
  from kernel_submit_keeps [OF this, of j]
  show "get_offset (kernel_manager lib) j s' = get_offset (kernel_manager lib) j s \<and>
      get_target_data (kernel_manager lib) j s' = get_target_data (kernel_manager lib) j s \<and>
      get_nbytes (kernel_manager lib) j s' = get_nbytes (kernel_manager lib) j s"
    by (simp add: kernel_manager_def)
next
  fix s s' :: "'a kernel_state" and i j
  assume "m_wait (kernel_manager lib) gid s = Inr (i, s')"
  then have "kernel_wait lib gid s = Inr (i, s')" by (simp add: kernel_manager_def)
  from kernel_wait_keeps [OF this, of j]
  show "get_offset (kernel_manager lib) j s' = get_offset (kernel_manager lib) j s \<and>
      get_target_data (kernel_manager lib) j s' = get_target_data (kernel_manager lib) j s \<and>
      get_nbytes (kernel_manager lib) j s' = get_nbytes (kernel_manager lib) j s"
    by (simp add: kernel_manager_def)
qed (auto simp: kernel_manager_def kernel_enqueue_def bindE_Inr_iff Let_def split: if_splits)

section \<open>A failed submission\<close>



section \<open>How the invariant starts\<close>

text \<open>A group just created, in a context without pending requests, satisfies the invariant.\<close>

lemma kernel_create_group_inv:
  assumes "libaio_ok lib pending" and "k_started s" and "length (k_ops s) < 2 ^ 63"
    and "\<And>n c k'. io_queue_init lib n (k_kernel s) = (0, c, k') \<Longrightarrow> pending k' c = {#}"
    and "kernel_create_group lib gid n s = Inr (True, s')"
  shows "kernel_inv lib pending gid s' \<and> kernel_queued gid s' = {#} \<and> kernel_flying gid s' = {#}"
  using assms
  by (auto simp: kernel_create_group_def kernel_inv_def flight_ok_def arrays_ok_def kernel_queued_def
      kernel_flying_def Let_def split: if_splits prod.splits)

lemma kernel_construct_inv:
  assumes inv: "kernel_inv lib pending gid s" and l: "length (k_ops s) + 1 < 2 ^ 63"
  shows "\<exists>s'. kernel_construct ty fd off rbuf wbuf n gid td t s = Inr (length (k_ops s), s') \<and>
    kernel_inv lib pending gid s' \<and> kernel_owns gid s' (length (k_ops s)) \<and>
    kernel_queued gid s' = kernel_queued gid s \<and> kernel_flying gid s' = kernel_flying gid s \<and>
    length (k_ops s) \<notin># kernel_queued gid s + kernel_flying gid s"
proof -
  from inv obtain g where lib: "libaio_ok lib pending" and st: "k_started s" "\<not> k_locked s"
    and g: "k_groups s gid = Some g" and d: "distinct (op_queue g)"
    and dj: "set (op_queue g) \<inter> ran (in_flight g) = {}"
    and q: "\<forall>i \<in> set (op_queue g). i < length (k_ops s) \<and> k_group_id (k_ops s ! i) = gid"
    and fl: "\<forall>i \<in> ran (in_flight g). i < length (k_ops s) \<and> k_group_id (k_ops s ! i) = gid"
    and fo: "flight_ok (k_ops s) (in_flight g)" and ao: "arrays_ok (k_ops s) (in_flight g) (k_arrays s)"
    and p: "pending (k_kernel s) (ctx g) = mset_set (dom (in_flight g))"
    by (rule kernel_invE)
  let ?a = "KernelAsyncIop ty fd off rbuf wbuf n gid td t"
  let ?s = "s\<lparr>k_ops := k_ops s @ [?a]\<rparr>"
  have same: "(k_ops s @ [?a]) ! i = k_ops s ! i" if "i \<in> set (op_queue g) \<union> ran (in_flight g)" for i
    using that q fl by (auto simp: nth_append)
  have it: "items_of a (k_ops s @ [?a]) (in_flight g) = items_of a (k_ops s) (in_flight g)" for a
  proof -
    have "in_flight g f = Some i \<Longrightarrow> (k_ops s @ [?a]) ! i = k_ops s ! i" for f i
      using same [of i] by (auto intro: ranI)
    then show ?thesis unfolding items_of_def by metis
  qed
  have "arrays_ok (k_ops s @ [?a]) (in_flight g) (k_arrays s)"
    unfolding arrays_ok_def it
  proof (intro allI impI)
    fix f i assume f: "in_flight g f = Some i"
    then have "(k_ops s @ [?a]) ! i = k_ops s ! i" using same [of i] by (auto intro: ranI)
    with f ao show "\<exists>aid<length (k_arrays s). k_cb_array ((k_ops s @ [?a]) ! i) = Some aid \<and>
        \<not> freed (k_arrays s ! aid) \<and>
        unat (items_left (k_arrays s ! aid)) = card (items_of aid (k_ops s) (in_flight g))"
      unfolding arrays_ok_def by metis
  qed
  moreover have "flight_ok (k_ops s @ [?a]) (in_flight g)" using fo l by (auto simp: flight_ok_def)
  ultimately have "kernel_inv lib pending gid ?s"
    unfolding kernel_inv_def using lib st d dj q fl p g same by (auto simp: nth_append)
  moreover have "length (k_ops s) \<notin># kernel_queued gid s + kernel_flying gid s"
    using q fl g by (auto simp: kernel_queued_def kernel_flying_def)
  ultimately show ?thesis
    using st by (auto simp: kernel_construct_def kernel_owns_def kernel_queued_def kernel_flying_def KernelAsyncIop_def)
qed

section \<open>The start of a group\<close>

text \<open>
  An engine before the first operation of the group; a new context of the kernel has no pending
  requests.
\<close>

definition kernel_fresh ::
  "'k libaio \<Rightarrow> ('k \<Rightarrow> u64 \<Rightarrow> u64 multiset) \<Rightarrow> int \<Rightarrow> 'k kernel_state \<Rightarrow> bool" where
  "kernel_fresh lib pending gid s \<longleftrightarrow> libaio_ok lib pending \<and> k_started s \<and> length (k_ops s) < 2 ^ 63 \<and>
    (\<forall>op \<in> set (k_ops s). k_group_id op \<noteq> gid) \<and>
    (\<forall>n c k'. io_queue_init lib n (k_kernel s) = (0, c, k') \<longrightarrow> pending k' c = {#})"

definition kernel_room :: "'k kernel_state \<Rightarrow> nat" where
  "kernel_room s = 2 ^ 63 - 1 - length (k_ops s)"

interpretation kernel_starts: async_io_start "kernel_manager lib" gid "kernel_inv lib pending gid" "kernel_owns gid"
  "kernel_queued gid" "kernel_flying gid" "kernel_fresh lib pending gid" kernel_room for lib pending gid
proof
  fix s s' :: "'a kernel_state" and n
  assume f: "kernel_fresh lib pending gid s" and "m_create_group (kernel_manager lib) gid n s = Inr (True, s')"
  then have c: "kernel_create_group lib gid n s = Inr (True, s')" by (simp add: kernel_manager_def)
  then have "k_ops s' = k_ops s" by (auto simp: kernel_create_group_def Let_def split: if_splits prod.splits)
  with f c kernel_create_group_inv [of lib pending s gid n s']
  show "kernel_inv lib pending gid s' \<and> (\<forall>i. \<not> kernel_owns gid s' i) \<and> kernel_queued gid s' = {#} \<and>
      kernel_flying gid s' = {#} \<and> kernel_room s' = kernel_room s"
    by (auto simp: kernel_fresh_def kernel_owns_def kernel_room_def)
next
  fix s :: "'a kernel_state" and ty fd off rbuf wbuf n td t
  assume i: "kernel_inv lib pending gid s" and r: "0 < kernel_room s"
  let ?n = "length (k_ops s)"
  have "?n + 1 < 2 ^ 63" using r by (simp add: kernel_room_def)
  from kernel_construct_inv [OF i this, of ty fd off rbuf wbuf n td t] obtain s' where
    c: "kernel_construct ty fd off rbuf wbuf n gid td t s = Inr (?n, s')" and s': "kernel_inv lib pending gid s'"
      "kernel_queued gid s' = kernel_queued gid s" "kernel_flying gid s' = kernel_flying gid s"
      "?n \<notin># kernel_queued gid s + kernel_flying gid s" by blast
  from c have o: "k_ops s' = k_ops s @ [KernelAsyncIop ty fd off rbuf wbuf n gid td t]"
    by (auto simp: kernel_construct_def split: if_splits)
  have "kernel_owns gid s' = (kernel_owns gid s)(?n := True)"
    by (auto simp: fun_eq_iff kernel_owns_def o nth_append KernelAsyncIop_def less_Suc_eq)
  with c s' o show "\<exists>i s'. m_construct (kernel_manager lib) ty fd off rbuf wbuf n gid td t s = Inr (i, s') \<and>
      kernel_inv lib pending gid s' \<and> kernel_room s' = kernel_room s - 1 \<and>
      \<not> kernel_owns gid s i \<and> kernel_owns gid s' = (kernel_owns gid s)(i := True) \<and>
      kernel_queued gid s' = kernel_queued gid s \<and> kernel_flying gid s' = kernel_flying gid s \<and>
      i \<notin># kernel_queued gid s + kernel_flying gid s \<and> get_offset (kernel_manager lib) i s' = off \<and>
      get_target_data (kernel_manager lib) i s' = td \<and> get_nbytes (kernel_manager lib) i s' = n \<and>
      (\<forall>j. kernel_owns gid s j \<longrightarrow> get_offset (kernel_manager lib) j s' = get_offset (kernel_manager lib) j s \<and>
        get_target_data (kernel_manager lib) j s' = get_target_data (kernel_manager lib) j s \<and>
      get_nbytes (kernel_manager lib) j s' = get_nbytes (kernel_manager lib) j s)"
    by (intro exI [of _ ?n] exI [of _ s'])
      (auto simp: kernel_manager_def kernel_room_def kernel_owns_def nth_append KernelAsyncIop_def)
qed (auto simp: kernel_manager_def kernel_enqueue_def bindE_Inr_iff Let_def kernel_room_def split: if_splits)

section \<open>A device that serves\<close>

text \<open>
  A kernel over a device on which every request succeeds, with \<open>req k c d\<close> the size of the request
  pending in the context \<open>c\<close> with the data word \<open>d\<close>: submissions queue all their control blocks, and with
  requests pending there is an event of one that has transferred what it asked for.
\<close>

definition libaio_serves ::
  "'k libaio \<Rightarrow> ('k \<Rightarrow> u64 \<Rightarrow> u64 multiset) \<Rightarrow> ('k \<Rightarrow> u64 \<Rightarrow> u64 \<Rightarrow> size_t) \<Rightarrow> bool" where
  "libaio_serves lib pending req \<longleftrightarrow>
    (\<forall>c cbs k. distinct (map cb_data cbs) \<longrightarrow> set (map cb_data cbs) \<inter> set_mset (pending k c) = {} \<longrightarrow>
      (\<exists>k'. io_submit lib c cbs k = (int (length cbs), k') \<and> (\<forall>b \<in> set cbs. req k' c (cb_data b) = c_nbytes b) \<and>
        (\<forall>d. d \<in># pending k c \<longrightarrow> req k' c d = req k c d))) \<and>
    (\<forall>c k. pending k c \<noteq> {#} \<longrightarrow> (\<exists>d res k'. io_getevents lib c k = ((1, d, res), k') \<and>
      word_of_int res = req k c d \<and> (\<forall>d'. d' \<noteq> d \<longrightarrow> req k' c d' = req k c d')))"

definition kernel_serves ::
  "'k libaio \<Rightarrow> ('k \<Rightarrow> u64 \<Rightarrow> u64 multiset) \<Rightarrow> ('k \<Rightarrow> u64 \<Rightarrow> u64 \<Rightarrow> size_t) \<Rightarrow> int \<Rightarrow> 'k kernel_state \<Rightarrow> bool" where
  "kernel_serves lib pending req gid s \<longleftrightarrow> libaio_serves lib pending req \<and> (\<forall>a \<in> set (k_ops s). k_err a = 0) \<and>
    (\<forall>g. k_groups s gid = Some g \<longrightarrow> (\<forall>d i. in_flight g d = Some i \<longrightarrow>
      i < length (k_ops s) \<and> req (k_kernel s) (ctx g) d = c_nbytes (cb (k_ops s ! i))))"

lemma submitted_data:
  assumes "submitted aid q (ops, g) (ops', g')" and "distinct q" and "set q \<inter> ran (in_flight g) = {}"
  shows "distinct (map (\<lambda>i. cb_data (cb (ops' ! i))) q)"
    and "i \<in> set q \<Longrightarrow> in_flight g (cb_data (cb (ops' ! i))) = None"
proof -
  have m: "in_flight g' (cb_data (cb (ops' ! i))) = Some i" if "i \<in> set q" for i
    using assms(1) that by (simp add: submitted_def)
  then show "distinct (map (\<lambda>i. cb_data (cb (ops' ! i))) q)"
    using assms(2) by (metis (mono_tags, lifting) distinct_map inj_onI option.inject)
  show "in_flight g (cb_data (cb (ops' ! i))) = None" if i: "i \<in> set q"
  proof (rule ccontr)
    assume "in_flight g (cb_data (cb (ops' ! i))) \<noteq> None"
    then obtain j where j: "in_flight g (cb_data (cb (ops' ! i))) = Some j" by blast
    with assms(1) have "in_flight g' (cb_data (cb (ops' ! i))) = Some j" by (simp add: submitted_def)
    with m [OF i] have "j = i" by simp
    with j i assms(3) show False by (auto simp: ran_def)
  qed
qed

lemma submit_steps_err:
  assumes "foldE (submit_step aid) q (ops, g) = Inr (ops', g')" and "\<forall>a \<in> set ops. k_err a = 0"
  shows "\<forall>a \<in> set ops'. k_err a = 0"
proof -
  have "\<forall>a \<in> set (fst (ops', g')). k_err a = 0"
  proof (rule foldE_invariant [OF assms(1)])
    fix i :: nat and a a' assume p: "\<forall>b \<in> set (fst a). k_err b = 0" and r: "submit_step aid i a = Inr a'"
    obtain o1 g1 where a: "a = (o1, g1)" by force
    from r a have o1: "\<exists>f. fst a' = o1[i := (o1 ! i)\<lparr>k_cb_array := Some aid, cb := (cb (o1 ! i))\<lparr>cb_data := f\<rparr>\<rparr>] \<and> i < length o1"
      by (auto simp: submit_step_def Let_def split: if_splits option.splits)
    with p a show "\<forall>b \<in> set (fst a'). k_err b = 0" by (auto dest!: set_update_subset_insert [THEN subsetD])
  qed (use assms(2) in simp)
  then show ?thesis by simp
qed

lemma kernel_submit_serves:
  assumes inv: "kernel_inv lib pending gid s" and sv: "kernel_serves lib pending req gid s"
  shows "\<exists>s'. kernel_submit lib gid s = Inr (0, s') \<and> kernel_serves lib pending req gid s'"
proof -
  from inv obtain g where st: "k_started s" "\<not> k_locked s" and g: "k_groups s gid = Some g"
    and d: "distinct (op_queue g)" and dj: "set (op_queue g) \<inter> ran (in_flight g) = {}"
    and q: "\<forall>i \<in> set (op_queue g). i < length (k_ops s)"
    and fo: "flight_ok (k_ops s) (in_flight g)" and p: "pending (k_kernel s) (ctx g) = mset_set (dom (in_flight g))"
    by (rule kernel_invE) blast
  let ?q = "op_queue g" and ?a = "length (k_arrays s)" and ?c = "ctx g"
  from submit_steps [OF d dj q fo, of ?a] obtain ops' g' where
    f: "foldE (submit_step ?a) ?q (k_ops s, g) = Inr (ops', g')"
    and sub: "submitted ?a ?q (k_ops s, g) (ops', g')" by force
  have same: "ctx g' = ctx g" "op_queue g' = ?q" using sub by (simp_all add: submitted_def)
  have lib: "libaio_serves lib pending req" and err: "\<forall>a \<in> set (k_ops s). k_err a = 0"
    and rq: "\<And>x i. in_flight g x = Some i \<Longrightarrow> req (k_kernel s) ?c x = c_nbytes (cb (k_ops s ! i))"
    using sv g by (simp_all add: kernel_serves_def)
  let ?cbs = "map (\<lambda>i. cb (ops' ! i)) ?q"
  note new = submitted_data [OF sub d dj]
  have dist: "distinct (map cb_data ?cbs)" using new(1) by (simp add: comp_def)
  have disj: "set (map cb_data ?cbs) \<inter> set_mset (pending (k_kernel s) ?c) = {}" using new(2) p by auto
  have "\<exists>k'. io_submit lib ?c ?cbs (k_kernel s) = (int (length ?cbs), k') \<and>
      (\<forall>b \<in> set ?cbs. req k' ?c (cb_data b) = c_nbytes b) \<and>
      (\<forall>d. d \<in># pending (k_kernel s) ?c \<longrightarrow> req k' ?c d = req (k_kernel s) ?c d)"
    by (rule conjunct1 [OF lib [unfolded libaio_serves_def], rule_format, OF dist disj])
  then obtain k1 where k: "io_submit lib ?c ?cbs (k_kernel s) = (int (length ?q), k1)"
    "\<forall>b \<in> set ?cbs. req k1 ?c (cb_data b) = c_nbytes b"
    "\<forall>x. x \<in># pending (k_kernel s) ?c \<longrightarrow> req k1 ?c x = req (k_kernel s) ?c x"
    unfolding length_map by blast
  obtain s' where s': "kernel_submit lib gid s = Inr (0, s')" "k_ops s' = ops'" "k_kernel s' = k1"
    "k_groups s' = (k_groups s)(gid \<mapsto> g'\<lparr>op_queue := []\<rparr>)"
    using k(1) by (simp add: kernel_submit_def get_group_def st g f same Let_def)
  have "i < length ops' \<and> req k1 ?c x = c_nbytes (cb (ops' ! i))" if "in_flight g' x = Some i" for x i
  proof (cases "i \<in> set ?q")
    case True
    then have "x = cb_data (cb (ops' ! i))" using sub that dj by (auto simp: submitted_def ran_def)
    with True k(2) q sub show ?thesis by (simp add: submitted_def)
  next
    case False
    then have "in_flight g x = Some i" "ops' ! i = k_ops s ! i" using sub that by (auto simp: submitted_def)
    with k(3) p rq sub sv g show ?thesis by (auto simp: domI kernel_serves_def submitted_def)
  qed
  then have "kernel_serves lib pending req gid s'"
    using lib submit_steps_err [OF f err] s' same by (simp add: kernel_serves_def)
  with s'(1) show ?thesis by blast
qed

lemma kernel_wait_serves:
  assumes inv: "kernel_inv lib pending gid s" and sv: "kernel_serves lib pending req gid s"
    and fl: "kernel_flying gid s \<noteq> {#}"
  shows "\<exists>i s'. kernel_wait lib gid s = Inr (i, s') \<and> kernel_serves lib pending req gid s' \<and>
    k_err (k_ops s' ! i) = 0 \<and>
    (c_nbytes (cb (k_ops s' ! i)) < 2 ^ 31 \<longrightarrow> word_of_int (k_result (k_ops s' ! i)) = c_nbytes (cb (k_ops s' ! i)))"
proof -
  from inv obtain g where g: "k_groups s gid = Some g"
    and fli: "\<forall>i \<in> ran (in_flight g). i < length (k_ops s)"
    and fo: "flight_ok (k_ops s) (in_flight g)" and p: "pending (k_kernel s) (ctx g) = mset_set (dom (in_flight g))"
    by (rule kernel_invE) blast
  have lib: "libaio_serves lib pending req" and err: "\<forall>a \<in> set (k_ops s). k_err a = 0"
    and rq: "\<And>x i. in_flight g x = Some i \<Longrightarrow> req (k_kernel s) (ctx g) x = c_nbytes (cb (k_ops s ! i))"
    using sv g by (simp_all add: kernel_serves_def)
  have "dom (in_flight g) \<noteq> {}" using fl g by (auto simp: kernel_flying_def)
  then have "pending (k_kernel s) (ctx g) \<noteq> {#}" by (simp add: p mset_set_empty_iff)
  with lib obtain d res k1 where k: "io_getevents lib (ctx g) (k_kernel s) = ((1, d, res), k1)"
    "word_of_int res = req (k_kernel s) (ctx g) d" "\<forall>d'. d' \<noteq> d \<longrightarrow> req k1 (ctx g) d' = req (k_kernel s) (ctx g) d'"
    unfolding libaio_serves_def by blast
  from kernel_wait_event [OF inv g k(1)] obtain i as arrs s' where i: "in_flight g d = Some i"
    and w: "kernel_wait lib gid s = Inr (i, s')" and s': "k_kernel s' = k1"
      "k_ops s' = (k_ops s)[i := (k_ops s ! i)\<lparr>k_result := as_int res\<rparr>]"
      "k_groups s' = (k_groups s)(gid \<mapsto> g\<lparr>in_flight := (in_flight g)(d := None), arrays := arrs\<rparr>)"
    by force
  have il: "i < length (k_ops s)" using fli i by (auto intro: ranI)
  have nb: "c_nbytes (cb (k_ops s' ! j)) = c_nbytes (cb (k_ops s ! j))" for j using il by (cases "j = i") (simp_all add: s')
  have len: "length (k_ops s') = length (k_ops s)" by (simp add: s')
  have "\<forall>a \<in> set (k_ops s'). k_err a = 0"
    using err il by (auto simp: s' dest!: set_update_subset_insert [THEN subsetD])
  moreover have "kernel_serves lib pending req gid s'"
    using lib calculation rq k(3) sv g len by (auto simp: kernel_serves_def nb s'(1,3) split: if_splits)
  ultimately show ?thesis
    using w il k(2) rq [OF i] err by (intro exI [of _ i] exI [of _ s']) (simp add: s' as_int_size)
qed

lemma update_op_serves:
  assumes "kernel_serves lib pending req gid s" and "\<And>a. c_nbytes (cb (f a)) = c_nbytes (cb a)"
    and "\<And>a. k_err (f a) = k_err a"
  shows "kernel_serves lib pending req gid (update_op i f s)"
proof -
  have "c_nbytes (cb (k_ops (update_op i f s) ! j)) = c_nbytes (cb (k_ops s ! j))" for j
    using assms(2) by (cases "j = i") (simp_all add: update_op_def)
  moreover have "\<forall>a \<in> set (k_ops (update_op i f s)). k_err a = 0"
    using assms(1,3) by (auto simp: update_op_def kernel_serves_def dest!: set_update_subset_insert [THEN subsetD])
  ultimately show ?thesis using assms(1) by (simp add: kernel_serves_def) (simp add: update_op_def)
qed

interpretation kernel_service: async_io_service "kernel_manager lib" gid "kernel_inv lib pending gid" "kernel_owns gid"
  "kernel_queued gid" "kernel_flying gid" "kernel_fresh lib pending gid" kernel_room "kernel_serves lib pending req gid"
  for lib pending gid req
proof
  fix s s' :: "'a kernel_state" and n
  assume "kernel_serves lib pending req gid s" and "m_create_group (kernel_manager lib) gid n s = Inr (True, s')"
  then show "kernel_serves lib pending req gid s'"
    by (auto simp: kernel_manager_def kernel_create_group_def kernel_serves_def Let_def split: if_splits prod.splits)
next
  fix s s' :: "'a kernel_state" and ty fd off rbuf wbuf n td t i
  assume "kernel_serves lib pending req gid s"
    and "m_construct (kernel_manager lib) ty fd off rbuf wbuf n gid td t s = Inr (i, s')"
  then show "kernel_serves lib pending req gid s'"
    by (auto simp: kernel_manager_def kernel_construct_def kernel_serves_def nth_append KernelAsyncIop_def
        split: if_splits) (blast intro: less_SucI)+
next
  fix s s' :: "'a kernel_state" and i e
  assume "kernel_serves lib pending req gid s" and "m_enqueue (kernel_manager lib) i s = Inr (e, s')"
  then show "kernel_serves lib pending req gid s'"
    by (auto simp: kernel_manager_def kernel_enqueue_def get_group_def kernel_serves_def bindE_Inr_iff Let_def
        split: if_splits option.splits)
next
  fix s :: "'a kernel_state" and i t off ty
  assume "kernel_serves lib pending req gid s"
  then show "kernel_serves lib pending req gid (set_time (kernel_manager lib) i t s) \<and>
      kernel_serves lib pending req gid (set_offset (kernel_manager lib) i off s) \<and>
      kernel_serves lib pending req gid (set_type (kernel_manager lib) i ty s)"
    by (simp add: kernel_manager_def update_op_serves k_set_time_def k_set_offset_def k_set_type_def)
next
  fix s :: "'a kernel_state"
  assume "kernel_inv lib pending gid s" and "kernel_serves lib pending req gid s"
  from kernel_submit_serves [OF this]
  show "\<exists>s'. m_submit (kernel_manager lib) gid s = Inr (0, s') \<and> kernel_serves lib pending req gid s'"
    by (simp add: kernel_manager_def)
next
  fix s :: "'a kernel_state"
  assume "kernel_inv lib pending gid s" and "kernel_serves lib pending req gid s" and "kernel_flying gid s \<noteq> {#}"
  from kernel_wait_serves [OF this]
  show "\<exists>i s'. m_wait (kernel_manager lib) gid s = Inr (i, s') \<and> kernel_serves lib pending req gid s' \<and>
      get_errno (kernel_manager lib) i s' = 0 \<and>
      (get_nbytes (kernel_manager lib) i s' < 2 ^ 31 \<longrightarrow>
        word_of_int (get_ret (kernel_manager lib) i s') = get_nbytes (kernel_manager lib) i s')"
    by (simp add: kernel_manager_def)
qed

section \<open>Properties\<close>

text \<open>
  The queue depth over kernel AIO is constant: however many rounds of wait, change, enqueue
  and submit a worker does, as long as they succeed the operations in flight of its group are the
  same ones as at the start and nothing is left queued.
\<close>

theorem kernel_rounds_keep_depth:
  assumes "kernel_inv lib pending gid s" and "kernel_queued gid s = {#}"
    and "foldE (\<lambda>pick s. bindE (io_round (kernel_manager lib) gid pick s)
      (\<lambda>(e, s'). if e \<noteq> 0 then Inl Undefined else Inr s')) picks s = Inr s'"
  shows "kernel_queued gid s' = {#} \<and> kernel_flying gid s' = kernel_flying gid s \<and>
    kernel_inv lib pending gid s'"
  using kernel.rounds_ok [OF assms] by simp

text \<open>A kernel that completes the requests of its one context in order, with 4096 bytes each.\<close>

definition fifo_lib :: "u64 list libaio" where
  "fifo_lib = \<lparr>io_queue_init = (\<lambda>n k. (0, 1, k)),
     io_submit = (\<lambda>c cbs k. (int (length cbs), k @ map cb_data cbs)),
     io_cancel = (\<lambda>c x k. k),
     io_getevents = (\<lambda>c k. case k of [] \<Rightarrow> ((0, 0, 0), k) | d # ds \<Rightarrow> ((1, d, 4096), ds))\<rparr>"

definition fifo_pending :: "u64 list \<Rightarrow> u64 \<Rightarrow> u64 multiset" where
  "fifo_pending k c = mset k"

lemma fifo_ok: "libaio_ok fifo_lib fifo_pending"
  by (auto simp: libaio_ok_def fifo_lib_def fifo_pending_def split: list.splits)

text \<open>Two operations of group 7 in flight, submitted together.\<close>

definition two_flying :: "u64 list kernel_state" where
  "two_flying = \<lparr>k_started = True,
     k_groups = [7 \<mapsto> \<lparr>ctx = 1, op_queue = [], arrays = {}, in_flight = [0 \<mapsto> 0, 1 \<mapsto> 1], next_flight = 2\<rparr>],
     k_locked = False,
     k_ops = [(KernelAsyncIop READ_IOP 3 0 100 100 4096 7 0 0)\<lparr>k_cb_array := Some 0\<rparr>,
              (KernelAsyncIop READ_IOP 3 4096 200 200 4096 7 0 0)\<lparr>k_cb_array := Some 0\<rparr>],
     k_arrays = [\<lparr>ca_size = 2, ca_items = [0, 1], items_left = 2, freed = False\<rparr>], k_kernel = [0, 1]\<rparr>"

lemma two_flying_inv: "kernel_inv fifo_lib fifo_pending 7 two_flying"
proof -
  let ?m = "[0 \<mapsto> 0, 1 \<mapsto> 1] :: u64 \<Rightarrow> nat option"
  have m: "?m f = Some i \<longleftrightarrow> f = 0 \<and> i = 0 \<or> f = 1 \<and> i = 1" for f i by auto
  have dom: "dom ?m = {0, 1}" by auto
  have ran: "ran ?m = {0, 1}" unfolding ran_def m by auto
  have it: "items_of 0 (k_ops two_flying) ?m = {0, 1}"
    unfolding items_of_def m by (auto simp: two_flying_def)
  have inj: "inj_on ?m (dom ?m)" unfolding dom by (simp add: inj_on_def)
  have ao: "arrays_ok (k_ops two_flying) ?m (k_arrays two_flying)"
    unfolding arrays_ok_def
  proof (intro allI impI)
    fix f i assume "?m f = Some i"
    then have "i < 2" unfolding m by auto
    then have "k_cb_array (k_ops two_flying ! i) = Some 0"
      by (cases i) (simp_all add: two_flying_def less_Suc_eq)
    then show "\<exists>aid<length (k_arrays two_flying). k_cb_array (k_ops two_flying ! i) = Some aid \<and>
        \<not> freed (k_arrays two_flying ! aid) \<and>
        unat (items_left (k_arrays two_flying ! aid)) = card (items_of aid (k_ops two_flying) ?m)"
      using it by (simp add: two_flying_def)
  qed
  have fo: "flight_ok (k_ops two_flying) ?m"
    using inj ran by (simp add: flight_ok_def two_flying_def)
  have "fifo_pending (k_kernel two_flying) 1 = mset_set (dom ?m)"
    unfolding dom by (simp add: fifo_pending_def two_flying_def)
  moreover have "i < length (k_ops two_flying) \<and> k_group_id (k_ops two_flying ! i) = 7" if "i \<in> ran ?m" for i
    using that unfolding ran by (auto simp: two_flying_def KernelAsyncIop_def)
  ultimately show ?thesis
    using fifo_ok fo ao by (simp add: kernel_inv_def two_flying_def)
qed

lemma kernel_rounds_keep_depth_witness:
  "\<exists>s'. foldE (\<lambda>pick s. bindE (io_round (kernel_manager fifo_lib) 7 pick s)
      (\<lambda>(e, s'). if e \<noteq> 0 then Inl Undefined else Inr s')) (replicate 3 (\<lambda>i s. (9, 8192, WRITE_IOP))) two_flying
      = Inr s' \<and> kernel_flying 7 s' = {#0, 1#}"
proof -
  let ?r = "foldE (\<lambda>pick s. bindE (io_round (kernel_manager fifo_lib) 7 pick s)
      (\<lambda>(e, s'). if e \<noteq> 0 then Inl Undefined else Inr s')) (replicate 3 (\<lambda>i s. (9, 8192, WRITE_IOP))) two_flying"
  have "(case ?r of Inl _ \<Rightarrow> False | Inr _ \<Rightarrow> True)" by code_simp
  then obtain s' where r: "?r = Inr s'" by (auto split: sum.splits)
  have q: "kernel_queued 7 two_flying = {#}" by (simp add: kernel_queued_def two_flying_def)
  have "kernel_flying 7 two_flying = {#0, 1#}"
    by (simp add: kernel_flying_def two_flying_def ran_map_upd)
  with kernel_rounds_keep_depth [OF two_flying_inv q r] r show ?thesis by simp
qed

text \<open>
  C14. Completion: for an event the kernel returns, \<open>wait\<close> returns an operation that was in flight
  under the event's id, with the event's result stored in it; it never follows a null pointer
  nor frees an array twice, and it frees the array of the operation exactly when no other
  operation in flight was submitted in it.
\<close>

theorem kernel_wait_frees_last:
  assumes "kernel_inv lib pending gid s" and "k_groups s gid = Some g"
    and "io_getevents lib (ctx g) (k_kernel s) = ((1, d, res), k1)"
  shows "\<exists>i aid s'. in_flight g d = Some i \<and> k_cb_array (k_ops s ! i) = Some aid \<and>
    kernel_wait lib gid s = Inr (i, s') \<and> k_result (k_ops s' ! i) = as_int res \<and> kernel_inv lib pending gid s' \<and>
    (freed (k_arrays s' ! aid) \<longleftrightarrow> items_of aid (k_ops s) (in_flight g) \<subseteq> {d}) \<and>
    (\<forall>j. j \<noteq> aid \<longrightarrow> k_arrays s' ! j = k_arrays s ! j)"
proof -
  from kernel_wait_event [OF assms] obtain i aid as s' where w: "in_flight g d = Some i"
    "k_cb_array (k_ops s ! i) = Some aid" "kernel_wait lib gid s = Inr (i, s')"
    and s': "k_arrays s' = as" "k_ops s' = (k_ops s)[i := (k_ops s ! i)\<lparr>k_result := as_int res\<rparr>]"
    and as: "\<forall>j. j \<noteq> aid \<longrightarrow> as ! j = k_arrays s ! j"
      "freed (as ! aid) \<longleftrightarrow> items_of aid (k_ops s) (in_flight g) \<subseteq> {d}"
    by force
  from kernel_wait_inv [OF assms(1) w(3)] have "kernel_owns gid s i" "kernel_inv lib pending gid s'" by blast+
  with w s' as show ?thesis by (auto simp: kernel_owns_def)
qed

lemma kernel_wait_frees_last_witness:
  "\<exists>i aid s'. kernel_wait fifo_lib 7 two_flying = Inr (i, s') \<and> k_result (k_ops s' ! i) = 4096 \<and>
    \<not> freed (k_arrays s' ! 0)"
proof -
  let ?m = "[0 \<mapsto> 0, 1 \<mapsto> 1] :: u64 \<Rightarrow> nat option"
  let ?g = "\<lparr>ctx = 1, op_queue = [], arrays = {}, in_flight = ?m, next_flight = 2\<rparr>"
  have g: "k_groups two_flying 7 = Some ?g" by (simp add: two_flying_def)
  have e: "io_getevents fifo_lib (ctx ?g) (k_kernel two_flying) = ((1, 0, 4096), [1])"
    by (simp add: fifo_lib_def two_flying_def)
  have r: "as_int 4096 = 4096" by (simp add: as_int_def)
  have r: "as_int 4096 = 4096" by (simp add: as_int_def)
  from kernel_wait_frees_last [OF two_flying_inv g e] obtain i aid s' where
    w: "?m 0 = Some i" "k_cb_array (k_ops two_flying ! i) = Some aid"
    "kernel_wait fifo_lib 7 two_flying = Inr (i, s')" "k_result (k_ops s' ! i) = 4096"
    "freed (k_arrays s' ! aid) \<longleftrightarrow> items_of aid (k_ops two_flying) ?m \<subseteq> {0}"
    unfolding r by auto
  then have a: "i = 0" "aid = 0" by (simp_all add: two_flying_def)
  have "1 \<in> items_of 0 (k_ops two_flying) ?m" by (simp add: items_of_def two_flying_def)
  with w a show ?thesis by auto
qed




text \<open>
  C16. Creating a group that exists, or one whose \<open>io_queue_init\<close> fails, returns false with
  \<open>groups_mutex\<close> still locked: every later call of any thread on any group that takes the
  mutex blocks forever.
\<close>

theorem kernel_failed_group_deadlocks:
  assumes "k_started s" and "kernel_create_group lib gid n s = Inr (False, s')"
  shows "kernel_create_group lib gid' n' s' = Inl Deadlock \<and> kernel_submit lib gid' s' = Inl Deadlock \<and>
    kernel_wait lib gid' s' = Inl Deadlock \<and> (i < length (k_ops s') \<longrightarrow> kernel_enqueue i s' = Inl Deadlock)"
proof -
  have "k_locked s' \<and> k_started s'"
    using assms by (auto simp: kernel_create_group_def Let_def split: if_splits prod.splits)
  then show ?thesis
    by (simp add: kernel_create_group_def kernel_submit_def kernel_wait_def kernel_enqueue_def get_group_def Let_def)
qed

lemma kernel_failed_group_deadlocks_witness:
  "\<exists>s'. kernel_create_group fifo_lib 7 2 two_flying = Inr (False, s') \<and>
    kernel_create_group fifo_lib 8 2 s' = Inl Deadlock"
proof -
  have s: "k_started two_flying" by (simp add: two_flying_def)
  have c: "kernel_create_group fifo_lib 7 2 two_flying = Inr (False, two_flying\<lparr>k_locked := True\<rparr>)"
    by (simp add: kernel_create_group_def two_flying_def Let_def)
  from kernel_failed_group_deadlocks [OF s c] c show ?thesis by blast
qed

end
