(* ===== verification/Posix_AIO.thy ===== *)
theory Posix_AIO
  imports Async_IO
begin

text \<open>
  The engine over POSIX AIO (\<open>src/src/posix_aio.h\<close>, \<open>src/src/posix_aio.cc\<close>): its operations,
  the queues and suspend vectors of its groups, the map of flight ids that all groups share, and
  the methods of \<open>_PosixAsyncIOManager\<close>. The \<open>aio_\<close> functions of the C library are the
  parameter \<open>posix_lib\<close>; a control block is identified by its operation. The locale
  \<open>async_io\<close> is interpreted on this engine too.
\<close>

section \<open>Data\<close>

record posix_iop =
  p_type :: iop_type
  p_group_id :: int
  a_fildes :: int
  a_offset :: off_t
  a_buf :: u64
  a_nbytes :: size_t
  sival_int :: u32
  p_target_data :: nat
  p_time :: "u64 option"
  p_read_buf :: u64
  p_write_buf :: u64

record 'k posix_state =
  p_started :: bool
  group_queues :: "int \<Rightarrow> nat list option"
  suspend_vecs :: "int \<Rightarrow> nat list option"
  suspend_in_flight :: "u32 \<Rightarrow> nat option"
  next_flight_id :: u32
  p_ops :: "posix_iop list"
  p_kernel :: 'k

record 'k posix_lib =
  aio_init :: "int \<Rightarrow> 'k \<Rightarrow> 'k"
  aio_read :: "nat \<Rightarrow> posix_iop \<Rightarrow> 'k \<Rightarrow> int \<times> 'k"
  aio_write :: "nat \<Rightarrow> posix_iop \<Rightarrow> 'k \<Rightarrow> int \<times> 'k"
  aio_suspend :: "nat list \<Rightarrow> 'k \<Rightarrow> int \<times> 'k"
  aio_error :: "nat \<Rightarrow> 'k \<Rightarrow> int"
  aio_return :: "nat \<Rightarrow> 'k \<Rightarrow> int"

definition EINPROGRESS :: int where "EINPROGRESS = 115"

definition PosixSuspendAsyncIOManager :: "'k \<Rightarrow> 'k posix_state" where
  "PosixSuspendAsyncIOManager k = \<lparr>p_started = False, group_queues = (\<lambda>_. None), suspend_vecs = (\<lambda>_. None),
     suspend_in_flight = (\<lambda>_. None), next_flight_id = 0, p_ops = [], p_kernel = k\<rparr>"

section \<open>Operations\<close>

definition PosixAsyncIop ::
  "iop_type \<Rightarrow> int \<Rightarrow> off_t \<Rightarrow> u64 \<Rightarrow> u64 \<Rightarrow> size_t \<Rightarrow> int \<Rightarrow> nat \<Rightarrow> u64 \<Rightarrow> posix_iop" where
  "PosixAsyncIop t fd off rbuf wbuf nbytes gid tdata time_stamp =
    \<lparr>p_type = t, p_group_id = gid, a_fildes = fd, a_offset = off,
     a_buf = (if t = READ_IOP then rbuf else wbuf), a_nbytes = nbytes, sival_int = 0,
     p_target_data = tdata, p_time = None, p_read_buf = rbuf, p_write_buf = wbuf\<rparr>"

definition p_update_op :: "nat \<Rightarrow> (posix_iop \<Rightarrow> posix_iop) \<Rightarrow> 'k posix_state \<Rightarrow> 'k posix_state" where
  "p_update_op i f s = (if i < length (p_ops s) then s\<lparr>p_ops := (p_ops s)[i := f (p_ops s ! i)]\<rparr> else s)"

definition p_set_type :: "iop_type \<Rightarrow> posix_iop \<Rightarrow> posix_iop" where
  "p_set_type t a = a\<lparr>p_type := t, a_buf := if t = READ_IOP then p_read_buf a else p_write_buf a\<rparr>"

definition p_set_offset :: "off_t \<Rightarrow> posix_iop \<Rightarrow> posix_iop" where
  "p_set_offset off a = a\<lparr>a_offset := off\<rparr>"

definition p_set_fd :: "int \<Rightarrow> posix_iop \<Rightarrow> posix_iop" where
  "p_set_fd fd a = a\<lparr>a_fildes := fd\<rparr>"

definition p_set_nbytes :: "size_t \<Rightarrow> posix_iop \<Rightarrow> posix_iop" where
  "p_set_nbytes n a = a\<lparr>a_nbytes := n\<rparr>"

definition p_set_group_id :: "int \<Rightarrow> posix_iop \<Rightarrow> posix_iop" where
  "p_set_group_id gid a = a\<lparr>p_group_id := gid\<rparr>"

definition p_set_target_data :: "nat \<Rightarrow> posix_iop \<Rightarrow> posix_iop" where
  "p_set_target_data td a = a\<lparr>p_target_data := td\<rparr>"

definition p_set_time :: "u64 \<Rightarrow> posix_iop \<Rightarrow> posix_iop" where
  "p_set_time t a = a\<lparr>p_time := Some t\<rparr>"

definition p_get_time :: "posix_iop \<Rightarrow> fault + u64" where
  "p_get_time a = (case p_time a of None \<Rightarrow> Inl Undefined | Some t \<Rightarrow> Inr t)"

section \<open>The manager\<close>

definition posix_start :: "'k posix_lib \<Rightarrow> int \<Rightarrow> 'k posix_state \<Rightarrow> fault + bool \<times> 'k posix_state" where
  "posix_start lib n s = Inr (True, s\<lparr>p_kernel := aio_init lib n (p_kernel s), p_started := True\<rparr>)"

definition posix_create_group :: "int \<Rightarrow> int \<Rightarrow> 'k posix_state \<Rightarrow> fault + bool \<times> 'k posix_state" where
  "posix_create_group gid n s =
    (if \<not> p_started s then Inl Assert_Failed
     else if group_queues s gid \<noteq> None then Inr (False, s)
     else
       let s1 = s\<lparr>group_queues := (group_queues s)(gid \<mapsto> [])\<rparr>
       in if suspend_vecs s1 gid \<noteq> None then Inr (False, s1)
          else Inr (True, s1\<lparr>suspend_vecs := (suspend_vecs s1)(gid \<mapsto> [])\<rparr>))"

definition posix_construct ::
  "iop_type \<Rightarrow> int \<Rightarrow> off_t \<Rightarrow> u64 \<Rightarrow> u64 \<Rightarrow> size_t \<Rightarrow> int \<Rightarrow> nat \<Rightarrow> u64 \<Rightarrow> 'k posix_state
    \<Rightarrow> fault + nat \<times> 'k posix_state" where
  "posix_construct t fd off rbuf wbuf nbytes gid tdata time_stamp s =
    (if \<not> p_started s then Inl Assert_Failed
     else Inr (length (p_ops s),
       s\<lparr>p_ops := p_ops s @ [PosixAsyncIop t fd off rbuf wbuf nbytes gid tdata time_stamp]\<rparr>))"

definition posix_enqueue :: "nat \<Rightarrow> 'k posix_state \<Rightarrow> fault + int \<times> 'k posix_state" where
  "posix_enqueue i s =
    (if \<not> p_started s then Inl Assert_Failed
     else if i \<ge> length (p_ops s) then Inl Undefined
     else
       let gid = p_group_id (p_ops s ! i)
       in (case group_queues s gid of
             None \<Rightarrow> Inl Undefined
           | Some q \<Rightarrow> Inr (0, s\<lparr>group_queues := (group_queues s)(gid \<mapsto> q @ [i])\<rparr>)))"

text \<open>
  The loop of \<open>submit\<close>, over the queue from its back. An operation that cannot be started has
  already been taken off the queue.
\<close>

primrec posix_submit_loop ::
  "'k posix_lib \<Rightarrow> int \<Rightarrow> nat list \<Rightarrow> 'k posix_state \<Rightarrow> fault + int \<times> 'k posix_state" where
  "posix_submit_loop lib gid [] s = Inr (0, s)"
| "posix_submit_loop lib gid (i # back) s =
    (if i \<ge> length (p_ops s) then Inl Undefined
     else
       let a = p_ops s ! i;
           (ret, k) = (if p_type a = READ_IOP then aio_read lib i a (p_kernel s)
                       else aio_write lib i a (p_kernel s));
           s1 = s\<lparr>group_queues := (group_queues s)(gid \<mapsto> rev back), p_kernel := k\<rparr>
       in if ret \<noteq> 0 then Inr (ret, s1)
          else (case suspend_vecs s1 gid of
              None \<Rightarrow> Inl Undefined
            | Some v \<Rightarrow>
                (case free_id (suspend_in_flight s1) (next_flight_id s1) of
                   None \<Rightarrow> Inl Diverges
                 | Some f \<Rightarrow> posix_submit_loop lib gid back
                     (s1\<lparr>suspend_vecs := (suspend_vecs s1)(gid \<mapsto> v @ [i]),
                         p_ops := (p_ops s1)[i := a\<lparr>sival_int := f\<rparr>],
                         suspend_in_flight := (suspend_in_flight s1)(f \<mapsto> i),
                         next_flight_id := f + 1\<rparr>))))"

definition posix_submit :: "'k posix_lib \<Rightarrow> int \<Rightarrow> 'k posix_state \<Rightarrow> fault + int \<times> 'k posix_state" where
  "posix_submit lib gid s =
    (if \<not> p_started s then Inl Assert_Failed
     else (case group_queues s gid of
         None \<Rightarrow> Inl Undefined
       | Some q \<Rightarrow> posix_submit_loop lib gid (rev q) s))"

text \<open>The scan of \<open>wait\<close>: the first operation that is not in progress any more, and the rest.\<close>

primrec first_done :: "(nat \<Rightarrow> int) \<Rightarrow> nat list \<Rightarrow> (nat \<times> nat list) option" where
  "first_done error_of [] = None"
| "first_done error_of (i # v) =
    (if error_of i = EINPROGRESS
     then (case first_done error_of v of None \<Rightarrow> None | Some (j, v') \<Rightarrow> Some (j, i # v'))
     else Some (i, v))"

text \<open>The address of the first element of an empty vector is taken; a null operation is returned for an unknown id.\<close>

definition posix_wait :: "'k posix_lib \<Rightarrow> int \<Rightarrow> 'k posix_state \<Rightarrow> fault + nat \<times> 'k posix_state" where
  "posix_wait lib gid s =
    (if \<not> p_started s then Inl Assert_Failed
     else (case suspend_vecs s gid of
         None \<Rightarrow> Inl Undefined
       | Some v \<Rightarrow>
           if v = [] then Inl Undefined
           else
             let (err, k) = aio_suspend lib v (p_kernel s)
             in if err \<noteq> 0 then Inl Exit_Failure
                else (case first_done (\<lambda>i. aio_error lib i k) v of
                    None \<Rightarrow> Inl Exit_Failure
                  | Some (j, v') \<Rightarrow>
                      let f = sival_int (p_ops s ! j)
                      in (case suspend_in_flight s f of
                            None \<Rightarrow> Inl Undefined
                          | Some i \<Rightarrow> Inr (i, s\<lparr>p_kernel := k, suspend_vecs := (suspend_vecs s)(gid \<mapsto> v'),
                              suspend_in_flight := (suspend_in_flight s)(f := None)\<rparr>)))))"

definition posix_manager :: "'k posix_lib \<Rightarrow> 'k posix_state io_manager" where
  "posix_manager lib = \<lparr>
     m_start = posix_start lib, m_create_group = posix_create_group, m_construct = posix_construct,
     m_enqueue = posix_enqueue, m_submit = posix_submit lib, m_wait = posix_wait lib,
     get_type = (\<lambda>i s. p_type (p_ops s ! i)), set_type = (\<lambda>i t. p_update_op i (p_set_type t)),
     get_fd = (\<lambda>i s. a_fildes (p_ops s ! i)), set_fd = (\<lambda>i fd. p_update_op i (p_set_fd fd)),
     get_offset = (\<lambda>i s. a_offset (p_ops s ! i)), set_offset = (\<lambda>i off. p_update_op i (p_set_offset off)),
     get_nbytes = (\<lambda>i s. a_nbytes (p_ops s ! i)), set_nbytes = (\<lambda>i n. p_update_op i (p_set_nbytes n)),
     get_group_id = (\<lambda>i s. p_group_id (p_ops s ! i)), set_group_id = (\<lambda>i gid. p_update_op i (p_set_group_id gid)),
     get_time = (\<lambda>i s. p_get_time (p_ops s ! i)), set_time = (\<lambda>i t. p_update_op i (p_set_time t)),
     get_target_data = (\<lambda>i s. p_target_data (p_ops s ! i)),
     set_target_data = (\<lambda>i td. p_update_op i (p_set_target_data td)),
     get_ret = (\<lambda>i s. as_int (aio_return lib i (p_kernel s))), get_errno = (\<lambda>i s. aio_error lib i (p_kernel s))\<rparr>"

section \<open>The invariant\<close>

text \<open>
  The flight ids and the operations that carry them correspond one to one, and the operations of
  the group in flight are those in its suspend vector.
\<close>

definition posix_inv :: "int \<Rightarrow> 'k posix_state \<Rightarrow> bool" where
  "posix_inv gid s \<longleftrightarrow> p_started s \<and> length (p_ops s) < 2 ^ 31 \<and>
    (\<exists>q v. group_queues s gid = Some q \<and> suspend_vecs s gid = Some v \<and> distinct (q @ v) \<and>
      (\<forall>i \<in> set (q @ v). i < length (p_ops s) \<and> p_group_id (p_ops s ! i) = gid) \<and>
      (\<forall>f i. suspend_in_flight s f = Some i \<longrightarrow> i < length (p_ops s) \<and> sival_int (p_ops s ! i) = f \<and>
        (p_group_id (p_ops s ! i) = gid \<longrightarrow> i \<in> set v)) \<and>
      (\<forall>i \<in> set v. suspend_in_flight s (sival_int (p_ops s ! i)) = Some i))"

definition posix_owns :: "int \<Rightarrow> 'k posix_state \<Rightarrow> nat \<Rightarrow> bool" where
  "posix_owns gid s i \<longleftrightarrow> i < length (p_ops s) \<and> p_group_id (p_ops s ! i) = gid"

definition posix_queued :: "int \<Rightarrow> 'k posix_state \<Rightarrow> nat multiset" where
  "posix_queued gid s = (case group_queues s gid of None \<Rightarrow> {#} | Some q \<Rightarrow> mset q)"

definition posix_flying :: "int \<Rightarrow> 'k posix_state \<Rightarrow> nat multiset" where
  "posix_flying gid s = (case suspend_vecs s gid of None \<Rightarrow> {#} | Some v \<Rightarrow> mset v)"

lemma posix_ids_left:
  fixes m :: "u32 \<Rightarrow> nat option"
  assumes "\<And>f i. m f = Some i \<Longrightarrow> i < n \<and> h i = (f :: u32)" and "n < 2 ^ 31"
  shows "card (dom m) < 2 ^ LENGTH(32)"
proof -
  have "dom m \<subseteq> h ` {..<n}"
  proof
    fix f assume "f \<in> dom m"
    then obtain i where "m f = Some i" by blast
    with assms(1) have "i < n" "f = h i" by auto
    then show "f \<in> h ` {..<n}" by simp
  qed
  then have "card (dom m) \<le> card (h ` {..<n})" by (intro card_mono) auto
  also have "\<dots> \<le> n" using card_image_le [of "{..<n}" h] by simp
  finally show ?thesis using assms(2) by simp
qed

lemma first_done_split:
  "first_done e v = Some (j, v') \<Longrightarrow> \<exists>a b. v = a @ j # b \<and> v' = a @ b \<and> e j \<noteq> EINPROGRESS \<and> (\<forall>i \<in> set a. e i = EINPROGRESS)"
proof (induction v arbitrary: v')
  case Nil
  then show ?case by simp
next
  case (Cons i v)
  show ?case
  proof (cases "e i = EINPROGRESS")
    case False
    with Cons.prems show ?thesis by (intro exI [of _ "[]"] exI [of _ v]) auto
  next
    case True
    with Cons.prems obtain v1 where "first_done e v = Some (j, v1)" "v' = i # v1"
      by (auto split: option.splits)
    with Cons.IH obtain a b where "v = a @ j # b" "v1 = a @ b" "e j \<noteq> EINPROGRESS" "\<forall>i \<in> set a. e i = EINPROGRESS"
      by blast
    with True \<open>v' = i # v1\<close> show ?thesis by (intro exI [of _ "i # a"] exI [of _ b]) auto
  qed
qed

text \<open>
  The invariant with the state taken apart, for the queue \<open>q\<close> and the vector \<open>v\<close> of the group.
\<close>

definition posix_parts ::
  "int \<Rightarrow> posix_iop list \<Rightarrow> (u32 \<Rightarrow> nat option) \<Rightarrow> nat list \<Rightarrow> nat list \<Rightarrow> bool" where
  "posix_parts gid ops m q v \<longleftrightarrow> length ops < 2 ^ 31 \<and> distinct (q @ v) \<and>
    (\<forall>i \<in> set (q @ v). i < length ops \<and> p_group_id (ops ! i) = gid) \<and>
    (\<forall>f i. m f = Some i \<longrightarrow> i < length ops \<and> sival_int (ops ! i) = f \<and>
      (p_group_id (ops ! i) = gid \<longrightarrow> i \<in> set v)) \<and>
    (\<forall>i \<in> set v. m (sival_int (ops ! i)) = Some i)"

lemma posix_inv_parts:
  "posix_inv gid s \<longleftrightarrow> p_started s \<and> (\<exists>q v. group_queues s gid = Some q \<and> suspend_vecs s gid = Some v \<and>
    posix_parts gid (p_ops s) (suspend_in_flight s) q v)"
  by (auto simp: posix_inv_def posix_parts_def)

lemma posix_parts_free:
  assumes "posix_parts gid ops m q v"
  shows "\<exists>f. free_id m n = Some f \<and> m f = None"
proof -
  have "\<And>f i. m f = Some i \<Longrightarrow> i < length ops \<and> sival_int (ops ! i) = f" and "length ops < 2 ^ 31"
    using assms by (auto simp: posix_parts_def)
  then have "card (dom m) < 2 ^ LENGTH(32)" by (rule posix_ids_left [where h = "\<lambda>i. sival_int (ops ! i)"])
  then show ?thesis by (rule free_id_ends)
qed

text \<open>An operation of the queue starts: it gets the fresh id \<open>f\<close> and moves to the vector.\<close>

lemma posix_parts_start:
  assumes p: "posix_parts gid ops m q v" and q: "q = q' @ [i]" and f: "m f = None"
  shows "posix_parts gid (ops[i := (ops ! i)\<lparr>sival_int := f\<rparr>]) (m(f \<mapsto> i)) q' (v @ [i])"
proof -
  let ?ops = "ops[i := (ops ! i)\<lparr>sival_int := f\<rparr>]"
  have i: "i < length ops" "p_group_id (ops ! i) = gid" "i \<notin> set v" "i \<notin> set q'"
    using p q by (auto simp: posix_parts_def)
  have ni: "m x \<noteq> Some i" for x using p i by (auto simp: posix_parts_def)
  have fld: "p_group_id (?ops ! j) = p_group_id (ops ! j)" for j using i by (cases "j = i") simp_all
  have sv: "sival_int (?ops ! j) = (if j = i then f else sival_int (ops ! j))" for j using i by simp
  have m: "(m(f \<mapsto> i)) x = Some j \<longleftrightarrow> x = f \<and> j = i \<or> m x = Some j" for x j using f by auto
  have "\<forall>x j. (m(f \<mapsto> i)) x = Some j \<longrightarrow> j < length ?ops \<and> sival_int (?ops ! j) = x \<and>
      (p_group_id (?ops ! j) = gid \<longrightarrow> j \<in> set (v @ [i]))"
    using p i ni unfolding m fld sv by (auto simp: posix_parts_def)
  moreover have "\<forall>j \<in> set (v @ [i]). (m(f \<mapsto> i)) (sival_int (?ops ! j)) = Some j"
    using p i f unfolding m sv by (auto simp: posix_parts_def)
  moreover have "distinct (q' @ v @ [i])" using p q by (auto simp: posix_parts_def)
  moreover have "length ?ops < 2 ^ 31" using p by (simp add: posix_parts_def)
  ultimately show ?thesis using p q fld unfolding posix_parts_def by auto
qed

lemma posix_submit_loop_inv:
  assumes "p_started s" and "group_queues s gid = Some q" and "suspend_vecs s gid = Some v"
    and "posix_parts gid (p_ops s) (suspend_in_flight s) q v"
  shows "\<exists>err s'. posix_submit_loop lib gid (rev q) s = Inr (err, s') \<and>
    (err = 0 \<longrightarrow> posix_inv gid s' \<and> posix_owns gid s' = posix_owns gid s \<and>
      (q \<noteq> [] \<longrightarrow> group_queues s' gid = Some []) \<and> suspend_vecs s' gid = Some (v @ rev q)) \<and>
    (err \<noteq> 0 \<longrightarrow> (\<exists>q' i started. q = q' @ [i] @ rev started \<and> group_queues s' gid = Some q' \<and>
      suspend_vecs s' gid = Some (v @ started)))"
  using assms
proof (induction q arbitrary: s v rule: rev_induct)
  case Nil
  then show ?case by (auto simp: posix_inv_parts)
next
  case (snoc i q)
  let ?a = "p_ops s ! i"
  have i: "i < length (p_ops s)" using snoc.prems(4) by (simp add: posix_parts_def)
  obtain ret k where r: "(if p_type ?a = READ_IOP then aio_read lib i ?a (p_kernel s)
      else aio_write lib i ?a (p_kernel s)) = (ret, k)" by force
  let ?s1 = "s\<lparr>group_queues := (group_queues s)(gid \<mapsto> q), p_kernel := k\<rparr>"
  show ?case
  proof (cases "ret = 0")
    case False
    have "posix_submit_loop lib gid (rev (q @ [i])) s = Inr (ret, ?s1)"
      using i r False by (simp add: Let_def)
    with False snoc.prems(3) show ?thesis
      by (intro exI [of _ ret] exI [of _ ?s1]) auto
  next
    case True
    from posix_parts_free [OF snoc.prems(4)] obtain f where
      f: "free_id (suspend_in_flight s) (next_flight_id s) = Some f" "suspend_in_flight s f = None" by blast
    let ?s2 = "?s1\<lparr>suspend_vecs := (suspend_vecs s)(gid \<mapsto> v @ [i]),
        p_ops := (p_ops s)[i := ?a\<lparr>sival_int := f\<rparr>],
        suspend_in_flight := (suspend_in_flight s)(f \<mapsto> i), next_flight_id := f + 1\<rparr>"
    have step: "posix_submit_loop lib gid (rev (q @ [i])) s = posix_submit_loop lib gid (rev q) ?s2"
      using i r True snoc.prems(3) f(1) by (simp add: Let_def)
    have parts: "posix_parts gid (p_ops ?s2) (suspend_in_flight ?s2) q (v @ [i])"
      using posix_parts_start [OF snoc.prems(4) refl f(2)] by simp
    have owns: "posix_owns gid ?s2 = posix_owns gid s"
    proof
      fix j show "posix_owns gid ?s2 j = posix_owns gid s j"
        using i by (cases "j = i") (simp_all add: posix_owns_def)
    qed
    have "p_started ?s2" "group_queues ?s2 gid = Some q" "suspend_vecs ?s2 gid = Some (v @ [i])"
      using snoc.prems(1) by simp_all
    from snoc.IH [OF this parts] obtain err s' where
      l: "posix_submit_loop lib gid (rev q) ?s2 = Inr (err, s')" and
      z: "err = 0 \<longrightarrow> posix_inv gid s' \<and> posix_owns gid s' = posix_owns gid ?s2 \<and>
        (q \<noteq> [] \<longrightarrow> group_queues s' gid = Some []) \<and> suspend_vecs s' gid = Some ((v @ [i]) @ rev q)" and
      nz: "err \<noteq> 0 \<longrightarrow> (\<exists>q' j started. q = q' @ [j] @ rev started \<and> group_queues s' gid = Some q' \<and>
        suspend_vecs s' gid = Some ((v @ [i]) @ started))"
      by blast
    have "group_queues s' gid = Some []" if "err = 0"
    proof (cases "q = []")
      case True
      with l show ?thesis by auto
    next
      case False
      with z that show ?thesis by blast
    qed
    moreover have "\<exists>q' j started. q @ [i] = q' @ [j] @ rev started \<and> group_queues s' gid = Some q' \<and>
        suspend_vecs s' gid = Some (v @ started)" if "err \<noteq> 0"
    proof -
      from nz that obtain q' j st where "q = q' @ [j] @ rev st" "group_queues s' gid = Some q'"
        "suspend_vecs s' gid = Some ((v @ [i]) @ st)" by blast
      then show ?thesis by (intro exI [of _ q'] exI [of _ j] exI [of _ "i # st"]) simp
    qed
    ultimately show ?thesis using step l z owns by auto
  qed
qed

lemma posix_submit_inv:
  assumes "posix_inv gid s" and r: "posix_submit lib gid s = Inr (0, s')"
  shows "posix_inv gid s' \<and> posix_owns gid s' = posix_owns gid s \<and>
    posix_queued gid s' = {#} \<and> posix_flying gid s' = posix_queued gid s + posix_flying gid s"
proof -
  from assms(1) obtain q v where s: "p_started s" "group_queues s gid = Some q" "suspend_vecs s gid = Some v"
    "posix_parts gid (p_ops s) (suspend_in_flight s) q v" by (auto simp: posix_inv_parts)
  have l: "posix_submit_loop lib gid (rev q) s = Inr (0, s')" using r s by (simp add: posix_submit_def)
  with posix_submit_loop_inv [OF s, of lib] have
    z: "posix_inv gid s'" "posix_owns gid s' = posix_owns gid s" "suspend_vecs s' gid = Some (v @ rev q)"
      "q \<noteq> [] \<longrightarrow> group_queues s' gid = Some []" by auto
  have "group_queues s' gid = Some []" using z(4) l s(2) by (cases "q = []") auto
  with z s show ?thesis by (simp add: posix_queued_def posix_flying_def)
qed

lemma posix_wait_inv:
  assumes inv: "posix_inv gid s" and r: "posix_wait lib gid s = Inr (i, s')"
  shows "posix_inv gid s' \<and> posix_owns gid s' = posix_owns gid s \<and> posix_owns gid s i \<and>
    posix_queued gid s' = posix_queued gid s \<and> posix_flying gid s = add_mset i (posix_flying gid s')"
proof -
  from inv obtain q v where s: "p_started s" "group_queues s gid = Some q" "suspend_vecs s gid = Some v"
    and p: "posix_parts gid (p_ops s) (suspend_in_flight s) q v" by (auto simp: posix_inv_parts)
  let ?m = "suspend_in_flight s"
  obtain err k where k: "aio_suspend lib v (p_kernel s) = (err, k)" by force
  from r s k obtain j v' where d: "first_done (\<lambda>i. aio_error lib i k) v = Some (j, v')"
    by (auto simp: posix_wait_def Let_def split: if_splits option.splits)
  from first_done_split [OF d] obtain a b where v: "v = a @ j # b" "v' = a @ b" by blast
  let ?f = "sival_int (p_ops s ! j)"
  have mj: "?m ?f = Some j" using p v by (simp add: posix_parts_def)
  from r s k d mj have e: "i = j" "s' = s\<lparr>p_kernel := k, suspend_vecs := (suspend_vecs s)(gid \<mapsto> v'),
      suspend_in_flight := ?m(?f := None)\<rparr>"
    by (auto simp: posix_wait_def Let_def split: if_splits)
  have jv: "j \<notin> set v'" "set v = insert j (set v')" using p v by (auto simp: posix_parts_def)
  have other: "x = ?f" if "?m x = Some j" for x using p that by (auto simp: posix_parts_def)
  have "posix_parts gid (p_ops s) (?m(?f := None)) q v'"
    unfolding posix_parts_def
  proof (intro conjI ballI allI impI)
    show "distinct (q @ v')" using p v by (auto simp: posix_parts_def)
  next
    fix x n assume "(?m(?f := None)) x = Some n"
    then have n: "?m x = Some n" "x \<noteq> ?f" by (auto split: if_splits)
    with p show "n < length (p_ops s)" "sival_int (p_ops s ! n) = x" by (auto simp: posix_parts_def)
    assume "p_group_id (p_ops s ! n) = gid"
    with p n have "n \<in> set v" by (auto simp: posix_parts_def)
    moreover have "n \<noteq> j" using n \<open>sival_int (p_ops s ! n) = x\<close> by auto
    ultimately show "n \<in> set v'" using jv by simp
  next
    fix n assume "n \<in> set v'"
    with p jv have "?m (sival_int (p_ops s ! n)) = Some n" "n \<noteq> j" by (auto simp: posix_parts_def)
    with mj show "(?m(?f := None)) (sival_int (p_ops s ! n)) = Some n" by auto
  qed (use p jv in \<open>auto simp: posix_parts_def\<close>)
  then have "posix_inv gid s'" using s by (simp add: posix_inv_parts e)
  moreover have "posix_owns gid s i" using p v e by (simp add: posix_owns_def posix_parts_def)
  ultimately show ?thesis
    using s v by (simp add: e posix_owns_def [abs_def] posix_queued_def posix_flying_def)
qed

lemma posix_enqueue_inv:
  assumes inv: "posix_inv gid s" and own: "posix_owns gid s i"
    and new: "i \<notin># posix_queued gid s + posix_flying gid s"
  shows "\<exists>s'. posix_enqueue i s = Inr (0, s') \<and> posix_inv gid s' \<and> posix_owns gid s' = posix_owns gid s \<and>
    posix_queued gid s' = add_mset i (posix_queued gid s) \<and> posix_flying gid s' = posix_flying gid s"
proof -
  from inv obtain q v where s: "p_started s" "group_queues s gid = Some q" "suspend_vecs s gid = Some v"
    and p: "posix_parts gid (p_ops s) (suspend_in_flight s) q v" by (auto simp: posix_inv_parts)
  have "posix_parts gid (p_ops s) (suspend_in_flight s) (q @ [i]) v"
    using p own new s by (auto simp: posix_parts_def posix_owns_def posix_queued_def posix_flying_def)
  with s own show ?thesis
    by (simp add: posix_enqueue_def posix_owns_def [abs_def] posix_inv_parts posix_queued_def posix_flying_def)
qed

lemma p_update_op_inv:
  assumes inv: "posix_inv gid s"
    and f: "\<And>a. p_group_id (f a) = p_group_id a" "\<And>a. sival_int (f a) = sival_int a"
  shows "posix_inv gid (p_update_op i f s) \<and> posix_owns gid (p_update_op i f s) = posix_owns gid s \<and>
    posix_queued gid (p_update_op i f s) = posix_queued gid s \<and>
    posix_flying gid (p_update_op i f s) = posix_flying gid s"
proof (cases "i < length (p_ops s)")
  case True
  let ?ops = "(p_ops s)[i := f (p_ops s ! i)]"
  have fld: "p_group_id (?ops ! j) = p_group_id (p_ops s ! j)" "sival_int (?ops ! j) = sival_int (p_ops s ! j)" for j
    using True f by (cases "j = i"; simp)+
  show ?thesis
    using inv True by (simp add: p_update_op_def posix_inv_parts posix_parts_def fld posix_owns_def [abs_def]
        posix_queued_def posix_flying_def)
next
  case False
  then show ?thesis using inv by (simp add: p_update_op_def)
qed

interpretation posix: async_io "posix_manager lib" gid "posix_inv gid" "posix_owns gid"
  "posix_queued gid" "posix_flying gid" for lib gid
proof
  fix s :: "'a posix_state" and i
  assume inv: "posix_inv gid s" and "i \<in># posix_flying gid s"
  from inv obtain q v where s: "group_queues s gid = Some q" "suspend_vecs s gid = Some v" "distinct (q @ v)"
    by (auto simp: posix_inv_def)
  with \<open>i \<in># posix_flying gid s\<close> have "count (mset (q @ v)) i = 1"
    by (subst distinct_count_atmost_1 [THEN iffD1]) (auto simp: posix_flying_def)
  with s show "count (posix_queued gid s + posix_flying gid s) i = 1"
    by (simp add: posix_queued_def posix_flying_def)
next
  fix s s' :: "'a posix_state" and i t off ty
  assume i: "posix_inv gid s" and "s' \<in> {set_time (posix_manager lib) i t s,
    set_offset (posix_manager lib) i off s, set_type (posix_manager lib) i ty s}"
  then consider "s' = p_update_op i (p_set_time t) s" | "s' = p_update_op i (p_set_offset off) s"
    | "s' = p_update_op i (p_set_type ty) s" by (auto simp: posix_manager_def)
  then show "posix_inv gid s' \<and> posix_owns gid s' = posix_owns gid s \<and>
      posix_queued gid s' = posix_queued gid s \<and> posix_flying gid s' = posix_flying gid s"
    by cases (use p_update_op_inv [OF i] in \<open>simp_all add: p_set_time_def p_set_offset_def p_set_type_def\<close>)
qed (use posix_enqueue_inv posix_submit_inv posix_wait_inv in \<open>simp_all add: posix_manager_def\<close>)

lemma posix_submit_loop_keeps:
  assumes "posix_submit_loop lib gid q s = Inr (e, s')"
  shows "p_target_data (p_ops s' ! j) = p_target_data (p_ops s ! j) \<and> a_offset (p_ops s' ! j) = a_offset (p_ops s ! j) \<and>
    a_nbytes (p_ops s' ! j) = a_nbytes (p_ops s ! j)"
  using assms
proof (induction q arbitrary: s)
  case Nil
  then show ?case by simp
next
  case (Cons i q)
  obtain ret k where r: "(if p_type (p_ops s ! i) = READ_IOP then aio_read lib i (p_ops s ! i) (p_kernel s)
      else aio_write lib i (p_ops s ! i) (p_kernel s)) = (ret, k)" by force
  show ?case
  proof (cases "ret = 0")
    case False
    with Cons.prems r show ?thesis by (auto simp: Let_def split: if_splits)
  next
    case True
    from Cons.prems r True obtain s1 f where l: "posix_submit_loop lib gid q s1 = Inr (e, s')"
      and s1: "p_ops s1 = (p_ops s)[i := (p_ops s ! i)\<lparr>sival_int := f\<rparr>]" and i: "i < length (p_ops s)"
      by (auto simp: Let_def split: if_splits option.splits)
    have "p_target_data (p_ops s1 ! j) = p_target_data (p_ops s ! j) \<and> a_offset (p_ops s1 ! j) = a_offset (p_ops s ! j) \<and>
    a_nbytes (p_ops s1 ! j) = a_nbytes (p_ops s ! j)"
      using i s1 by (cases "j = i") simp_all
    with Cons.IH [OF l] show ?thesis by simp
  qed
qed

lemma posix_submit_keeps:
  assumes "posix_submit lib gid s = Inr (e, s')"
  shows "p_target_data (p_ops s' ! j) = p_target_data (p_ops s ! j) \<and> a_offset (p_ops s' ! j) = a_offset (p_ops s ! j) \<and>
    a_nbytes (p_ops s' ! j) = a_nbytes (p_ops s ! j)"
  using assms posix_submit_loop_keeps [of lib gid _ s e s' j]
  by (simp add: posix_submit_def split: if_splits option.splits)

lemma p_update_op_keeps:
  assumes "\<And>a. p_target_data (f a) = p_target_data a" and "\<And>a. a_offset (f a) = a_offset a"
    and "\<And>a. a_nbytes (f a) = a_nbytes a"
  shows "p_target_data (p_ops (p_update_op i f s) ! j) = p_target_data (p_ops s ! j) \<and>
    a_offset (p_ops (p_update_op i f s) ! j) = a_offset (p_ops s ! j) \<and>
    a_nbytes (p_ops (p_update_op i f s) ! j) = a_nbytes (p_ops s ! j)"
  using assms by (cases "j = i") (simp_all add: p_update_op_def)

interpretation posix_attrs: async_io_attrs "posix_manager lib" gid "posix_inv gid" "posix_owns gid"
  "posix_queued gid" "posix_flying gid" for lib gid
proof
  fix s s' :: "'a posix_state" and i j t ty
  assume "s' \<in> {set_time (posix_manager lib) i t s, set_type (posix_manager lib) i ty s}"
  then consider "s' = p_update_op i (p_set_time t) s" | "s' = p_update_op i (p_set_type ty) s"
    by (auto simp: posix_manager_def)
  then show "get_offset (posix_manager lib) j s' = get_offset (posix_manager lib) j s \<and>
      get_target_data (posix_manager lib) j s' = get_target_data (posix_manager lib) j s \<and>
      get_nbytes (posix_manager lib) j s' = get_nbytes (posix_manager lib) j s"
    by cases (simp_all add: posix_manager_def p_set_time_def p_set_type_def p_update_op_keeps)
next
  fix s :: "'a posix_state" and i j off
  assume "posix_owns gid s i"
  then show "get_offset (posix_manager lib) j (set_offset (posix_manager lib) i off s) =
      (if j = i then off else get_offset (posix_manager lib) j s) \<and>
      get_target_data (posix_manager lib) j (set_offset (posix_manager lib) i off s) =
      get_target_data (posix_manager lib) j s \<and>
      get_nbytes (posix_manager lib) j (set_offset (posix_manager lib) i off s) = get_nbytes (posix_manager lib) j s"
    by (cases "j = i") (simp_all add: posix_manager_def p_update_op_def p_set_offset_def posix_owns_def)
next
  fix s s' :: "'a posix_state" and e j
  assume "m_submit (posix_manager lib) gid s = Inr (e, s')"
  then have "posix_submit lib gid s = Inr (e, s')" by (simp add: posix_manager_def)
  from posix_submit_keeps [OF this, of j]
  show "get_offset (posix_manager lib) j s' = get_offset (posix_manager lib) j s \<and>
      get_target_data (posix_manager lib) j s' = get_target_data (posix_manager lib) j s \<and>
      get_nbytes (posix_manager lib) j s' = get_nbytes (posix_manager lib) j s"
    by (simp add: posix_manager_def)
qed (auto simp: posix_manager_def posix_enqueue_def
    posix_wait_def Let_def split: if_splits option.splits prod.splits)

section \<open>The start of a group\<close>

text \<open>
  An engine before the first operation of the group: the flight ids of the other groups are the
  ones their operations carry.
\<close>

definition posix_fresh :: "int \<Rightarrow> 'k posix_state \<Rightarrow> bool" where
  "posix_fresh gid s \<longleftrightarrow> p_started s \<and> length (p_ops s) < 2 ^ 31 \<and>
    (\<forall>op \<in> set (p_ops s). p_group_id op \<noteq> gid) \<and>
    (\<forall>f i. suspend_in_flight s f = Some i \<longrightarrow> i < length (p_ops s) \<and> sival_int (p_ops s ! i) = f)"

definition posix_room :: "'k posix_state \<Rightarrow> nat" where
  "posix_room s = 2 ^ 31 - 1 - length (p_ops s)"

lemma posix_create_group_inv:
  assumes f: "posix_fresh gid s" and c: "posix_create_group gid n s = Inr (True, s')"
  shows "posix_inv gid s' \<and> posix_queued gid s' = {#} \<and> posix_flying gid s' = {#} \<and> p_ops s' = p_ops s"
proof -
  have s': "s' = s\<lparr>group_queues := (group_queues s)(gid \<mapsto> []), suspend_vecs := (suspend_vecs s)(gid \<mapsto> [])\<rparr>"
    using c by (auto simp: posix_create_group_def Let_def split: if_splits)
  have "p_group_id (p_ops s ! i) \<noteq> gid" if "suspend_in_flight s f' = Some i" for f' i
    using f that by (auto simp: posix_fresh_def)
  then show ?thesis
    using f by (auto simp: s' posix_inv_def posix_fresh_def posix_queued_def posix_flying_def)
qed

lemma posix_construct_inv:
  assumes inv: "posix_inv gid s" and l: "length (p_ops s) + 1 < 2 ^ 31"
  shows "\<exists>s'. posix_construct ty fd off rbuf wbuf n gid td t s = Inr (length (p_ops s), s') \<and> posix_inv gid s' \<and>
    posix_queued gid s' = posix_queued gid s \<and> posix_flying gid s' = posix_flying gid s \<and>
    length (p_ops s) \<notin># posix_queued gid s + posix_flying gid s"
proof -
  from inv obtain q v where s: "p_started s" "group_queues s gid = Some q" "suspend_vecs s gid = Some v"
    and d: "distinct (q @ v)" and qv: "\<forall>i \<in> set (q @ v). i < length (p_ops s) \<and> p_group_id (p_ops s ! i) = gid"
    and fl: "\<forall>f i. suspend_in_flight s f = Some i \<longrightarrow> i < length (p_ops s) \<and> sival_int (p_ops s ! i) = f \<and>
        (p_group_id (p_ops s ! i) = gid \<longrightarrow> i \<in> set v)"
    and sv: "\<forall>i \<in> set v. suspend_in_flight s (sival_int (p_ops s ! i)) = Some i"
    by (auto simp: posix_inv_def)
  let ?s = "s\<lparr>p_ops := p_ops s @ [PosixAsyncIop ty fd off rbuf wbuf n gid td t]\<rparr>"
  have "\<forall>f i. suspend_in_flight s f = Some i \<longrightarrow> i < length (p_ops ?s) \<and> sival_int (p_ops ?s ! i) = f \<and>
        (p_group_id (p_ops ?s ! i) = gid \<longrightarrow> i \<in> set v)"
    using fl by (auto simp: nth_append intro: less_SucI)
  moreover have "\<forall>i \<in> set v. suspend_in_flight s (sival_int (p_ops ?s ! i)) = Some i"
    using sv qv by (auto simp: nth_append)
  moreover have "\<forall>i \<in> set (q @ v). i < length (p_ops ?s) \<and> p_group_id (p_ops ?s ! i) = gid"
    using qv by (auto simp: nth_append intro: less_SucI)
  ultimately have "posix_inv gid ?s"
    unfolding posix_inv_def using s d l by simp
  moreover have "length (p_ops s) \<notin># posix_queued gid s + posix_flying gid s"
    using qv s by (auto simp: posix_queued_def posix_flying_def)
  ultimately show ?thesis
    using s by (simp add: posix_construct_def posix_queued_def posix_flying_def)
qed

interpretation posix_starts: async_io_start "posix_manager lib" gid "posix_inv gid" "posix_owns gid"
  "posix_queued gid" "posix_flying gid" "posix_fresh gid" posix_room for lib gid
proof
  fix s s' :: "'a posix_state" and n
  assume f: "posix_fresh gid s" and "m_create_group (posix_manager lib) gid n s = Inr (True, s')"
  then have "posix_create_group gid n s = Inr (True, s')" by (simp add: posix_manager_def)
  from posix_create_group_inv [OF f this] f
  show "posix_inv gid s' \<and> (\<forall>i. \<not> posix_owns gid s' i) \<and> posix_queued gid s' = {#} \<and>
      posix_flying gid s' = {#} \<and> posix_room s' = posix_room s"
    by (auto simp: posix_fresh_def posix_owns_def posix_room_def)
next
  fix s :: "'a posix_state" and ty fd off rbuf wbuf n td t
  assume i: "posix_inv gid s" and r: "0 < posix_room s"
  let ?n = "length (p_ops s)"
  have "?n + 1 < 2 ^ 31" using r by (simp add: posix_room_def)
  from posix_construct_inv [OF i this, of ty fd off rbuf wbuf n td t] obtain s' where
    c: "posix_construct ty fd off rbuf wbuf n gid td t s = Inr (?n, s')" and s': "posix_inv gid s'"
      "posix_queued gid s' = posix_queued gid s" "posix_flying gid s' = posix_flying gid s"
      "?n \<notin># posix_queued gid s + posix_flying gid s" by blast
  from c have o: "p_ops s' = p_ops s @ [PosixAsyncIop ty fd off rbuf wbuf n gid td t]"
    by (auto simp: posix_construct_def split: if_splits)
  have "posix_owns gid s' = (posix_owns gid s)(?n := True)"
    by (auto simp: fun_eq_iff posix_owns_def o nth_append PosixAsyncIop_def less_Suc_eq)
  with c s' o show "\<exists>i s'. m_construct (posix_manager lib) ty fd off rbuf wbuf n gid td t s = Inr (i, s') \<and>
      posix_inv gid s' \<and> posix_room s' = posix_room s - 1 \<and>
      \<not> posix_owns gid s i \<and> posix_owns gid s' = (posix_owns gid s)(i := True) \<and>
      posix_queued gid s' = posix_queued gid s \<and> posix_flying gid s' = posix_flying gid s \<and>
      i \<notin># posix_queued gid s + posix_flying gid s \<and> get_offset (posix_manager lib) i s' = off \<and>
      get_target_data (posix_manager lib) i s' = td \<and> get_nbytes (posix_manager lib) i s' = n \<and>
      (\<forall>j. posix_owns gid s j \<longrightarrow> get_offset (posix_manager lib) j s' = get_offset (posix_manager lib) j s \<and>
        get_target_data (posix_manager lib) j s' = get_target_data (posix_manager lib) j s \<and>
      get_nbytes (posix_manager lib) j s' = get_nbytes (posix_manager lib) j s)"
    by (intro exI [of _ ?n] exI [of _ s'])
      (auto simp: posix_manager_def posix_room_def posix_owns_def nth_append PosixAsyncIop_def)
qed (auto simp: posix_manager_def posix_enqueue_def Let_def posix_room_def split: if_splits option.splits)

section \<open>A device that serves\<close>

text \<open>
  A C library over a device on which every request succeeds, with \<open>req k i\<close> the size of the request
  started for the control block \<open>i\<close>: requests can be started, \<open>aio_suspend\<close> over requests that have been
  started returns with one of them done, and a request that is done has transferred what it asked for.
\<close>

definition posix_lib_serves :: "'k posix_lib \<Rightarrow> ('k \<Rightarrow> nat \<Rightarrow> size_t option) \<Rightarrow> bool" where
  "posix_lib_serves lib req \<longleftrightarrow>
    (\<forall>i a k. \<exists>k'. aio_read lib i a k = (0, k') \<and> req k' = (req k)(i \<mapsto> a_nbytes a)) \<and>
    (\<forall>i a k. \<exists>k'. aio_write lib i a k = (0, k') \<and> req k' = (req k)(i \<mapsto> a_nbytes a)) \<and>
    (\<forall>v k. v \<noteq> [] \<longrightarrow> set v \<subseteq> dom (req k) \<longrightarrow>
      (\<exists>k'. aio_suspend lib v k = (0, k') \<and> req k' = req k \<and> (\<exists>i \<in> set v. aio_error lib i k' \<noteq> EINPROGRESS))) \<and>
    (\<forall>i k n. req k i = Some n \<longrightarrow> aio_error lib i k \<noteq> EINPROGRESS \<longrightarrow>
      aio_error lib i k = 0 \<and> word_of_int (aio_return lib i k) = n)"

definition posix_serves ::
  "'k posix_lib \<Rightarrow> ('k \<Rightarrow> nat \<Rightarrow> size_t option) \<Rightarrow> int \<Rightarrow> 'k posix_state \<Rightarrow> bool" where
  "posix_serves lib req gid s \<longleftrightarrow> posix_lib_serves lib req \<and>
    (\<forall>v. suspend_vecs s gid = Some v \<longrightarrow> (\<forall>i \<in> set v. i < length (p_ops s) \<and>
      req (p_kernel s) i = Some (a_nbytes (p_ops s ! i))))"

lemma posix_submit_loop_serves:
  assumes "posix_serves lib req gid s" and "posix_submit_loop lib gid q s = Inr (err, s')"
  shows "err = 0 \<and> posix_serves lib req gid s'"
  using assms
proof (induction q arbitrary: s)
  case Nil
  then show ?case by simp
next
  case (Cons i q)
  let ?a = "p_ops s ! i"
  have lib: "posix_lib_serves lib req" using Cons.prems(1) by (simp add: posix_serves_def)
  then obtain k where k: "(if p_type ?a = READ_IOP then aio_read lib i ?a (p_kernel s)
      else aio_write lib i ?a (p_kernel s)) = (0, k)" "req k = (req (p_kernel s))(i \<mapsto> a_nbytes ?a)"
    unfolding posix_lib_serves_def by (cases "p_type ?a = READ_IOP") (metis (full_types))+
  from Cons.prems(2) k(1) obtain v f where i: "i < length (p_ops s)" and v: "suspend_vecs s gid = Some v"
    and l: "posix_submit_loop lib gid q (s\<lparr>group_queues := (group_queues s)(gid \<mapsto> rev q), p_kernel := k,
      suspend_vecs := (suspend_vecs s)(gid \<mapsto> v @ [i]), p_ops := (p_ops s)[i := ?a\<lparr>sival_int := f\<rparr>],
      suspend_in_flight := (suspend_in_flight s)(f \<mapsto> i), next_flight_id := f + 1\<rparr>) = Inr (err, s')"
    by (auto simp: Let_def split: if_splits option.splits)
  have nb: "a_nbytes ((p_ops s)[i := ?a\<lparr>sival_int := f\<rparr>] ! j) = a_nbytes (p_ops s ! j)" for j
    using i by (cases "j = i") simp_all
  show ?case
    by (rule Cons.IH [OF _ l]) (use Cons.prems(1) v i k(2) in \<open>auto simp: posix_serves_def nb\<close>)
qed

lemma posix_submit_serves:
  assumes "posix_inv gid s" and "posix_serves lib req gid s"
  shows "\<exists>s'. posix_submit lib gid s = Inr (0, s') \<and> posix_serves lib req gid s'"
proof -
  from assms(1) obtain q v where s: "p_started s" "group_queues s gid = Some q" "suspend_vecs s gid = Some v"
    "posix_parts gid (p_ops s) (suspend_in_flight s) q v" by (auto simp: posix_inv_parts)
  from posix_submit_loop_inv [OF s, of lib] obtain err s' where
    l: "posix_submit_loop lib gid (rev q) s = Inr (err, s')" by blast
  with posix_submit_loop_serves [OF assms(2) l] s show ?thesis by (simp add: posix_submit_def)
qed

lemma first_done_some:
  "i \<in> set v \<Longrightarrow> e i \<noteq> EINPROGRESS \<Longrightarrow> \<exists>j v'. first_done e v = Some (j, v')"
  by (induction v) (auto split: option.splits)

lemma posix_wait_serves:
  assumes inv: "posix_inv gid s" and sv: "posix_serves lib req gid s" and fl: "posix_flying gid s \<noteq> {#}"
  shows "\<exists>i s'. posix_wait lib gid s = Inr (i, s') \<and> posix_serves lib req gid s' \<and>
    aio_error lib i (p_kernel s') = 0 \<and>
    (a_nbytes (p_ops s' ! i) < 2 ^ 31 \<longrightarrow> word_of_int (as_int (aio_return lib i (p_kernel s'))) = a_nbytes (p_ops s' ! i))"
proof -
  from inv obtain q v where s: "p_started s" "group_queues s gid = Some q" "suspend_vecs s gid = Some v"
    and p: "posix_parts gid (p_ops s) (suspend_in_flight s) q v" by (auto simp: posix_inv_parts)
  have lib: "posix_lib_serves lib req" and rq: "\<forall>i \<in> set v. i < length (p_ops s) \<and> req (p_kernel s) i = Some (a_nbytes (p_ops s ! i))"
    using sv s(3) by (simp_all add: posix_serves_def)
  have "v \<noteq> []" "set v \<subseteq> dom (req (p_kernel s))" using fl s(3) rq by (auto simp: posix_flying_def)
  with lib obtain k where k: "aio_suspend lib v (p_kernel s) = (0, k)" "req k = req (p_kernel s)"
    "\<exists>i \<in> set v. aio_error lib i k \<noteq> EINPROGRESS" unfolding posix_lib_serves_def by blast
  from k(3) first_done_some [of _ v "\<lambda>i. aio_error lib i k"] obtain j v' where d: "first_done (\<lambda>i. aio_error lib i k) v = Some (j, v')" by blast
  from first_done_split [OF d] have j: "j \<in> set v" "set v' \<subseteq> set v" "aio_error lib j k \<noteq> EINPROGRESS" by auto
  have "suspend_in_flight s (sival_int (p_ops s ! j)) = Some j" using p j(1) by (simp add: posix_parts_def)
  then obtain s' where w: "posix_wait lib gid s = Inr (j, s')" and s': "p_kernel s' = k" "p_ops s' = p_ops s"
    "suspend_vecs s' = (suspend_vecs s)(gid \<mapsto> v')"
    using s k(1) d \<open>v \<noteq> []\<close> by (simp add: posix_wait_def)
  have "aio_error lib j k = 0 \<and> word_of_int (aio_return lib j k) = a_nbytes (p_ops s ! j)"
    using lib k(2) rq j unfolding posix_lib_serves_def by metis
  moreover have "posix_serves lib req gid s'" using lib rq j(2) k(2) by (auto simp: posix_serves_def s')
  ultimately show ?thesis using w s' as_int_size by auto
qed

lemma p_update_op_serves:
  assumes "posix_serves lib req gid s" and "\<And>a. a_nbytes (f a) = a_nbytes a"
  shows "posix_serves lib req gid (p_update_op i f s)"
proof -
  have "a_nbytes (p_ops (p_update_op i f s) ! j) = a_nbytes (p_ops s ! j)" for j
    using assms(2) by (cases "j = i") (simp_all add: p_update_op_def)
  with assms(1) show ?thesis by (simp add: posix_serves_def) (simp add: p_update_op_def)
qed

interpretation posix_service: async_io_service "posix_manager lib" gid "posix_inv gid" "posix_owns gid"
  "posix_queued gid" "posix_flying gid" "posix_fresh gid" posix_room "posix_serves lib req gid" for lib gid req
proof
  fix s s' :: "'a posix_state" and n
  assume "posix_serves lib req gid s" and "m_create_group (posix_manager lib) gid n s = Inr (True, s')"
  then show "posix_serves lib req gid s'"
    by (auto simp: posix_manager_def posix_create_group_def posix_serves_def Let_def split: if_splits)
next
  fix s s' :: "'a posix_state" and ty fd off rbuf wbuf n td t i
  assume "posix_serves lib req gid s"
    and "m_construct (posix_manager lib) ty fd off rbuf wbuf n gid td t s = Inr (i, s')"
  then show "posix_serves lib req gid s'"
    by (auto simp: posix_manager_def posix_construct_def posix_serves_def nth_append split: if_splits)
      (blast intro: less_SucI)
next
  fix s s' :: "'a posix_state" and i e
  assume "posix_serves lib req gid s" and "m_enqueue (posix_manager lib) i s = Inr (e, s')"
  then show "posix_serves lib req gid s'"
    by (auto simp: posix_manager_def posix_enqueue_def posix_serves_def Let_def split: if_splits option.splits)
next
  fix s :: "'a posix_state" and i t off ty
  assume "posix_serves lib req gid s"
  then show "posix_serves lib req gid (set_time (posix_manager lib) i t s) \<and>
      posix_serves lib req gid (set_offset (posix_manager lib) i off s) \<and>
      posix_serves lib req gid (set_type (posix_manager lib) i ty s)"
    by (simp add: posix_manager_def p_update_op_serves p_set_time_def p_set_offset_def p_set_type_def)
next
  fix s :: "'a posix_state"
  assume "posix_inv gid s" and "posix_serves lib req gid s"
  from posix_submit_serves [OF this]
  show "\<exists>s'. m_submit (posix_manager lib) gid s = Inr (0, s') \<and> posix_serves lib req gid s'"
    by (simp add: posix_manager_def)
next
  fix s :: "'a posix_state"
  assume "posix_inv gid s" and "posix_serves lib req gid s" and "posix_flying gid s \<noteq> {#}"
  from posix_wait_serves [OF this]
  show "\<exists>i s'. m_wait (posix_manager lib) gid s = Inr (i, s') \<and> posix_serves lib req gid s' \<and>
      get_errno (posix_manager lib) i s' = 0 \<and>
      (get_nbytes (posix_manager lib) i s' < 2 ^ 31 \<longrightarrow>
        word_of_int (get_ret (posix_manager lib) i s') = get_nbytes (posix_manager lib) i s')"
    by (simp add: posix_manager_def)
qed

section \<open>Properties\<close>

text \<open>
  The queue depth over POSIX AIO is constant: any number of successful rounds of a worker
  leaves the same operations of its group in flight and none queued. Nothing is assumed of the
  C library.
\<close>

theorem posix_rounds_keep_depth:
  assumes "posix_inv gid s" and "posix_queued gid s = {#}"
    and "foldE (\<lambda>pick s. bindE (io_round (posix_manager lib) gid pick s)
      (\<lambda>(e, s'). if e \<noteq> 0 then Inl Undefined else Inr s')) picks s = Inr s'"
  shows "posix_queued gid s' = {#} \<and> posix_flying gid s' = posix_flying gid s \<and> posix_inv gid s'"
  using posix.rounds_ok [OF assms] by simp

text \<open>A C library whose operations complete at once.\<close>

definition sync_lib :: "unit posix_lib" where
  "sync_lib = \<lparr>aio_init = (\<lambda>n k. k), aio_read = (\<lambda>i a k. (0, k)),
     aio_write = (\<lambda>i a k. if a_offset a = 0 then (0, k) else (- 1, k)), aio_suspend = (\<lambda>v k. (0, k)),
     aio_error = (\<lambda>i k. 0), aio_return = (\<lambda>i k. 4096)\<rparr>"

text \<open>Three operations of group 7, the first in flight and the others queued; the last one cannot be started.\<close>

definition one_flying :: "unit posix_state" where
  "one_flying = \<lparr>p_started = True, group_queues = [7 \<mapsto> []], suspend_vecs = [7 \<mapsto> [0]],
     suspend_in_flight = [0 \<mapsto> 0], next_flight_id = 1,
     p_ops = [PosixAsyncIop READ_IOP 3 0 100 100 4096 7 0 0, PosixAsyncIop READ_IOP 3 4096 200 200 4096 7 0 0,
       PosixAsyncIop WRITE_IOP 3 8192 300 300 4096 7 0 0], p_kernel = ()\<rparr>"

lemma one_flying_inv: "posix_inv 7 (one_flying\<lparr>group_queues := [7 \<mapsto> q]\<rparr>)"
  if "q \<in> {[], [1, 2]}"
proof -
  have "[0 \<mapsto> 0] f = Some i \<longleftrightarrow> f = (0 :: u32) \<and> i = (0 :: nat)" for f i by auto
  with that show ?thesis
    by (auto simp: posix_inv_def one_flying_def PosixAsyncIop_def nth_Cons')
qed

lemma posix_rounds_keep_depth_witness:
  "\<exists>s'. foldE (\<lambda>pick s. bindE (io_round (posix_manager sync_lib) 7 pick s)
      (\<lambda>(e, s'). if e \<noteq> 0 then Inl Undefined else Inr s')) (replicate 3 (\<lambda>i s. (9, 8192, READ_IOP))) one_flying
      = Inr s' \<and> posix_flying 7 s' = {#0#}"
proof -
  let ?r = "foldE (\<lambda>pick s. bindE (io_round (posix_manager sync_lib) 7 pick s)
      (\<lambda>(e, s'). if e \<noteq> 0 then Inl Undefined else Inr s')) (replicate 3 (\<lambda>i s. (9, 8192, READ_IOP))) one_flying"
  have "(case ?r of Inl _ \<Rightarrow> False | Inr _ \<Rightarrow> True)" by code_simp
  then obtain s' where r: "?r = Inr s'" by (auto split: sum.splits)
  have e: "one_flying\<lparr>group_queues := [7 \<mapsto> []]\<rparr> = one_flying" by (simp add: one_flying_def)
  have i: "posix_inv 7 one_flying" using one_flying_inv [of "[]"] e by simp
  have q: "posix_queued 7 one_flying = {#}" by (simp add: posix_queued_def one_flying_def)
  have "posix_flying 7 one_flying = {#0#}" by (simp add: posix_flying_def one_flying_def)
  with posix_rounds_keep_depth [OF i q r] r show ?thesis by simp
qed

text \<open>
  C17. Submission over POSIX AIO starts the operations last enqueued first: on success the suspend
  vector is extended with the queue reversed. If an operation cannot be started, those after it in
  the queue are in flight and those before it stay queued, but the operation itself is in neither.
\<close>

theorem posix_submit_order:
  assumes "posix_inv gid s" and "group_queues s gid = Some q" and "suspend_vecs s gid = Some v"
  shows "\<exists>err s'. posix_submit lib gid s = Inr (err, s') \<and>
    (err = 0 \<longrightarrow> group_queues s' gid = Some [] \<and> suspend_vecs s' gid = Some (v @ rev q)) \<and>
    (err \<noteq> 0 \<longrightarrow> (\<exists>q' i started. q = q' @ [i] @ rev started \<and> group_queues s' gid = Some q' \<and>
      suspend_vecs s' gid = Some (v @ started)))"
proof -
  from assms have s: "p_started s" "posix_parts gid (p_ops s) (suspend_in_flight s) q v"
    by (auto simp: posix_inv_parts)
  from posix_submit_loop_inv [OF s(1) assms(2,3) s(2), of lib] obtain err s' where
    l: "posix_submit_loop lib gid (rev q) s = Inr (err, s')" and
    z: "err = 0 \<longrightarrow> (q \<noteq> [] \<longrightarrow> group_queues s' gid = Some []) \<and> suspend_vecs s' gid = Some (v @ rev q)" and
    nz: "err \<noteq> 0 \<longrightarrow> (\<exists>q' i started. q = q' @ [i] @ rev started \<and> group_queues s' gid = Some q' \<and>
      suspend_vecs s' gid = Some (v @ started))" by blast
  have "group_queues s' gid = Some []" if "err = 0"
    using z that l assms(2) by (cases "q = []") auto
  moreover have "posix_submit lib gid s = Inr (err, s')" using l s(1) assms(2) by (simp add: posix_submit_def)
  ultimately show ?thesis using z nz by blast
qed

lemma posix_submit_order_witness:
  "\<exists>s'. posix_submit sync_lib 7 (one_flying\<lparr>group_queues := [7 \<mapsto> [1, 2]]\<rparr>) = Inr (- 1, s') \<and>
    posix_queued 7 s' + posix_flying 7 s' = {#0, 1#}"
proof -
  let ?s = "one_flying\<lparr>group_queues := [7 \<mapsto> [1, 2]]\<rparr>"
  have i: "posix_inv 7 ?s" by (rule one_flying_inv) simp
  have g: "group_queues ?s 7 = Some [1, 2]" "suspend_vecs ?s 7 = Some [0]" by (simp_all add: one_flying_def)
  have "(case posix_submit sync_lib 7 ?s of Inl _ \<Rightarrow> False
      | Inr (e, s') \<Rightarrow> e = - 1 \<and> suspend_vecs s' 7 = Some [0])" by code_simp
  then obtain s' where r: "posix_submit sync_lib 7 ?s = Inr (- 1, s')" "suspend_vecs s' 7 = Some [0]"
    by (auto split: sum.splits)
  from posix_submit_order [OF i g, of sync_lib] r(1) obtain q' j st where
    "[1, 2] = q' @ [j] @ rev st" "group_queues s' 7 = Some q'" "suspend_vecs s' 7 = Some ([0] @ st)"
    by auto
  with r have "st = []" "q' = [1]" by (auto simp: Cons_eq_append_conv)
  with r \<open>group_queues s' 7 = Some q'\<close> show ?thesis
    by (simp add: posix_queued_def posix_flying_def add_mset_commute)
qed

end
