(* ===== verification/Workers.thy ===== *)
theory Workers
  imports Progress Kernel_AIO Posix_AIO
begin

text \<open>
  The worker threads over the two engines: the lemmas that \<open>Thread\<close> and \<open>Progress\<close> prove over the contract of
  an engine, for kernel AIO and for POSIX AIO, from the setup of a worker to any point of its loop; what
  becomes of operations that fail, of blocks of 2 GB, and of the files of a worker.
\<close>

section \<open>A worker on a small target\<close>

text \<open>A file of four blocks of 16 bytes, a libaio and a POSIX AIO that transfer whole blocks.\<close>

definition small_target :: target where
  "small_target = (Target ''f'')\<lparr>tsize := 64, max_size := 64, block_size := 16, stride := 16, zero_buffers := True\<rparr>"

definition small_env :: "(unit, unit) environment" where
  "small_env = \<lparr>mt64 = (\<lambda>_. ()), mt32 = (\<lambda>_. ()), dist64 = draw_low, dist32 = (\<lambda>a b g. (a, ())),
     random_device = (0, 0), rw_random_device = (0, 0), alloc = (\<lambda>n. 4096), open_file = (\<lambda>p f. 3),
     time_us = Inr 1000\<rparr>"

definition small_worker :: "'s \<Rightarrow> (unit, unit, 's) worker" where
  "small_worker s = \<lparr>params = \<lparr>thread_id = 7, rel_thread_id = 0, initialized = False, run_threads = True,
       thread_error = False, error_notified = False\<rparr>,
     job_targets = [small_target], targets = [TargetData 0], th_rng = \<lparr>engine64 = (), engine = ()\<rparr>,
     rw_rng = \<lparr>engine64 = (), engine = ()\<rparr>, io = s, thread_bytes_count = 0\<rparr>"

definition small_lib :: "u64 list libaio" where
  "small_lib = fifo_lib\<lparr>io_getevents := (\<lambda>c k. case k of [] \<Rightarrow> ((0, 0, 0), k) | d # ds \<Rightarrow> ((1, d, 16), ds))\<rparr>"

definition small_posix :: "unit posix_lib" where
  "small_posix = sync_lib\<lparr>aio_return := (\<lambda>i k. 16)\<rparr>"

definition round_reads :: reads where
  "round_reads = \<lparr>rd_run = True, rd_record_throttle = True, rd_now_ms = 2, rd_run_after = True, rd_now_us = 2000,
     rd_record = True\<rparr>"

lemma small_targets_ok: "targets_ok (dist64 small_env) (small_worker s)"
  by (simp add: targets_ok_def small_worker_def TargetData_def target_of_def offset_inv_def target_ok_def
      small_target_def Target_def)

lemma small_results_ok: "results_of_ok (small_worker s)"
  by (simp add: results_of_ok_def small_worker_def TargetData_def results_ok_def TargetResults_def)

lemma small_depth: "depth (small_worker s) = 2"
  by (simp add: depth_def small_worker_def target_of_def TargetData_def small_target_def Target_def)

lemma small_blocks: "blocks_fit (small_worker s)"
  by (simp add: blocks_fit_def small_worker_def target_of_def TargetData_def small_target_def Target_def)

lemma small_env_ready: "env_ready small_env (small_worker s)"
  by (simp add: env_ready_def opened_by_def small_env_def small_worker_def target_of_def TargetData_def small_target_def
      Target_def buffer_align_def)

lemma sum_caseD: "(case x of Inl f \<Rightarrow> False | Inr b \<Rightarrow> P b) \<Longrightarrow> \<exists>b. x = Inr b \<and> P b"
  by (cases x) simp_all

lemma small_run_kernel:
  "case bindE (thread_start (kernel_manager small_lib) small_env JobOptions (small_worker ((KernelAsyncIOManager [])\<lparr>k_started := True\<rparr>)))
     (\<lambda>(b, w). bindE (work_loop (kernel_manager small_lib) small_env JobOptions [([0], round_reads), ([0], round_reads)] w)
        (\<lambda>(out, w'). Inr (b \<and> length (job_targets w) = 1 \<and> \<not> use_interlocked (job_targets w ! 0) \<and> out = Continue)))
   of Inl f \<Rightarrow> False | Inr b \<Rightarrow> b"
  by code_simp

lemma small_run_posix:
  "case bindE (thread_start (posix_manager small_posix) small_env JobOptions (small_worker ((PosixSuspendAsyncIOManager ())\<lparr>p_started := True\<rparr>)))
     (\<lambda>(b, w). bindE (work_loop (posix_manager small_posix) small_env JobOptions [([0], round_reads), ([0], round_reads)] w)
        (\<lambda>(out, w'). Inr (b \<and> length (job_targets w) = 1 \<and> \<not> use_interlocked (job_targets w ! 0) \<and> out = Continue)))
   of Inl f \<Rightarrow> False | Inr b \<Rightarrow> b"
  by code_simp

text \<open>A libaio and a POSIX AIO over devices on which every request transfers what it asks for, in order.\<close>

definition sized_lib :: "(u64 \<times> size_t) list libaio" where
  "sized_lib = \<lparr>io_queue_init = (\<lambda>n k. (0, 1, k)),
     io_submit = (\<lambda>c cbs k. (int (length cbs), k @ map (\<lambda>b. (cb_data b, c_nbytes b)) cbs)),
     io_cancel = (\<lambda>c x k. k),
     io_getevents = (\<lambda>c k. case k of [] \<Rightarrow> ((0, 0, 0), k) | (d, n) # ds \<Rightarrow> ((1, d, uint n), ds))\<rparr>"

definition sized_pending :: "(u64 \<times> size_t) list \<Rightarrow> u64 \<Rightarrow> u64 multiset" where
  "sized_pending k c = mset (map fst k)"

definition sized_req :: "(u64 \<times> size_t) list \<Rightarrow> u64 \<Rightarrow> u64 \<Rightarrow> size_t" where
  "sized_req k c d = (case map_of k d of None \<Rightarrow> 0 | Some n \<Rightarrow> n)"

definition sized_posix :: "(nat \<Rightarrow> size_t option) posix_lib" where
  "sized_posix = \<lparr>aio_init = (\<lambda>n k. k), aio_read = (\<lambda>i a k. (0, k(i \<mapsto> a_nbytes a))),
     aio_write = (\<lambda>i a k. (0, k(i \<mapsto> a_nbytes a))), aio_suspend = (\<lambda>v k. (0, k)),
     aio_error = (\<lambda>i k. 0), aio_return = (\<lambda>i k. case k i of None \<Rightarrow> 0 | Some n \<Rightarrow> uint n)\<rparr>"

lemma sized_lib_ok: "libaio_ok sized_lib sized_pending"
  by (auto simp: libaio_ok_def sized_lib_def sized_pending_def comp_def image_mset.compositionality split: list.splits)

lemma sized_lib_serves: "libaio_serves sized_lib sized_pending sized_req"
  unfolding libaio_serves_def
proof (intro conjI allI impI)
  fix c and cbs :: "iocb list" and k :: "(u64 \<times> size_t) list"
  assume d: "distinct (map cb_data cbs)" and n: "set (map cb_data cbs) \<inter> set_mset (sized_pending k c) = {}"
  let ?k = "k @ map (\<lambda>b. (cb_data b, c_nbytes b)) cbs"
  have "sized_req ?k c (cb_data b) = c_nbytes b" if b: "b \<in> set cbs" for b
  proof -
    have "map_of k (cb_data b) = None" using n b by (auto simp: sized_pending_def map_of_eq_None_iff)
    moreover have "map_of (map (\<lambda>b. (cb_data b, c_nbytes b)) cbs) (cb_data b) = Some (c_nbytes b)"
      using d b by (intro map_of_is_SomeI) (simp_all add: comp_def)
    ultimately show ?thesis by (simp add: sized_req_def map_add_def)
  qed
  moreover have "sized_req ?k c d = sized_req k c d" if "d \<in># sized_pending k c" for d
  proof -
    have "map_of k d \<noteq> None" using that by (auto simp: sized_pending_def map_of_eq_None_iff)
    then show ?thesis by (auto simp: sized_req_def map_add_def)
  qed
  ultimately show "\<exists>k'. io_submit sized_lib c cbs k = (int (length cbs), k') \<and>
      (\<forall>b \<in> set cbs. sized_req k' c (cb_data b) = c_nbytes b) \<and>
      (\<forall>d. d \<in># sized_pending k c \<longrightarrow> sized_req k' c d = sized_req k c d)"
    by (simp add: sized_lib_def)
next
  fix c and k :: "(u64 \<times> size_t) list"
  assume "sized_pending k c \<noteq> {#}"
  then obtain d n ds where "k = (d, n) # ds" by (cases k) (auto simp: sized_pending_def)
  then show "\<exists>d res k'. io_getevents sized_lib c k = ((1, d, res), k') \<and> word_of_int res = sized_req k c d \<and>
      (\<forall>d'. d' \<noteq> d \<longrightarrow> sized_req k' c d' = sized_req k c d')"
    by (simp add: sized_lib_def sized_req_def)
qed

lemma sized_posix_serves: "posix_lib_serves sized_posix (\<lambda>k. k)"
  by (auto simp: posix_lib_serves_def sized_posix_def EINPROGRESS_def neq_Nil_conv)

section \<open>Properties\<close>

text \<open>
  C2. A worker over kernel AIO never leaves its targets: from the setup of the thread to any point of
  its loop, whatever the flags, the clock and the other threads on an interlocked target do, every
  operation it has made asks for one block between the base and the end of its target's area; as long as it runs it
  has exactly as many operations in flight as its targets' \<open>-o\<close> add up to; and the results of every
  target are consistent, also after an abort.
\<close>

theorem kernel_worker_run:
  assumes "kernel_fresh lib pending gid (io w0)" and "thread_gid w0 = gid" and "targets_ok (dist64 env) w0"
    and "results_of_ok w0" and "time_us env = Inr now" and "depth w0 \<le> kernel_room (io w0)"
    and "thread_start (kernel_manager lib) env opt w0 = Inr (True, w)"
    and "\<forall>x \<in> set xs. rely w (fst x)" and "work_loop (kernel_manager lib) env opt xs w = Inr (out, w')"
  shows "results_of_ok w' \<and>
    (out = Continue \<longrightarrow> size (kernel_flying gid (io w')) = depth w0 \<and> kernel_queued gid (io w') = {#}) \<and>
    (out \<noteq> Aborted \<longrightarrow> (\<forall>op. kernel_owns gid (io w') op \<longrightarrow>
      k_target_data (k_ops (io w') ! op) < length (targets w') \<and>
      in_range (target_of w' (k_target_data (k_ops (io w') ! op))) (c_offset (cb (k_ops (io w') ! op))) \<and>
      c_nbytes (cb (k_ops (io w') ! op)) = block_size (target_of w' (k_target_data (k_ops (io w') ! op)))))"
  using async_io_start.worker_run [OF kernel_starts.async_io_start_axioms assms] by (simp add: kernel_manager_def)

lemma kernel_worker_run_witness:
  "\<exists>w w'. thread_start (kernel_manager small_lib) small_env JobOptions
      (small_worker ((KernelAsyncIOManager [])\<lparr>k_started := True\<rparr>)) = Inr (True, w) \<and>
    work_loop (kernel_manager small_lib) small_env JobOptions [([0], round_reads), ([0], round_reads)] w = Inr (Continue, w') \<and>
    size (kernel_flying 7 (io w')) = 2"
proof -
  let ?s = "(KernelAsyncIOManager [])\<lparr>k_started := True\<rparr>"
  from sum_caseD [OF small_run_kernel] obtain w w' where
    w: "thread_start (kernel_manager small_lib) small_env JobOptions (small_worker ?s) = Inr (True, w)"
      "length (job_targets w) = 1" "\<not> use_interlocked (job_targets w ! 0)"
    and w': "work_loop (kernel_manager small_lib) small_env JobOptions [([0], round_reads), ([0], round_reads)] w = Inr (Continue, w')"
    by (auto simp: bindE_Inr_iff simp del: work_loop.simps)
  have "libaio_ok small_lib fifo_pending"
    by (auto simp: libaio_ok_def small_lib_def fifo_lib_def fifo_pending_def split: list.splits)
  then have f: "kernel_fresh small_lib fifo_pending 7 (io (small_worker ?s))"
    by (simp add: kernel_fresh_def small_worker_def KernelAsyncIOManager_def small_lib_def fifo_lib_def fifo_pending_def)
  have g: "thread_gid (small_worker ?s) = 7" by (simp add: thread_gid_def small_worker_def)
  have r: "\<forall>x \<in> set [([0 :: off_t], round_reads), ([0], round_reads)]. rely w (fst x)" using w by (simp add: rely_def)
  have d: "depth (small_worker ?s) \<le> kernel_room (io (small_worker ?s))"
    by (simp add: small_depth kernel_room_def) (simp add: small_worker_def KernelAsyncIOManager_def)
  have n: "time_us small_env = Inr 1000" by (simp add: small_env_def)
  from kernel_worker_run [OF f g small_targets_ok small_results_ok n d w(1) r w'] w w' show ?thesis
    by (auto simp: small_depth)
qed

text \<open>
  C3. A worker over POSIX AIO keeps the same promises, with nothing assumed of the C library: its
  operations each ask for one block inside their target, the queue depth is the sum of the targets' \<open>-o\<close> as long as it
  runs, and the results are consistent.
\<close>

theorem posix_worker_run:
  assumes "posix_fresh gid (io w0)" and "thread_gid w0 = gid" and "targets_ok (dist64 env) w0"
    and "results_of_ok w0" and "time_us env = Inr now" and "depth w0 \<le> posix_room (io w0)"
    and "thread_start (posix_manager lib) env opt w0 = Inr (True, w)"
    and "\<forall>x \<in> set xs. rely w (fst x)" and "work_loop (posix_manager lib) env opt xs w = Inr (out, w')"
  shows "results_of_ok w' \<and>
    (out = Continue \<longrightarrow> size (posix_flying gid (io w')) = depth w0 \<and> posix_queued gid (io w') = {#}) \<and>
    (out \<noteq> Aborted \<longrightarrow> (\<forall>op. posix_owns gid (io w') op \<longrightarrow>
      p_target_data (p_ops (io w') ! op) < length (targets w') \<and>
      in_range (target_of w' (p_target_data (p_ops (io w') ! op))) (a_offset (p_ops (io w') ! op)) \<and>
      a_nbytes (p_ops (io w') ! op) = block_size (target_of w' (p_target_data (p_ops (io w') ! op)))))"
  using async_io_start.worker_run [OF posix_starts.async_io_start_axioms assms] by (simp add: posix_manager_def)

lemma posix_worker_run_witness:
  "\<exists>w w'. thread_start (posix_manager small_posix) small_env JobOptions
      (small_worker ((PosixSuspendAsyncIOManager ())\<lparr>p_started := True\<rparr>)) = Inr (True, w) \<and>
    work_loop (posix_manager small_posix) small_env JobOptions [([0], round_reads), ([0], round_reads)] w = Inr (Continue, w') \<and>
    size (posix_flying 7 (io w')) = 2"
proof -
  let ?s = "(PosixSuspendAsyncIOManager ())\<lparr>p_started := True\<rparr>"
  from sum_caseD [OF small_run_posix] obtain w w' where
    w: "thread_start (posix_manager small_posix) small_env JobOptions (small_worker ?s) = Inr (True, w)"
      "length (job_targets w) = 1" "\<not> use_interlocked (job_targets w ! 0)"
    and w': "work_loop (posix_manager small_posix) small_env JobOptions [([0], round_reads), ([0], round_reads)] w = Inr (Continue, w')"
    by (auto simp: bindE_Inr_iff simp del: work_loop.simps)
  have f: "posix_fresh 7 (io (small_worker ?s))"
    by (simp add: posix_fresh_def small_worker_def PosixSuspendAsyncIOManager_def)
  have g: "thread_gid (small_worker ?s) = 7" by (simp add: thread_gid_def small_worker_def)
  have r: "\<forall>x \<in> set [([0 :: off_t], round_reads), ([0], round_reads)]. rely w (fst x)" using w by (simp add: rely_def)
  have d: "depth (small_worker ?s) \<le> posix_room (io (small_worker ?s))"
    by (simp add: small_depth posix_room_def) (simp add: small_worker_def PosixSuspendAsyncIOManager_def)
  have n: "time_us small_env = Inr 1000" by (simp add: small_env_def)
  from posix_worker_run [OF f g small_targets_ok small_results_ok n d w(1) r w'] w w' show ?thesis
    by (auto simp: small_depth)
qed

text \<open>
  C4. Progress over kernel AIO: on a device that completes every request in full, with files that can be
  opened, blocks of less than 2 GB and a queue depth that is not 0, a worker starts and never faults, aborts
  or leaves its loop while the flags let it run, however many rounds it makes; without \<open>-g\<close> it counts one
  operation per recorded round. (With \<open>-L\<close> or \<open>-D\<close> the first completion may be undefined, see
  \<open>start_time_is_lost\<close>.)
\<close>

theorem kernel_worker_progress:
  assumes "kernel_fresh lib pending gid (io w0)" and "thread_gid w0 = gid" and "targets_ok (dist64 env) w0"
    and "results_of_ok w0" and "time_us env = Inr now" and "depth w0 \<le> kernel_room (io w0)" and "0 < depth w0"
    and "kernel_serves lib pending req gid (io w0)"
    and "\<not> k_locked (io w0)" and "k_groups (io w0) gid = None"
    and "\<forall>n. \<exists>c k. io_queue_init lib n (k_kernel (io w0)) = (0, c, k) \<and> c \<noteq> 0"
    and "env_ready env w0" and "blocks_fit w0" and "\<not> measure_latency opt" and "\<not> measure_iops_std_dev opt"
    and "\<forall>x \<in> set xs. rely w0 (fst x) \<and> rd_run (snd x) \<and> rd_run_after (snd x)"
  shows "\<exists>w w'. thread_start (kernel_manager lib) env opt w0 = Inr (True, w) \<and>
    work_loop (kernel_manager lib) env opt xs w = Inr (Continue, w') \<and>
    (max_throughput (target_of w0 0) = 0 \<longrightarrow>
      ops_done w' = ops_done w + of_nat (length (filter (\<lambda>x. rd_record (snd x)) xs)))"
proof -
  have "\<exists>s1. m_create_group (kernel_manager lib) gid n (io w0) = Inr (True, s1)" for n
    using assms(9-11) by (auto simp: kernel_manager_def kernel_create_group_def dest: spec [of _ n])
  from async_io_service.thread_progress [OF kernel_service.async_io_service_axioms assms(1-8) this assms(12-16)]
  show ?thesis .
qed

lemma kernel_worker_progress_witness:
  "\<exists>w w'. thread_start (kernel_manager sized_lib) small_env JobOptions
      (small_worker ((KernelAsyncIOManager [])\<lparr>k_started := True\<rparr>)) = Inr (True, w) \<and>
    work_loop (kernel_manager sized_lib) small_env JobOptions (replicate 5 ([0], round_reads)) w = Inr (Continue, w') \<and>
    ops_done w' = ops_done w + 5"
proof -
  let ?s = "(KernelAsyncIOManager [])\<lparr>k_started := True\<rparr>" and ?xs = "replicate 5 ([0 :: off_t], round_reads)"
  have f: "kernel_fresh sized_lib sized_pending 7 (io (small_worker ?s))"
    using sized_lib_ok by (simp add: kernel_fresh_def small_worker_def KernelAsyncIOManager_def sized_lib_def sized_pending_def)
  have g: "thread_gid (small_worker ?s) = 7" by (simp add: thread_gid_def small_worker_def)
  have d: "depth (small_worker ?s) \<le> kernel_room (io (small_worker ?s))" "0 < depth (small_worker ?s)"
    by (simp_all add: small_depth kernel_room_def) (simp add: small_worker_def KernelAsyncIOManager_def)
  have n: "time_us small_env = Inr 1000" by (simp add: small_env_def)
  have sv: "kernel_serves sized_lib sized_pending sized_req 7 (io (small_worker ?s))"
    using sized_lib_serves by (simp add: kernel_serves_def small_worker_def KernelAsyncIOManager_def)
  have o: "\<not> measure_latency JobOptions" "\<not> measure_iops_std_dev JobOptions" by (simp_all add: JobOptions_def)
  have k: "\<not> k_locked (io (small_worker ?s))" "k_groups (io (small_worker ?s)) 7 = None"
    "\<forall>n. \<exists>c k. io_queue_init sized_lib n (k_kernel (io (small_worker ?s))) = (0, c, k) \<and> c \<noteq> 0"
    by (simp_all add: small_worker_def KernelAsyncIOManager_def sized_lib_def)
  have r: "\<forall>x \<in> set ?xs. rely (small_worker ?s) (fst x) \<and> rd_run (snd x) \<and> rd_run_after (snd x)"
    by (simp add: rely_def round_reads_def small_worker_def small_target_def Target_def)
  have t: "max_throughput (target_of (small_worker ?s) 0) = 0"
    by (simp add: target_of_def small_worker_def TargetData_def small_target_def Target_def)
  from kernel_worker_progress [OF f g small_targets_ok small_results_ok n d sv k small_env_ready small_blocks o r] t show ?thesis
    by (auto simp: round_reads_def)
qed

text \<open>
  C5. Progress over POSIX AIO, under the same conditions on the device.
\<close>

theorem posix_worker_progress:
  assumes "posix_fresh gid (io w0)" and "thread_gid w0 = gid" and "targets_ok (dist64 env) w0"
    and "results_of_ok w0" and "time_us env = Inr now" and "depth w0 \<le> posix_room (io w0)" and "0 < depth w0"
    and "posix_serves lib req gid (io w0)"
    and "group_queues (io w0) gid = None" and "suspend_vecs (io w0) gid = None"
    and "env_ready env w0" and "blocks_fit w0" and "\<not> measure_latency opt" and "\<not> measure_iops_std_dev opt"
    and "\<forall>x \<in> set xs. rely w0 (fst x) \<and> rd_run (snd x) \<and> rd_run_after (snd x)"
  shows "\<exists>w w'. thread_start (posix_manager lib) env opt w0 = Inr (True, w) \<and>
    work_loop (posix_manager lib) env opt xs w = Inr (Continue, w') \<and>
    (max_throughput (target_of w0 0) = 0 \<longrightarrow>
      ops_done w' = ops_done w + of_nat (length (filter (\<lambda>x. rd_record (snd x)) xs)))"
proof -
  have "\<exists>s1. m_create_group (posix_manager lib) gid n (io w0) = Inr (True, s1)" for n
    using assms(1,9,10) by (simp add: posix_manager_def posix_create_group_def posix_fresh_def)
  from async_io_service.thread_progress [OF posix_service.async_io_service_axioms assms(1-8) this assms(11-15)]
  show ?thesis .
qed

lemma posix_worker_progress_witness:
  "\<exists>w w'. thread_start (posix_manager sized_posix) small_env JobOptions
      (small_worker ((PosixSuspendAsyncIOManager (\<lambda>_. None))\<lparr>p_started := True\<rparr>)) = Inr (True, w) \<and>
    work_loop (posix_manager sized_posix) small_env JobOptions (replicate 5 ([0], round_reads)) w = Inr (Continue, w') \<and>
    ops_done w' = ops_done w + 5"
proof -
  let ?s = "(PosixSuspendAsyncIOManager (\<lambda>_. None))\<lparr>p_started := True\<rparr>" and ?xs = "replicate 5 ([0 :: off_t], round_reads)"
  have f: "posix_fresh 7 (io (small_worker ?s))"
    by (simp add: posix_fresh_def small_worker_def PosixSuspendAsyncIOManager_def)
  have g: "thread_gid (small_worker ?s) = 7" by (simp add: thread_gid_def small_worker_def)
  have d: "depth (small_worker ?s) \<le> posix_room (io (small_worker ?s))" "0 < depth (small_worker ?s)"
    by (simp_all add: small_depth posix_room_def) (simp add: small_worker_def PosixSuspendAsyncIOManager_def)
  have n: "time_us small_env = Inr 1000" by (simp add: small_env_def)
  have sv: "posix_serves sized_posix (\<lambda>k. k) 7 (io (small_worker ?s))"
    using sized_posix_serves by (simp add: posix_serves_def small_worker_def PosixSuspendAsyncIOManager_def)
  have o: "\<not> measure_latency JobOptions" "\<not> measure_iops_std_dev JobOptions" by (simp_all add: JobOptions_def)
  have k: "group_queues (io (small_worker ?s)) 7 = None" "suspend_vecs (io (small_worker ?s)) 7 = None"
    by (simp_all add: small_worker_def PosixSuspendAsyncIOManager_def)
  have r: "\<forall>x \<in> set ?xs. rely (small_worker ?s) (fst x) \<and> rd_run (snd x) \<and> rd_run_after (snd x)"
    by (simp add: rely_def round_reads_def small_worker_def small_target_def Target_def)
  have t: "max_throughput (target_of (small_worker ?s) 0) = 0"
    by (simp add: target_of_def small_worker_def TargetData_def small_target_def Target_def)
  from posix_worker_progress [OF f g small_targets_ok small_results_ok n d sv k small_env_ready small_blocks o r] t show ?thesis
    by (auto simp: round_reads_def)
qed

text \<open>
  C18. The time stamp given to a new operation is lost: over both engines the time of an operation is
  undefined until the worker sets it, so that with \<open>-L\<close> or \<open>-D\<close> recording the first completion of an
  operation that has been submitted once reads an uninitialised variable.
\<close>

theorem start_time_is_lost:
  assumes "measure_latency opt \<or> measure_iops_std_dev opt"
    and "kernel_construct ty fd off rbuf wbuf sz gid td stamp s = Inr (i, s')"
    and "posix_construct ty fd off rbuf wbuf sz gid td stamp p = Inr (j, p')"
  shows "record_op opt ty ret now (get_time (kernel_manager lib) i s') res = Inl Undefined \<and>
    record_op opt ty ret now (get_time (posix_manager plib) j p') res = Inl Undefined"
  using assms by (auto simp: record_op_def Let_def kernel_manager_def posix_manager_def kernel_construct_def
      posix_construct_def KernelAsyncIop_def PosixAsyncIop_def k_get_time_def p_get_time_def split: if_splits)

lemma start_time_is_lost_witness:
  "record_op (JobOptions\<lparr>measure_latency := True\<rparr>) READ_IOP 16 2000
     (get_time (kernel_manager small_lib) 0
       (snd (projr (kernel_construct READ_IOP 3 0 1 1 16 7 0 1000 ((KernelAsyncIOManager [])\<lparr>k_started := True\<rparr>)))))
     TargetResults = Inl Undefined"
proof -
  let ?k = "(KernelAsyncIOManager ([] :: u64 list))\<lparr>k_started := True\<rparr>"
    and ?p = "(PosixSuspendAsyncIOManager ())\<lparr>p_started := True\<rparr>"
  obtain s' where s: "kernel_construct READ_IOP 3 0 1 1 16 7 0 1000 ?k = Inr (0, s')"
    by (simp add: kernel_construct_def KernelAsyncIOManager_def)
  obtain p' where p: "posix_construct READ_IOP 3 0 1 1 16 7 0 1000 ?p = Inr (0, p')"
    by (simp add: posix_construct_def PosixSuspendAsyncIOManager_def)
  from start_time_is_lost [OF _ s p, of "JobOptions\<lparr>measure_latency := True\<rparr>"] s show ?thesis by simp
qed

text \<open>
  C11. An operation that fails or transfers less than a block stops the run: whatever the engine, the
  round ends as an abort with nothing recorded, the threads are told to stop, the error is marked,
  and the job is woken when the worker had finished its start.
\<close>

theorem failed_operation_aborts:
  assumes "rd_run rd" and "rd_run_after rd"
    and "\<not> throttled opt (max_throughput (target_of w 0)) rd (thread_bytes_count w)"
    and "m_wait m (thread_gid w) (io w) = Inr (op, s1)"
    and "get_errno m op s1 \<noteq> 0 \<or> word_of_int (get_ret m op s1) \<noteq> block_size (target_of w (get_target_data m op s1))"
  shows "\<exists>w'. work_step m env opt rd w = Inr (Aborted, w') \<and> targets w' = targets w \<and>
    \<not> run_threads (params w') \<and> thread_error (params w') \<and> error_notified (params w') = initialized (params w)"
  using assms by (simp add: work_step_def target_of_def Let_def thread_abort_def)

definition short_lib :: "u64 list libaio" where
  "short_lib = fifo_lib\<lparr>io_getevents := (\<lambda>c k. case k of [] \<Rightarrow> ((0, 0, 0), k) | d # ds \<Rightarrow> ((1, d, 8), ds))\<rparr>"

lemma short_transfer:
  "case bindE (thread_start (kernel_manager short_lib) small_env JobOptions (small_worker ((KernelAsyncIOManager [])\<lparr>k_started := True\<rparr>)))
     (\<lambda>(b, w). bindE (m_wait (kernel_manager short_lib) (thread_gid w) (io w))
        (\<lambda>(op, s1). Inr (b \<and> max_throughput (target_of w 0) = 0 \<and> get_errno (kernel_manager short_lib) op s1 = 0 \<and>
          word_of_int (get_ret (kernel_manager short_lib) op s1) \<noteq>
          block_size (target_of w (get_target_data (kernel_manager short_lib) op s1)))))
   of Inl f \<Rightarrow> False | Inr b \<Rightarrow> b"
  by code_simp

lemma failed_operation_aborts_witness:
  "\<exists>w w'. thread_start (kernel_manager short_lib) small_env JobOptions
      (small_worker ((KernelAsyncIOManager [])\<lparr>k_started := True\<rparr>)) = Inr (True, w) \<and>
    work_step (kernel_manager short_lib) small_env JobOptions round_reads w = Inr (Aborted, w') \<and>
    thread_error (params w')"
proof -
  from sum_caseD [OF short_transfer] obtain w op s1 where
    w: "thread_start (kernel_manager short_lib) small_env JobOptions (small_worker ((KernelAsyncIOManager [])\<lparr>k_started := True\<rparr>)) = Inr (True, w)"
    and m: "m_wait (kernel_manager short_lib) (thread_gid w) (io w) = Inr (op, s1)"
    and c: "max_throughput (target_of w 0) = 0"
      "get_errno (kernel_manager short_lib) op s1 \<noteq> 0 \<or> word_of_int (get_ret (kernel_manager short_lib) op s1) \<noteq>
       block_size (target_of w (get_target_data (kernel_manager short_lib) op s1))"
    by (auto simp: bindE_Inr_iff)
  have r: "rd_run round_reads" "rd_run_after round_reads"
    "\<not> throttled JobOptions (max_throughput (target_of w 0)) round_reads (thread_bytes_count w)"
    by (simp_all add: round_reads_def throttled_def c(1))
  from failed_operation_aborts [OF r m c(2), of small_env] w show ?thesis by blast
qed

text \<open>
  C13. A worker that leaves its loop when the job stops it closes exactly the files that it opened, one
  for each of its targets, all of them opened successfully. A worker that returns early closes none, even
  of those it has opened.
\<close>

theorem thread_closes_files:
  assumes "thread_func m env opt xs w0 = Inr (out, w', fds)"
  shows "(out = Left_Loop \<longrightarrow> fds = map (opened_by env w0) [0..<length (targets w0)] \<and> - 1 \<notin> set fds) \<and>
    (out \<noteq> Left_Loop \<longrightarrow> fds = [])"
proof (cases "out = Left_Loop")
  case True
  with assms obtain w where s: "thread_start m env opt w0 = Inr (True, w)"
    and l: "work_loop m env opt xs w = Inr (out, w')" and c: "fds = map td_fd (targets w')"
    by (auto simp: thread_func_def bindE_Inr_iff split: if_splits)
  with thread_start_fds [OF s] work_loop_fds [OF l] True show ?thesis by auto
next
  case False
  with assms show ?thesis by (auto simp: thread_func_def bindE_Inr_iff split: if_splits)
qed

lemma small_func_posix:
  "case thread_func (posix_manager small_posix) small_env JobOptions
     [([0], round_reads), ([0], round_reads\<lparr>rd_run := False\<rparr>)]
     (small_worker ((PosixSuspendAsyncIOManager ())\<lparr>p_started := True\<rparr>))
   of Inl f \<Rightarrow> False | Inr (out, w, fds) \<Rightarrow> out = Left_Loop"
  by code_simp

lemma thread_closes_files_witness:
  "\<exists>w'. thread_func (posix_manager small_posix) small_env JobOptions
     [([0], round_reads), ([0], round_reads\<lparr>rd_run := False\<rparr>)]
     (small_worker ((PosixSuspendAsyncIOManager ())\<lparr>p_started := True\<rparr>)) = Inr (Left_Loop, w', [3])"
proof -
  from sum_caseD [OF small_func_posix] obtain w' fds where
    r: "thread_func (posix_manager small_posix) small_env JobOptions
      [([0], round_reads), ([0], round_reads\<lparr>rd_run := False\<rparr>)]
      (small_worker ((PosixSuspendAsyncIOManager ())\<lparr>p_started := True\<rparr>)) = Inr (Left_Loop, w', fds)" by auto
  from thread_closes_files [OF r] have "fds = [3]"
    by (simp add: opened_by_def small_worker_def small_env_def)
  with r show ?thesis by blast
qed

text \<open>
  C12. A block of 2 GB or more can never be transferred: \<open>wait\<close> converts the number of bytes to an \<open>int\<close>,
  so that whatever the kernel reports, the worker takes it for a failed operation and aborts the run.
\<close>

theorem large_blocks_abort:
  assumes "kernel_inv lib pending (thread_gid w) (io w)"
    and "kernel_wait lib (thread_gid w) (io w) = Inr (op, s1)"
    and "2 ^ 31 \<le> unat (block_size (target_of w (k_target_data (k_ops s1 ! op))))"
    and "unat (block_size (target_of w (k_target_data (k_ops s1 ! op)))) < 2 ^ 64 - 2 ^ 31"
    and "rd_run rd" and "rd_run_after rd" and "\<not> throttled opt (max_throughput (target_of w 0)) rd (thread_bytes_count w)"
  shows "\<exists>w'. work_step (kernel_manager lib) env opt rd w = Inr (Aborted, w') \<and> thread_error (params w') \<and>
    targets w' = targets w"
proof -
  let ?t = "target_of w (k_target_data (k_ops s1 ! op))"
  from kernel_wait_result [OF assms(1,2)] obtain n where "k_result (k_ops s1 ! op) = as_int n" by blast
  with as_int_large [OF assms(3,4)] have "word_of_int (k_result (k_ops s1 ! op)) \<noteq> block_size ?t" by simp
  with assms(2,5-7) show ?thesis
    by (simp add: work_step_def kernel_manager_def target_of_def Let_def thread_abort_def)
qed

text \<open>A kernel that reports 2 GB for every request.\<close>

definition huge_lib :: "u64 list libaio" where
  "huge_lib = fifo_lib\<lparr>io_getevents := (\<lambda>c k. case k of [] \<Rightarrow> ((0, 0, 0), k) | d # ds \<Rightarrow> ((1, d, 2147483648), ds))\<rparr>"

definition huge_worker :: "(unit, unit, u64 list kernel_state) worker" where
  "huge_worker = (small_worker two_flying)\<lparr>job_targets := [small_target\<lparr>block_size := 2147483648\<rparr>]\<rparr>"

lemma huge_wait:
  "case kernel_wait huge_lib 7 two_flying of Inl f \<Rightarrow> False | Inr (op, s1) \<Rightarrow> k_target_data (k_ops s1 ! op) = 0"
  by code_simp

lemma large_blocks_abort_witness:
  "\<exists>w'. work_step (kernel_manager huge_lib) small_env JobOptions round_reads huge_worker = Inr (Aborted, w') \<and>
    thread_error (params w')"
proof -
  have g: "thread_gid huge_worker = 7" "io huge_worker = two_flying"
    by (simp_all add: thread_gid_def huge_worker_def small_worker_def)
  have "libaio_ok huge_lib fifo_pending"
    by (auto simp: libaio_ok_def huge_lib_def fifo_lib_def fifo_pending_def split: list.splits)
  then have i: "kernel_inv huge_lib fifo_pending (thread_gid huge_worker) (io huge_worker)"
    using two_flying_inv by (simp add: g kernel_inv_def)
  from sum_caseD [OF huge_wait] obtain op s1 where
    w: "kernel_wait huge_lib (thread_gid huge_worker) (io huge_worker) = Inr (op, s1)" and k: "k_target_data (k_ops s1 ! op) = 0"
    by (auto simp: g)
  have t: "target_of huge_worker 0 = small_target\<lparr>block_size := 2147483648\<rparr>"
    by (simp add: target_of_def huge_worker_def small_worker_def TargetData_def)
  have r: "rd_run round_reads" "rd_run_after round_reads"
    "\<not> throttled JobOptions (max_throughput (target_of huge_worker 0)) round_reads (thread_bytes_count huge_worker)"
    by (simp_all add: round_reads_def throttled_def t small_target_def Target_def)
  have b: "2 ^ 31 \<le> unat (block_size (target_of huge_worker (k_target_data (k_ops s1 ! op))))"
    "unat (block_size (target_of huge_worker (k_target_data (k_ops s1 ! op)))) < 2 ^ 64 - 2 ^ 31"
    by (simp_all add: k t)
  from large_blocks_abort [OF i w b r] show ?thesis by blast
qed

end
