(* ===== verification/Options.thy ===== *)
theory Options
  imports Prelude
begin

unbundle bit_operations_syntax

text \<open>
  Command line options (\<open>src/src/options.h\<close>, \<open>src/src/options.cc\<close>): the table of
  options, the argument checks, the conversion of arguments to numbers, and the callback that
  glibc's \<open>argp_parse\<close> drives. C strings are lists of characters without their
  terminating NUL. Left out: the help texts and the messages on stderr.
\<close>

section \<open>C strings and strtoull\<close>

definition NUL :: char where
  "NUL = CHR 0x00"

text \<open>\<open>arg[i]\<close> for an index up to the terminator.\<close>

definition char_at :: "string \<Rightarrow> nat \<Rightarrow> char" where
  "char_at s i = (if i < length s then s ! i else NUL)"

definition code :: "char \<Rightarrow> nat" where
  "code c = of_char c"

definition is_digit :: "char \<Rightarrow> bool" where
  "is_digit c \<longleftrightarrow> \<not> (code c < 48 \<or> code c > 57)"

definition is_space :: "char \<Rightarrow> bool" where
  "is_space c \<longleftrightarrow> code c = 32 \<or> (9 \<le> code c \<and> code c \<le> 13)"

definition digits_value :: "string \<Rightarrow> nat" where
  "digits_value ds = foldl (\<lambda>n c. 10 * n + (code c - 48)) 0 ds"

text \<open>
  The C library's \<open>strtoull\<close> in base 10: the value, saturated at the largest 64-bit
  number, and the rest of the string (the end pointer).
\<close>

definition strtoull :: "string \<Rightarrow> u64 \<times> string" where
  "strtoull s =
    (let s1 = dropWhile is_space s;
         neg = (s1 \<noteq> [] \<and> hd s1 = CHR ''-'');
         s2 = (if s1 \<noteq> [] \<and> (hd s1 = CHR ''-'' \<or> hd s1 = CHR ''+'') then tl s1 else s1);
         ds = takeWhile is_digit s2
     in if ds = [] then (0, s)
        else (if digits_value ds \<ge> 2 ^ 64 then - 1
              else if neg then - word_of_nat (digits_value ds)
              else word_of_nat (digits_value ds), dropWhile is_digit s2))"

section \<open>The option table\<close>

datatype OptionType =
    CPU_AFFINITY | BLOCK_SIZE | BASE_OFFSET | CREATE_FILES | DURATION | DIOPS | MAX_SIZE
  | TOTAL_THREADS | MAX_THROUGHPUT | LATENCY | NO_AFFINITY | OVERLAP | RANDOM_ALIGN
  | SEQUENTIAL_STRIDE | CACHING_OPTIONS | THREADS_PER_TARGET | THREAD_STRIDE | VERBOSE
  | IO_ENGINE | WRITE | WARMUP_TIME | RAND_SEED | IO_BUFFERS

definition OPT_NUMERIC :: u32 where "OPT_NUMERIC = 0x1"
definition OPT_BYTE_SIZE :: u32 where "OPT_BYTE_SIZE = 0x2"
definition OPT_NON_ZERO :: u32 where "OPT_NON_ZERO = 0x4"

text \<open>From \<open>argp.h\<close>: an option whose argument is optional, and the key of a non-option argument.\<close>

definition OPTION_ARG_OPTIONAL :: u32 where "OPTION_ARG_OPTIONAL = 0x1"
definition ARGP_KEY_ARG :: int where "ARGP_KEY_ARG = 0"

record DiskspdOption =
  otype :: OptionType
  oflags :: u32
  oarg :: string
  opt_name :: string
  opt_key :: int
  opt_arg :: "string option"
  opt_flags :: u32

text \<open>One entry of the map initializer: the key of the map is the key of the argp option.\<close>

definition entry ::
  "char \<Rightarrow> OptionType \<Rightarrow> u32 \<Rightarrow> string \<Rightarrow> string option \<Rightarrow> u32 \<Rightarrow> int \<times> DiskspdOption" where
  "entry key ty fl name arg aflags =
    (int (code key), \<lparr>otype = ty, oflags = fl, oarg = '''', opt_name = name,
       opt_key = int (code key), opt_arg = arg, opt_flags = aflags\<rparr>)"

definition table_a_to_D :: "(int \<times> DiskspdOption) list" where
  "table_a_to_D =
    [entry CHR ''a'' CPU_AFFINITY 0 ''cpu-affinity'' (Some ''CPU_SET'') 0,
     entry CHR ''b'' BLOCK_SIZE (OPT_BYTE_SIZE OR OPT_NON_ZERO) ''block-size''
       (Some ''BLOCK_SIZE[K|M|G]'') 0,
     entry CHR ''B'' BASE_OFFSET OPT_BYTE_SIZE ''base-offset'' (Some ''BASE_OFFSET[K|M|G|b]'') 0,
     entry CHR ''c'' CREATE_FILES (OPT_BYTE_SIZE OR OPT_NON_ZERO) ''create-files''
       (Some ''FILE_SIZE[K|M|G|b]'') 0,
     entry CHR ''d'' DURATION (OPT_NUMERIC OR OPT_NON_ZERO) ''duration'' (Some ''DURATION'') 0,
     entry CHR ''D'' DIOPS OPT_NUMERIC ''iops-std-dev'' (Some ''INTERVAL'') OPTION_ARG_OPTIONAL]"

definition table_f_to_n :: "(int \<times> DiskspdOption) list" where
  "table_f_to_n =
    [entry CHR ''f'' MAX_SIZE (OPT_BYTE_SIZE OR OPT_NON_ZERO) ''target-size''
       (Some ''MAX_FILE_SIZE[K|M|G|b]'') 0,
     entry CHR ''F'' TOTAL_THREADS OPT_NUMERIC ''total-threads'' (Some ''TOTAL_THREADS'') 0,
     entry CHR ''g'' MAX_THROUGHPUT (OPT_BYTE_SIZE OR OPT_NON_ZERO) ''throttle-throughput''
       (Some ''THROUGHPUT_PER_MS[K|M|G|b]'') 0,
     entry CHR ''L'' LATENCY 0 ''latency'' None 0,
     entry CHR ''n'' NO_AFFINITY 0 ''no-affinity'' None 0]"

definition table_o_to_T :: "(int \<times> DiskspdOption) list" where
  "table_o_to_T =
    [entry CHR ''o'' OVERLAP (OPT_NUMERIC OR OPT_NON_ZERO) ''overlap'' (Some ''OVERLAP'') 0,
     entry CHR ''r'' RANDOM_ALIGN (OPT_BYTE_SIZE OR OPT_NON_ZERO) ''random-align''
       (Some ''RANDOM_ALIGNMENT[K|M|G|b]'') OPTION_ARG_OPTIONAL,
     entry CHR ''s'' SEQUENTIAL_STRIDE 0 ''sequential-stride'' (Some ''[i]STRIDE_SIZE[K|M|G|b]'') 0,
     entry CHR ''S'' CACHING_OPTIONS 0 ''caching-options'' (Some ''[d|s|h]'') 0,
     entry CHR ''t'' THREADS_PER_TARGET (OPT_NUMERIC OR OPT_NON_ZERO) ''threads-per-target''
       (Some ''THREADS_PER_TARGET'') 0,
     entry CHR ''T'' THREAD_STRIDE OPT_BYTE_SIZE ''thread-stride''
       (Some ''THREAD-STRIDE[K|M|G|b]'') 0]"

definition table_v_to_Z :: "(int \<times> DiskspdOption) list" where
  "table_v_to_Z =
    [entry CHR ''v'' VERBOSE 0 ''verbose'' None 0,
     entry CHR ''w'' WRITE OPT_NUMERIC ''write'' (Some ''WRITE_PERCENTAGE'') OPTION_ARG_OPTIONAL,
     entry CHR ''W'' WARMUP_TIME OPT_NUMERIC ''warmup-time'' (Some ''WARMUP_TIME'') 0,
     entry CHR ''x'' IO_ENGINE 0 ''io-engine'' (Some ''[k|p]'') 0,
     entry CHR ''z'' RAND_SEED OPT_NUMERIC ''rand-seed'' (Some ''RAND_SEED'') OPTION_ARG_OPTIONAL,
     entry CHR ''Z'' IO_BUFFERS 0 ''io-buffers'' (Some ''[zrs]'') 0]"

definition option_table :: "(int \<times> DiskspdOption) list" where
  "option_table = table_a_to_D @ table_f_to_n @ table_o_to_T @ table_v_to_Z"

section \<open>Argument checks and conversions\<close>

definition is_numeric :: "string \<Rightarrow> bool" where
  "is_numeric arg =
    (if char_at arg 0 = CHR ''0'' \<and> char_at arg 1 \<noteq> NUL then False else list_all is_digit arg)"

text \<open>The loop of \<open>valid_byte_size\<close>: a non-digit must be one of the suffixes, and the last character.\<close>

primrec suffix_loop :: "string \<Rightarrow> bool" where
  "suffix_loop [] = True"
| "suffix_loop (c # cs) =
    (if (code c < 48 \<or> code c > 57) \<and> \<not> (c \<in> set ''KMGb'' \<and> cs = []) then False
     else suffix_loop cs)"

definition valid_byte_size :: "string \<Rightarrow> bool" where
  "valid_byte_size arg =
    (if code (char_at arg 0) \<le> 48 \<or> code (char_at arg 0) > 57 then False else suffix_loop arg)"

definition getSizeMultiplier :: "char \<Rightarrow> size_t \<Rightarrow> fault + u64" where
  "getSizeMultiplier specifier block_sz =
    (if specifier = CHR ''K'' then Inr 1024
     else if specifier = CHR ''M'' then Inr 1048576
     else if specifier = CHR ''G'' then Inr 1073741824
     else if specifier = CHR ''b'' then Inr block_sz
     else Inl Assert_Failed)"

definition byte_size_from_arg :: "string \<Rightarrow> size_t \<Rightarrow> fault + u64" where
  "byte_size_from_arg curr_arg block_sz =
    (let (offset, endptr) = strtoull curr_arg
     in bindE (if endptr \<noteq> [] then getSizeMultiplier (hd endptr) block_sz else Inr 1)
       (\<lambda>multiplier. let final_offset = offset * multiplier
          in if final_offset <s 0 then Inl Assert_Failed else Inr final_offset))"

section \<open>The Options object\<close>

datatype error_t = EOK | EINVAL | ARGP_ERR_UNKNOWN

record options =
  opts :: "OptionType \<Rightarrow> int option"
  opt_map :: "int \<Rightarrow> DiskspdOption option"
  non_opts :: "string list"

definition Options :: options where
  "Options = \<lparr>opts = (\<lambda>_. None), opt_map = map_of option_table, non_opts = []\<rparr>"

definition get_arg :: "OptionType \<Rightarrow> options \<Rightarrow> string option" where
  "get_arg ty s = (case opts s ty of None \<Rightarrow> None | Some k \<Rightarrow> map_option oarg (opt_map s k))"

definition get_non_opts :: "options \<Rightarrow> string list" where
  "get_non_opts s = non_opts s"

text \<open>
  The template \<open>arg_to_number<T>\<close> with the largest value of \<open>T\<close> as \<open>tmax\<close>: the
  boolean result, and the number stored through \<open>ret\<close> if one is stored.
\<close>

definition arg_to_number ::
  "u64 \<Rightarrow> OptionType \<Rightarrow> size_t \<Rightarrow> options \<Rightarrow> fault + bool \<times> u64 option" where
  "arg_to_number tmax ty block_sz s =
    (case opts s ty of
       None \<Rightarrow> Inr (False, None)
     | Some k \<Rightarrow>
         (case opt_map s k of
            None \<Rightarrow> Inl Undefined
          | Some d \<Rightarrow>
              if oarg d = [] then Inr (True, None)
              else bindE
                (if oflags d AND OPT_NUMERIC \<noteq> 0 then Inr (fst (strtoull (oarg d)))
                 else if oflags d AND OPT_BYTE_SIZE \<noteq> 0 then byte_size_from_arg (oarg d) block_sz
                 else Inl Assert_Failed)
                (\<lambda>result. if result > tmax then Inl Exit_Failure else Inr (True, Some result))))"

text \<open>The argp callback.\<close>

definition parse_arg :: "int \<Rightarrow> string option \<Rightarrow> options \<Rightarrow> fault + error_t \<times> options" where
  "parse_arg key arg s =
    (case opt_map s key of
       Some d \<Rightarrow>
         if opts s (otype d) \<noteq> None then Inr (EINVAL, s)
         else
           let s1 = s\<lparr>opts := (opts s)(otype d \<mapsto> key)\<rparr>
           in (case arg of
                 None \<Rightarrow> Inr (EOK, s1)
               | Some a \<Rightarrow>
                   let s2 = s1\<lparr>opt_map := (opt_map s1)(key \<mapsto> d\<lparr>oarg := a\<rparr>)\<rparr>
                   in if oflags d AND OPT_NUMERIC \<noteq> 0 \<and> \<not> is_numeric a then Inr (EINVAL, s2)
                      else if oflags d AND OPT_BYTE_SIZE \<noteq> 0 \<and> \<not> valid_byte_size a
                        then Inr (EINVAL, s2)
                      else if oflags d AND OPT_NON_ZERO \<noteq> 0 \<and>
                          (char_at a 0 = CHR ''0'' \<and>
                            (code (char_at a 1) < 49 \<or> code (char_at a 1) > 57))
                        then Inr (EINVAL, s2)
                      else Inr (EOK, s2))
     | None \<Rightarrow>
         if key = ARGP_KEY_ARG then
           (case arg of
              None \<Rightarrow> Inl Logic_Error
            | Some a \<Rightarrow> Inr (EOK, s\<lparr>non_opts := non_opts s @ [a]\<rparr>))
         else Inr (ARGP_ERR_UNKNOWN, s))"

text \<open>
  \<open>parse_args\<close> over glibc's \<open>argp_parse\<close>, a parameter: it gets the option table, the
  callback, the arguments and the object, and returns an error code and the object.
\<close>

type_synonym argp =
  "DiskspdOption list \<Rightarrow> (int \<Rightarrow> string option \<Rightarrow> options \<Rightarrow> fault + error_t \<times> options)
    \<Rightarrow> string list \<Rightarrow> options \<Rightarrow> fault + error_t \<times> options"

definition parse_args :: "argp \<Rightarrow> string list \<Rightarrow> options \<Rightarrow> fault + bool \<times> options" where
  "parse_args argp_parse argv s =
    (if length argv \<le> 1 then Inr (False, s)
     else bindE (argp_parse (map snd (sort_key fst option_table)) parse_arg argv s)
       (\<lambda>(err, s'). if err \<noteq> EOK then Inr (False, s') else Inr (True, s')))"

section \<open>Decimal numerals\<close>

text \<open>The decimal rendering of a number, without leading zeros.\<close>

fun dec :: "nat \<Rightarrow> string" where
  "dec n = (if n < 10 then [char_of (48 + n)] else dec (n div 10) @ [char_of (48 + n mod 10)])"

declare dec.simps [simp del]

lemma code_char_of [simp]: "n < 256 \<Longrightarrow> code (char_of n) = n"
  by (simp add: code_def)

lemma char_of_code [simp]: "char_of (code c) = c"
  by (simp add: code_def)

lemma code_inj: "code c = code d \<longleftrightarrow> c = d"
  by (simp add: code_def)

lemma code_NUL [simp]: "code NUL = 0"
  by (simp add: NUL_def code_def)

lemma is_digit_code: "is_digit c \<longleftrightarrow> 48 \<le> code c \<and> code c \<le> 57"
  by (auto simp: is_digit_def)

lemma digits_value_simps [simp]:
  "digits_value [] = 0"
  "digits_value (ds @ [c]) = 10 * digits_value ds + (code c - 48)"
  by (simp_all add: digits_value_def)

lemma dec_not_Nil [simp]: "dec n \<noteq> []"
  by (subst dec.simps) simp

lemma is_digit_char_of: "d < (10 :: nat) \<Longrightarrow> is_digit (char_of (48 + d))"
  by (simp add: is_digit_code)

lemma dec_digits: "list_all is_digit (dec n)"
proof (induction n rule: dec.induct)
  case (1 n)
  then show ?case
    by (subst dec.simps) (auto simp: is_digit_char_of)
qed

lemma digits_value_dec [simp]: "digits_value (dec n) = n"
proof (induction n rule: dec.induct)
  case (1 n)
  show ?case
  proof (cases "n < 10")
    case True
    then show ?thesis
      using digits_value_simps(2) [of "[]" "char_of (48 + n)"] by (subst dec.simps) simp
  next
    case False
    with 1 show ?thesis by (subst dec.simps) simp
  qed
qed

lemma hd_dec: "code (hd (dec n)) = 48 \<longleftrightarrow> n = 0"
proof (induction n rule: dec.induct)
  case (1 n)
  then show ?case by (cases "n < 10") (subst dec.simps, simp)+
qed

lemma dec_snoc: "0 < n \<Longrightarrow> d < 10 \<Longrightarrow> dec (10 * n + d) = dec n @ [char_of (48 + d)]"
  by (subst dec.simps) simp

lemma dec_unique:
  assumes "list_all is_digit a" and "a \<noteq> []" and "code (hd a) = 48 \<longrightarrow> length a = 1"
  shows "a = dec (digits_value a)"
  using assms
proof (induction a rule: rev_induct)
  case Nil
  then show ?case by simp
next
  case (snoc c xs)
  have c: "48 \<le> code c" "code c - 48 < 10" using snoc.prems(1) by (auto simp: is_digit_code)
  show ?case
  proof (cases "xs = []")
    case True
    with c show ?thesis
      using digits_value_simps(2) [of "[]" c] by (subst dec.simps) simp
  next
    case False
    with snoc.prems have hd: "code (hd xs) \<noteq> 48" by (auto simp: neq_Nil_conv)
    with False snoc have xs: "xs = dec (digits_value xs)" by simp
    with hd hd_dec have "digits_value xs \<noteq> 0" by metis
    with c dec_snoc [of "digits_value xs" "code c - 48"]
    have "dec (digits_value (xs @ [c])) = dec (digits_value xs) @ [c]" by simp
    with xs show ?thesis by simp
  qed
qed

lemma is_numeric_iff: "NUL \<notin> set a \<Longrightarrow> is_numeric a \<longleftrightarrow> a = [] \<or> (\<exists>n. a = dec n)"
proof
  assume "NUL \<notin> set a" "is_numeric a"
  moreover have "code (hd a) = 48 \<longrightarrow> length a = 1" if "a \<noteq> []"
  proof
    assume "code (hd a) = 48"
    then have "hd a = CHR ''0''" by (simp add: code_inj [symmetric]) (simp add: code_def)
    with calculation that show "length a = 1"
      by (cases a; cases "tl a") (auto simp: is_numeric_def char_at_def split: if_splits)
  qed
  ultimately show "a = [] \<or> (\<exists>n. a = dec n)"
    using dec_unique by (auto simp: is_numeric_def split: if_splits)
next
  assume "a = [] \<or> (\<exists>n. a = dec n)"
  then show "is_numeric a"
  proof
    assume "\<exists>n. a = dec n"
    then obtain n where n: "a = dec n" ..
    have "\<not> (char_at a 0 = CHR ''0'' \<and> char_at a 1 \<noteq> NUL)"
    proof (cases "n = 0")
      case True
      then show ?thesis by (simp add: n dec.simps [of 0] char_at_def)
    next
      case False
      then have "code (char_at a 0) \<noteq> 48" by (simp add: n hd_dec char_at_def flip: hd_conv_nth)
      then show ?thesis by (auto simp: code_def)
    qed
    then show ?thesis by (simp add: is_numeric_def n dec_digits)
  qed (simp add: is_numeric_def char_at_def NUL_def)
qed

section \<open>Byte sizes\<close>

definition suffixes :: "string set" where
  "suffixes = {'''', ''K'', ''M'', ''G'', ''b''}"

text \<open>What a suffix multiplies by, as a number.\<close>

definition suffix_mult :: "string \<Rightarrow> size_t \<Rightarrow> nat" where
  "suffix_mult suf block_sz =
    (if suf = ''K'' then 1024 else if suf = ''M'' then 1048576 else if suf = ''G'' then 1073741824
     else if suf = ''b'' then unat block_sz else 1)"

lemma suffix_not_digit: "suf \<in> suffixes \<Longrightarrow> suf = [] \<or> \<not> is_digit (hd suf)"
  by (auto simp: suffixes_def is_digit_code code_def)

lemma suffix_loop_iff:
  "suffix_loop a \<longleftrightarrow> (\<exists>ds suf. a = ds @ suf \<and> list_all is_digit ds \<and> suf \<in> suffixes)"
proof (induction a)
  case Nil
  then show ?case by (auto simp: suffixes_def)
next
  case (Cons c cs)
  show ?case
  proof (cases "is_digit c")
    case True
    then have "suffix_loop (c # cs) = suffix_loop cs" by (simp add: is_digit_def)
    moreover have "(\<exists>ds suf. c # cs = ds @ suf \<and> list_all is_digit ds \<and> suf \<in> suffixes)
        \<longleftrightarrow> (\<exists>ds suf. cs = ds @ suf \<and> list_all is_digit ds \<and> suf \<in> suffixes)"
    proof safe
      fix ds suf assume "c # cs = ds @ suf" "list_all is_digit ds" "suf \<in> suffixes"
      then show "\<exists>ds suf. cs = ds @ suf \<and> list_all is_digit ds \<and> suf \<in> suffixes"
        using True suffix_not_digit [of suf] by (cases ds) auto
    next
      fix ds suf assume "list_all is_digit ds" "suf \<in> suffixes"
      then show "\<exists>ds' suf'. c # ds @ suf = ds' @ suf' \<and> list_all is_digit ds' \<and> suf' \<in> suffixes"
        using True by (intro exI [of _ "c # ds"] exI [of _ suf]) simp
    qed
    ultimately show ?thesis using Cons.IH by simp
  next
    case False
    then have "suffix_loop (c # cs) \<longleftrightarrow> c \<in> set ''KMGb'' \<and> cs = []"
      by (auto simp: is_digit_def)
    moreover have "(\<exists>ds suf. c # cs = ds @ suf \<and> list_all is_digit ds \<and> suf \<in> suffixes)
        \<longleftrightarrow> c # cs \<in> suffixes"
    proof safe
      fix ds suf assume "c # cs = ds @ suf" "list_all is_digit ds" "suf \<in> suffixes"
      then show "c # cs \<in> suffixes" using False by (cases ds) auto
    next
      assume "c # cs \<in> suffixes"
      then show "\<exists>ds suf. c # cs = ds @ suf \<and> list_all is_digit ds \<and> suf \<in> suffixes"
        by (intro exI [of _ "[]"] exI [of _ "c # cs"]) simp
    qed
    ultimately show ?thesis by (auto simp: suffixes_def)
  qed
qed

lemma valid_byte_size_iff:
  "valid_byte_size a \<longleftrightarrow> (\<exists>n suf. 0 < n \<and> suf \<in> suffixes \<and> a = dec n @ suf)"
proof
  assume v: "valid_byte_size a"
  then obtain ds suf where a: "a = ds @ suf" "list_all is_digit ds" "suf \<in> suffixes"
    by (auto simp: valid_byte_size_def suffix_loop_iff split: if_splits)
  have hd: "48 < code (char_at a 0)" "code (char_at a 0) \<le> 57"
    using v by (auto simp: valid_byte_size_def not_le split: if_splits)
  then have "a \<noteq> []" by (auto simp: char_at_def)
  then have h: "char_at a 0 = hd a" by (simp add: char_at_def hd_conv_nth)
  have "ds \<noteq> []"
    using a hd h suffix_not_digit [of suf] \<open>a \<noteq> []\<close> by (auto simp: is_digit_code)
  with a hd h have "code (hd ds) \<noteq> 48" by simp
  with a \<open>ds \<noteq> []\<close> have "ds = dec (digits_value ds)" by (intro dec_unique) auto
  moreover from this \<open>code (hd ds) \<noteq> 48\<close> have "0 < digits_value ds" by (metis hd_dec not_gr_zero)
  ultimately show "\<exists>n suf. 0 < n \<and> suf \<in> suffixes \<and> a = dec n @ suf" using a by blast
next
  assume "\<exists>n suf. 0 < n \<and> suf \<in> suffixes \<and> a = dec n @ suf"
  then obtain n suf where a: "0 < n" "suf \<in> suffixes" "a = dec n @ suf" by blast
  then have "suffix_loop a" using dec_digits suffix_loop_iff by blast
  moreover have "char_at a 0 = hd (dec n)" by (simp add: a char_at_def nth_append hd_conv_nth)
  moreover have "is_digit (hd (dec n))" using dec_digits [of n] by (cases "dec n") auto
  moreover have "code (hd (dec n)) \<noteq> 48" using a(1) by (simp add: hd_dec)
  ultimately show "valid_byte_size a" by (auto simp: valid_byte_size_def is_digit_code)
qed

lemma takeWhile_dec:
  assumes "suf = [] \<or> \<not> is_digit (hd suf)"
  shows "takeWhile is_digit (dec n @ suf) = dec n" "dropWhile is_digit (dec n @ suf) = suf"
  using assms dec_digits [of n]
  by (cases suf; auto simp: takeWhile_append dropWhile_append list_all_iff)+

lemma strtoull_dec:
  assumes "suf = [] \<or> \<not> is_digit (hd suf)"
  shows "strtoull (dec n @ suf) = (if n \<ge> 2 ^ 64 then - 1 else word_of_nat n, suf)"
proof -
  have d: "is_digit (hd (dec n))" using dec_digits [of n] by (cases "dec n") auto
  then have "\<not> is_space (hd (dec n))" "hd (dec n) \<noteq> CHR ''-''" "hd (dec n) \<noteq> CHR ''+''"
    by (auto simp: is_digit_code is_space_def code_def)
  then show ?thesis
    using takeWhile_dec [OF assms, of n] digits_value_dec [of n]
    by (cases "dec n") (auto simp: strtoull_def Let_def)
qed

lemma strtoull_dec' [simp]: "strtoull (dec n) = (if n \<ge> 2 ^ 64 then - 1 else word_of_nat n, [])"
  using strtoull_dec [of "[]" n] by simp

lemma byte_size_dec:
  assumes "suf \<in> suffixes" and "n < 2 ^ 64"
  shows "byte_size_from_arg (dec n @ suf) bs =
    (let p = n * suffix_mult suf bs mod 2 ^ 64
     in if p < 2 ^ 63 then Inr (word_of_nat p) else Inl Assert_Failed)"
proof -
  let ?w = "word_of_nat n * (word_of_nat (suffix_mult suf bs) :: u64)"
  have mult: "(if suf \<noteq> [] then getSizeMultiplier (hd suf) bs else Inr 1)
      = Inr (word_of_nat (suffix_mult suf bs))"
    using assms(1) by (auto simp: suffixes_def suffix_mult_def getSizeMultiplier_def)
  have u: "unat ?w = n * suffix_mult suf bs mod 2 ^ 64"
    by (simp add: unat_word_ariths unat_of_nat take_bit_eq_mod mod_mult_eq)
  then have w: "?w = word_of_nat (n * suffix_mult suf bs mod 2 ^ 64)"
    by (simp only: word_unat_eq_iff) (simp add: unat_of_nat take_bit_eq_mod)
  from u have "?w <s 0 \<longleftrightarrow> \<not> n * suffix_mult suf bs mod 2 ^ 64 < 2 ^ 63"
    by (simp add: sless0_unat not_less)
  with assms w show ?thesis
    by (simp add: byte_size_from_arg_def strtoull_dec suffix_not_digit mult Let_def)
qed

section \<open>What the argp parser relies on\<close>

text \<open>
  glibc's \<open>argp_parse\<close> calls the parser once for every option and argument it finds,
  in order, and for its own special keys; it stops with the first error of the parser and
  goes on after \<open>ARGP_ERR_UNKNOWN\<close> for a special key.
\<close>

type_synonym callback = "int \<times> string option"

primrec drive ::
  "(int \<Rightarrow> string option \<Rightarrow> 's \<Rightarrow> fault + error_t \<times> 's) \<Rightarrow> callback list \<Rightarrow> 's
    \<Rightarrow> fault + error_t \<times> 's" where
  "drive parser [] s = Inr (EOK, s)"
| "drive parser (cb # cbs) s =
    bindE (parser (fst cb) (snd cb) s)
      (\<lambda>(e, s'). if e = EINVAL then Inr (EINVAL, s') else drive parser cbs s')"

text \<open>
  An option whose table entry names no argument gets none, one whose argument is not
  optional gets one, a non-option argument is a string, and no C string contains NUL.
\<close>

definition callback_ok :: "callback \<Rightarrow> bool" where
  "callback_ok cb \<longleftrightarrow>
    (case map_of option_table (fst cb) of
       None \<Rightarrow> fst cb = ARGP_KEY_ARG \<longrightarrow> snd cb \<noteq> None
     | Some d \<Rightarrow> (opt_arg d = None \<longrightarrow> snd cb = None) \<and>
         (opt_arg d \<noteq> None \<and> opt_flags d AND OPTION_ARG_OPTIONAL = 0 \<longrightarrow> snd cb \<noteq> None)) \<and>
    (\<forall>a. snd cb = Some a \<longrightarrow> NUL \<notin> set a)"

definition argp_contract :: "argp \<Rightarrow> bool" where
  "argp_contract argp_parse \<longleftrightarrow>
    (\<forall>tbl argv s s'. argp_parse tbl parse_arg argv s = Inr (EOK, s') \<longrightarrow>
      (\<exists>cbs. list_all callback_ok cbs \<and> drive parse_arg cbs s = Inr (EOK, s')))"

section \<open>What an accepted command line leaves in the object\<close>

text \<open>The check that the table's flags ask for.\<close>

definition arg_valid :: "u32 \<Rightarrow> string \<Rightarrow> bool" where
  "arg_valid fl a \<longleftrightarrow>
    (fl AND OPT_NUMERIC \<noteq> 0 \<longrightarrow> is_numeric a) \<and>
    (fl AND OPT_BYTE_SIZE \<noteq> 0 \<longrightarrow> valid_byte_size a) \<and>
    (fl AND OPT_NON_ZERO \<noteq> 0 \<longrightarrow>
      \<not> (char_at a 0 = CHR ''0'' \<and> (code (char_at a 1) < 49 \<or> code (char_at a 1) > 57)))"

definition arg_string :: "string option \<Rightarrow> string" where
  "arg_string a = (case a of None \<Rightarrow> [] | Some x \<Rightarrow> x)"

definition positional :: "callback list \<Rightarrow> string list" where
  "positional cbs = concat (map (\<lambda>(k, a). if k = ARGP_KEY_ARG then [arg_string a] else []) cbs)"

text \<open>The object after the callbacks \<open>cbs\<close>, none of which was refused.\<close>

definition parsed :: "callback list \<Rightarrow> options \<Rightarrow> bool" where
  "parsed cbs s \<longleftrightarrow>
    (\<forall>ty k. opts s ty = Some k \<longleftrightarrow>
      (\<exists>d. map_of option_table k = Some d \<and> otype d = ty \<and> k \<in> fst ` set cbs)) \<and>
    (\<forall>k. opt_map s k = (case map_of option_table k of
       None \<Rightarrow> None
     | Some d \<Rightarrow> Some (d\<lparr>oarg := (case map_of cbs k of None \<Rightarrow> [] | Some a \<Rightarrow> arg_string a)\<rparr>))) \<and>
    non_opts s = positional cbs \<and>
    distinct (filter (\<lambda>k. map_of option_table k \<noteq> None) (map fst cbs)) \<and>
    (\<forall>k a d. (k, Some a) \<in> set cbs \<longrightarrow> map_of option_table k = Some d \<longrightarrow> arg_valid (oflags d) a)"

lemma table_keys_distinct: "distinct (map fst option_table)"
  by code_simp

lemma table_types_distinct: "distinct (map (otype \<circ> snd) option_table)"
  by code_simp

lemma table_args_empty: "map_of option_table k = Some d \<Longrightarrow> oarg d = []"
proof -
  have "list_all (\<lambda>(k, d). oarg d = []) option_table" by code_simp
  moreover assume "map_of option_table k = Some d"
  ultimately show ?thesis by (auto simp: list_all_iff dest: map_of_SomeD)
qed

lemma no_key_arg: "map_of option_table ARGP_KEY_ARG = None"
  by code_simp

lemma table_type_key:
  assumes "map_of option_table k = Some d" and "map_of option_table k' = Some d'"
    and "otype d = otype d'"
  shows "k = k' \<and> d = d'"
proof -
  have "inj_on (otype \<circ> snd) (set option_table)"
    using table_types_distinct by (simp add: distinct_map)
  from inj_onD [OF this, of "(k, d)" "(k', d')"] assms show ?thesis
    by (auto dest: map_of_SomeD)
qed

lemma parsed_init: "parsed [] Options"
  by (auto simp: parsed_def Options_def positional_def table_args_empty split: option.splits)

lemma parsed_given:
  assumes "parsed cbs s" and d: "map_of option_table k = Some d"
  shows "opts s (otype d) \<noteq> None \<longleftrightarrow> k \<in> fst ` set cbs"
proof -
  have o: "opts s ty = Some k \<longleftrightarrow>
      (\<exists>d. map_of option_table k = Some d \<and> otype d = ty \<and> k \<in> fst ` set cbs)" for ty k
    using assms(1) by (simp add: parsed_def)
  show ?thesis
  proof
    assume "opts s (otype d) \<noteq> None"
    then obtain k' where "opts s (otype d) = Some k'" by blast
    with o obtain d' where "map_of option_table k' = Some d'" "otype d' = otype d" "k' \<in> fst ` set cbs"
      by blast
    with table_type_key [OF _ d] show "k \<in> fst ` set cbs" by blast
  next
    assume "k \<in> fst ` set cbs"
    with o d have "opts s (otype d) = Some k" by blast
    then show "opts s (otype d) \<noteq> None" by simp
  qed
qed

text \<open>The callback on a key of the table, in an object where the keys \<open>cbs\<close> were given.\<close>

lemma parse_arg_key:
  assumes "parsed cbs s" and d: "map_of option_table k = Some d"
  shows "parse_arg k a s =
    (if k \<in> fst ` set cbs then Inr (EINVAL, s)
     else let s1 = s\<lparr>opts := (opts s)(otype d \<mapsto> k)\<rparr>
          in (case a of None \<Rightarrow> Inr (EOK, s1)
              | Some x \<Rightarrow> Inr (if arg_valid (oflags d) x then EOK else EINVAL,
                  s1\<lparr>opt_map := (opt_map s)(k \<mapsto> d\<lparr>oarg := x\<rparr>)\<rparr>)))"
proof (cases "k \<in> fst ` set cbs")
  case True
  moreover from this obtain k' where "opts s (otype d) = Some k'" using parsed_given [OF assms] by auto
  moreover have "\<exists>x. opt_map s k = Some (d\<lparr>oarg := x\<rparr>)" using assms by (auto simp: parsed_def)
  ultimately show ?thesis by (auto simp: parse_arg_def)
next
  case False
  have "d\<lparr>oarg := []\<rparr> = d" using table_args_empty [OF d] by (cases d) simp
  moreover have "map_of cbs k = None" using False by (simp add: map_of_eq_None_iff)
  ultimately have m: "opt_map s k = Some d" using assms by (simp add: parsed_def)
  have "opts s (otype d) = None" using parsed_given [OF assms] False by auto
  with False m show ?thesis
    by (auto simp: parse_arg_def arg_valid_def Let_def split: option.splits)
qed

text \<open>The four parts of \<open>parsed\<close>, one by one.\<close>

lemma parsedD:
  assumes "parsed cbs s"
  shows parsed_opts: "opts s ty = Some k \<longleftrightarrow>
      (\<exists>d. map_of option_table k = Some d \<and> otype d = ty \<and> k \<in> fst ` set cbs)"
    and parsed_map: "opt_map s k = (case map_of option_table k of
       None \<Rightarrow> None
     | Some d \<Rightarrow> Some (d\<lparr>oarg := (case map_of cbs k of None \<Rightarrow> [] | Some a \<Rightarrow> arg_string a)\<rparr>))"
    and parsed_non_opts: "non_opts s = positional cbs"
    and parsed_distinct: "distinct (filter (\<lambda>k. map_of option_table k \<noteq> None) (map fst cbs))"
    and parsed_valid: "(k, Some a) \<in> set cbs \<Longrightarrow> map_of option_table k = Some d' \<Longrightarrow> arg_valid (oflags d') a"
  using assms unfolding parsed_def by blast+

lemma map_of_snoc: "map_of (cbs @ [(k, a)]) k' =
    (if k' = k \<and> map_of cbs k = None then Some a else map_of cbs k')"
  by (auto simp: map_add_def split: option.splits)

lemma parsed_step_option:
  assumes p: "parsed cbs s" and d: "map_of option_table k = Some d"
    and r: "parse_arg k a s = Inr (e, s')" and e: "e \<noteq> EINVAL"
  shows "parsed (cbs @ [(k, a)]) s'"
proof -
  have new: "k \<notin> fst ` set cbs"
  proof
    assume "k \<in> fst ` set cbs"
    then show False using r e by (simp add: parse_arg_key [OF p d])
  qed
  then have nk: "map_of cbs k = None" by (simp add: map_of_eq_None_iff)
  have m: "opt_map s k = Some (d\<lparr>oarg := []\<rparr>)" using parsed_map [OF p, of k] d nk by simp
  have valid: "\<And>x. a = Some x \<Longrightarrow> arg_valid (oflags d) x"
    using r e new by (auto simp: parse_arg_key [OF p d] Let_def split: if_splits)
  have s': "opts s' = (opts s)(otype d \<mapsto> k)" "non_opts s' = non_opts s"
    "opt_map s' = (opt_map s)(k \<mapsto> d\<lparr>oarg := arg_string a\<rparr>)"
    using r new m
    by (auto simp: parse_arg_key [OF p d] arg_string_def Let_def fun_upd_idem split: option.splits)
  have k0: "k \<noteq> ARGP_KEY_ARG" using d no_key_arg by auto
  have "opts s' ty = Some k' \<longleftrightarrow>
      (\<exists>d. map_of option_table k' = Some d \<and> otype d = ty \<and> k' \<in> fst ` set (cbs @ [(k, a)]))" for ty k'
  proof (cases "ty = otype d")
    case True
    have "opts s' ty = Some k' \<longleftrightarrow> k' = k" using s'(1) True by auto
    moreover have "(\<exists>d. map_of option_table k' = Some d \<and> otype d = ty \<and> k' \<in> fst ` set (cbs @ [(k, a)])) \<longleftrightarrow> k' = k"
    proof
      assume "\<exists>d. map_of option_table k' = Some d \<and> otype d = ty \<and> k' \<in> fst ` set (cbs @ [(k, a)])"
      then obtain d' where "map_of option_table k' = Some d'" "otype d' = otype d" using True by blast
      from table_type_key [OF this(1) d this(2)] show "k' = k" by blast
    qed (use True d in simp)
    ultimately show ?thesis by simp
  next
    case False
    then have "opts s' ty = opts s ty" using s'(1) by simp
    with False d show ?thesis by (auto simp: parsed_opts [OF p])
  qed
  moreover have "opt_map s' k' = (case map_of option_table k' of None \<Rightarrow> None
     | Some d \<Rightarrow> Some (d\<lparr>oarg := (case map_of (cbs @ [(k, a)]) k' of None \<Rightarrow> [] | Some a \<Rightarrow> arg_string a)\<rparr>))" for k'
    unfolding map_of_snoc s' using parsed_map [OF p, of k'] d nk by (cases "k' = k") simp_all
  moreover have "non_opts s' = positional (cbs @ [(k, a)])"
    using parsed_non_opts [OF p] k0 by (simp add: s' positional_def)
  moreover have "distinct (filter (\<lambda>k. map_of option_table k \<noteq> None) (map fst (cbs @ [(k, a)])))"
    using parsed_distinct [OF p] d new by simp
  moreover have "arg_valid (oflags d') x"
    if "(k', Some x) \<in> set (cbs @ [(k, a)])" "map_of option_table k' = Some d'" for k' x d'
  proof (cases "(k', Some x) \<in> set cbs")
    case True
    with parsed_valid [OF p] that show ?thesis by blast
  next
    case False
    with that d valid show ?thesis by simp
  qed
  ultimately show ?thesis unfolding parsed_def by blast
qed

lemma parsed_step_other:
  assumes p: "parsed cbs s" and d: "map_of option_table k = None"
    and r: "parse_arg k a s = Inr (e, s')"
  shows "e \<noteq> EINVAL \<and> parsed (cbs @ [(k, a)]) s'"
proof -
  have m: "opt_map s k = None" using parsed_map [OF p, of k] d by simp
  have s': "opts s' = opts s" "opt_map s' = opt_map s" "e \<noteq> EINVAL"
    "non_opts s' = non_opts s @ (if k = ARGP_KEY_ARG then [arg_string a] else [])"
    using r m by (auto simp: parse_arg_def arg_string_def split: if_splits option.splits)
  have "opt_map s' k' = (case map_of option_table k' of None \<Rightarrow> None
     | Some d \<Rightarrow> Some (d\<lparr>oarg := (case map_of (cbs @ [(k, a)]) k' of None \<Rightarrow> [] | Some a \<Rightarrow> arg_string a)\<rparr>))" for k'
    unfolding map_of_snoc s' using parsed_map [OF p, of k'] d by (cases "k' = k") simp_all
  moreover have "opts s' ty = Some k' \<longleftrightarrow>
      (\<exists>d. map_of option_table k' = Some d \<and> otype d = ty \<and> k' \<in> fst ` set (cbs @ [(k, a)]))" for ty k'
    using d by (auto simp: s' parsed_opts [OF p])
  moreover have "arg_valid (oflags d') x"
    if "(k', Some x) \<in> set (cbs @ [(k, a)])" "map_of option_table k' = Some d'" for k' x d'
  proof -
    from that d have "(k', Some x) \<in> set cbs" by auto
    with parsed_valid [OF p] that(2) show ?thesis by blast
  qed
  moreover have "non_opts s' = positional (cbs @ [(k, a)])"
    using parsed_non_opts [OF p] by (simp add: s' positional_def)
  moreover have "distinct (filter (\<lambda>k. map_of option_table k \<noteq> None) (map fst (cbs @ [(k, a)])))"
    using parsed_distinct [OF p] d by simp
  ultimately show ?thesis using s'(3) unfolding parsed_def by blast
qed

lemma parsed_drive:
  assumes "parsed pre s" and "drive parse_arg cbs s = Inr (EOK, s')"
  shows "parsed (pre @ cbs) s'"
  using assms
proof (induction cbs arbitrary: pre s)
  case Nil
  then show ?case by simp
next
  case (Cons cb cbs)
  obtain k a where cb: "cb = (k, a)" by force
  from Cons.prems(2) cb obtain e s1 where r: "parse_arg k a s = Inr (e, s1)" and e: "e \<noteq> EINVAL"
    and rest: "drive parse_arg cbs s1 = Inr (EOK, s')"
    by (auto simp: bindE_Inr_iff split: if_splits)
  have "parsed (pre @ [(k, a)]) s1"
  proof (cases "map_of option_table k")
    case None
    with Cons.prems(1) r parsed_step_other show ?thesis by blast
  next
    case (Some d)
    with Cons.prems(1) r e parsed_step_option show ?thesis by blast
  qed
  with Cons.IH [of "pre @ [(k, a)]" s1] rest cb show ?case by simp
qed

lemma parse_arg_fault:
  assumes "parsed cbs s" and "callback_ok (k, a)"
  shows "\<exists>e s'. parse_arg k a s = Inr (e, s')"
proof (cases "map_of option_table k")
  case None
  then have "opt_map s k = None" using parsed_map [OF assms(1), of k] by simp
  with None assms(2) show ?thesis by (auto simp: parse_arg_def callback_ok_def)
next
  case (Some d)
  show ?thesis by (auto simp: parse_arg_key [OF assms(1) Some] Let_def split: option.splits)
qed

text \<open>A list of callbacks is accepted exactly when every one of them is.\<close>

definition accepted :: "callback list \<Rightarrow> callback list \<Rightarrow> bool" where
  "accepted pre cbs \<longleftrightarrow>
    distinct (filter (\<lambda>k. map_of option_table k \<noteq> None) (map fst (pre @ cbs))) \<and>
    (\<forall>k a d. (k, Some a) \<in> set cbs \<longrightarrow> map_of option_table k = Some d \<longrightarrow> arg_valid (oflags d) a)"

lemma accepted_Cons:
  "accepted pre (cb # cbs) \<longleftrightarrow> accepted pre [cb] \<and> accepted (pre @ [cb]) cbs"
  unfolding accepted_def by auto

lemma parse_arg_accepted:
  assumes p: "parsed pre s" and r: "parse_arg k a s = Inr (e, s')"
  shows "e \<noteq> EINVAL \<longleftrightarrow> accepted pre [(k, a)]"
proof (cases "map_of option_table k")
  case None
  with parsed_step_other [OF p None r] parsed_distinct [OF p] show ?thesis
    by (simp add: accepted_def)
next
  case (Some d)
  with parsed_distinct [OF p] have
    "accepted pre [(k, a)] \<longleftrightarrow> k \<notin> fst ` set pre \<and> (\<forall>x. a = Some x \<longrightarrow> arg_valid (oflags d) x)"
    by (auto simp: accepted_def)
  then show ?thesis
    using r by (auto simp: parse_arg_key [OF p Some] Let_def split: if_splits option.splits)
qed

lemma drive_accepted:
  assumes "parsed pre s" and "list_all callback_ok cbs"
  shows "(\<exists>s'. drive parse_arg cbs s = Inr (EOK, s')) \<longleftrightarrow> accepted pre cbs"
  using assms
proof (induction cbs arbitrary: pre s)
  case Nil
  then show ?case using parsed_distinct [OF Nil(1)] by (simp add: accepted_def)
next
  case (Cons cb cbs)
  obtain k a where cb: "cb = (k, a)" by force
  with Cons.prems have "callback_ok (k, a)" by simp
  from parse_arg_fault [OF Cons.prems(1) this] obtain e s1 where r: "parse_arg k a s = Inr (e, s1)" by blast
  note e = parse_arg_accepted [OF Cons.prems(1) r]
  show ?case
  proof (cases "e = EINVAL")
    case True
    with e show ?thesis unfolding accepted_Cons [of pre cb cbs] by (simp add: cb r)
  next
    case False
    then have "parsed (pre @ [(k, a)]) s1"
      using parsed_step_option [OF Cons.prems(1) _ r] parsed_step_other [OF Cons.prems(1) _ r]
      by (cases "map_of option_table k") auto
    then show ?thesis
      using Cons.IH [of "pre @ [(k, a)]" s1] Cons.prems(2) e False
      unfolding accepted_Cons [of pre cb cbs] by (simp add: cb r)
  qed
qed

section \<open>The object as the rest of the program reads it\<close>

text \<open>What the rest of the program may assume of an object that \<open>parse_args\<close> has filled.\<close>

definition options_ok :: "options \<Rightarrow> bool" where
  "options_ok s \<longleftrightarrow> (\<exists>cbs. list_all callback_ok cbs \<and> parsed cbs s)"

lemma get_arg_parsed:
  assumes p: "parsed cbs s" and d: "map_of option_table k = Some d"
  shows "get_arg (otype d) s =
    (if k \<in> fst ` set cbs then Some (arg_string (the (map_of cbs k))) else None)"
proof (cases "k \<in> fst ` set cbs")
  case True
  then obtain a where a: "map_of cbs k = Some a" by (metis map_of_eq_None_iff not_None_eq)
  have "opts s (otype d) = Some k" using parsed_opts [OF p] d True by blast
  with a True show ?thesis using parsed_map [OF p, of k] d by (simp add: get_arg_def)
next
  case False
  then have "opts s (otype d) = None" using parsed_given [OF p d] by simp
  with False show ?thesis by (simp add: get_arg_def)
qed

lemma options_ok_arg:
  assumes "options_ok s" and k: "opts s ty = Some k"
  shows "\<exists>d a. map_of option_table k = Some d \<and> otype d = ty \<and> opt_map s k = Some (d\<lparr>oarg := a\<rparr>) \<and>
    get_arg ty s = Some a \<and> NUL \<notin> set a \<and> (a \<noteq> [] \<longrightarrow> arg_valid (oflags d) a)"
proof -
  from assms(1) obtain cbs where p: "parsed cbs s" and c: "list_all callback_ok cbs"
    by (auto simp: options_ok_def)
  from k parsed_opts [OF p] obtain d where d: "map_of option_table k = Some d" "otype d = ty"
    and m: "k \<in> fst ` set cbs" by blast
  then obtain a where a: "map_of cbs k = Some a" by (metis map_of_eq_None_iff not_None_eq)
  then have i: "(k, a) \<in> set cbs" by (rule map_of_SomeD)
  with c have "NUL \<notin> set (arg_string a)"
    by (auto simp: list_all_iff callback_ok_def arg_string_def split: option.splits)
  moreover have "arg_string a \<noteq> [] \<longrightarrow> arg_valid (oflags d) (arg_string a)"
    using parsed_valid [OF p _ d(1)] i by (auto simp: arg_string_def split: option.splits)
  ultimately show ?thesis
    using d a k parsed_map [OF p, of k] by (auto simp: get_arg_def)
qed

lemma options_ok_parse:
  assumes "argp_contract argp_parse" and "parse_args argp_parse argv Options = Inr (True, s)"
  shows "\<exists>cbs. list_all callback_ok cbs \<and> parsed cbs s \<and> accepted [] cbs"
proof -
  from assms(2) have "argp_parse (map snd (sort_key fst option_table)) parse_arg argv Options = Inr (EOK, s)"
    by (auto simp: parse_args_def bindE_Inr_iff split: if_splits)
  with assms(1) obtain cbs where c: "list_all callback_ok cbs" "drive parse_arg cbs Options = Inr (EOK, s)"
    unfolding argp_contract_def by blast
  from parsed_drive [OF parsed_init c(2)] have "parsed cbs s" by simp
  moreover have "accepted [] cbs" using drive_accepted [OF parsed_init c(1)] c(2) by blast
  ultimately show ?thesis using c(1) by blast
qed

lemma command_line_drive:
  assumes "list_all callback_ok cbs"
  shows "(\<exists>s. drive parse_arg cbs Options = Inr (EOK, s)) \<longleftrightarrow>
    distinct (filter (\<lambda>k. map_of option_table k \<noteq> None) (map fst cbs)) \<and>
    (\<forall>k a d. (k, Some a) \<in> set cbs \<longrightarrow> map_of option_table k = Some d \<longrightarrow> arg_valid (oflags d) a)"
  using drive_accepted [OF parsed_init assms] by (simp add: accepted_def)

section \<open>Properties\<close>

text \<open>
  C32. Which command lines the callback accepts: glibc's sequence of callbacks goes through
  without an error exactly when no option is given twice and every argument passes the check
  its table entry asks for (decimal without leading zeros, byte size with a known suffix, not
  zero). A callback never faults on what glibc passes it.
\<close>

theorem command_line_accepted_iff:
  assumes "list_all callback_ok cbs"
  shows "(\<exists>s. drive parse_arg cbs Options = Inr (EOK, s)) \<longleftrightarrow>
    distinct (filter (\<lambda>k. map_of option_table k \<noteq> None) (map fst cbs)) \<and>
    (\<forall>k a d. (k, Some a) \<in> set cbs \<longrightarrow> map_of option_table k = Some d \<longrightarrow> arg_valid (oflags d) a)"
  by (rule command_line_drive [OF assms])

lemma command_line_accepted_iff_witness:
  "list_all callback_ok [(98, Some ''4K''), (76, None), (0, Some ''/dev/sda'')] \<and>
   (\<exists>s. drive parse_arg [(98, Some ''4K''), (76, None), (0, Some ''/dev/sda'')] Options = Inr (EOK, s)) \<and>
   \<not> (\<exists>s. drive parse_arg [(98, Some ''4K''), (98, Some ''8K'')] Options = Inr (EOK, s))"
proof -
  have ok: "list_all callback_ok [(98, Some ''4K''), (76, None), (0, Some ''/dev/sda'')]"
    "list_all callback_ok [(98, Some ''4K''), (98, Some ''8K'')]"
    by (auto simp: callback_ok_def) code_simp+
  have t: "map_option oflags (map_of option_table 98) = Some (OPT_BYTE_SIZE OR OPT_NON_ZERO)"
    "map_of option_table 0 = None" "arg_valid (OPT_BYTE_SIZE OR OPT_NON_ZERO) ''4K''"
    by code_simp+
  then show ?thesis
    using ok command_line_accepted_iff [OF ok(1)] command_line_accepted_iff [OF ok(2)]
    by (auto simp: ARGP_KEY_ARG_def)
qed

text \<open>
  C33. The object an accepted command line leaves: with \<open>cbs\<close> the options and arguments
  glibc found, \<open>get_arg\<close> of an option type is the argument of its option (empty when it
  has none) or nothing if it was not given, the non-option arguments are kept in order, and
  every argument in it has passed the check of its table entry.
\<close>

theorem parse_args_object:
  assumes "argp_contract argp_parse" and "parse_args argp_parse argv Options = Inr (True, s)"
  shows "\<exists>cbs. list_all callback_ok cbs \<and> distinct (filter (\<lambda>k. map_of option_table k \<noteq> None) (map fst cbs)) \<and>
    get_non_opts s = positional cbs \<and>
    (\<forall>k d. map_of option_table k = Some d \<longrightarrow>
       get_arg (otype d) s =
         (if k \<in> fst ` set cbs then Some (arg_string (the (map_of cbs k))) else None)) \<and>
    (\<forall>k a d. (k, Some a) \<in> set cbs \<longrightarrow> map_of option_table k = Some d \<longrightarrow> arg_valid (oflags d) a)"
proof -
  from options_ok_parse [OF assms] obtain cbs where c: "list_all callback_ok cbs"
    and p: "parsed cbs s" by blast
  then show ?thesis
    using parsed_distinct [OF p] parsed_non_opts [OF p] get_arg_parsed [OF p] parsed_valid [OF p]
    by (intro exI [of _ cbs]) (simp add: get_non_opts_def)
qed

lemma argp_contract_fixed:
  "list_all callback_ok cbs \<Longrightarrow> argp_contract (\<lambda>tbl p argv s. drive p cbs s)"
  by (auto simp: argp_contract_def)

lemma parse_args_object_witness:
  "argp_contract (\<lambda>tbl p argv s. drive p [(98, Some ''4K''), (76, None), (0, Some ''/dev/sda'')] s) \<and>
   (\<exists>s cbs. parse_args (\<lambda>tbl p argv s. drive p [(98, Some ''4K''), (76, None), (0, Some ''/dev/sda'')] s)
      [''diskspd'', ''-b4K'', ''-L'', ''/dev/sda''] Options = Inr (True, s) \<and>
      get_non_opts s = positional cbs)"
proof -
  let ?p = "\<lambda>tbl p argv s. drive p [(98, Some ''4K''), (76, None), (0, Some ''/dev/sda'')] s"
  have c: "argp_contract ?p"
    by (rule argp_contract_fixed) (auto simp: callback_ok_def, code_simp+)
  have "map_option fst (case parse_args ?p [''diskspd'', ''-b4K'', ''-L'', ''/dev/sda''] Options
      of Inl _ \<Rightarrow> None | Inr x \<Rightarrow> Some x) = Some True"
    by code_simp
  then obtain s where s: "parse_args ?p [''diskspd'', ''-b4K'', ''-L'', ''/dev/sda''] Options = Inr (True, s)"
    by (auto split: sum.splits)
  with parse_args_object [OF c s] c show ?thesis by blast
qed

text \<open>
  Numeric options: once a command line is accepted, reading a numeric option never
  aborts on its text. It is not given, or given without an argument (nothing is stored), or
  its argument is a decimal numeral \<open>n\<close> and the value stored is \<open>n\<close>; the program exits
  exactly when \<open>n\<close> exceeds the largest value of the type read.
\<close>

theorem numeric_option_value:
  assumes "options_ok s" and "map_of option_table k = Some d" and "oflags d AND OPT_NUMERIC \<noteq> 0"
    and "tmax < 2 ^ 64 - 1"
  shows "(get_arg (otype d) s = None \<and> arg_to_number (word_of_nat tmax) (otype d) bs s = Inr (False, None)) \<or>
    (get_arg (otype d) s = Some [] \<and> arg_to_number (word_of_nat tmax) (otype d) bs s = Inr (True, None)) \<or>
    (\<exists>n. get_arg (otype d) s = Some (dec n) \<and>
       arg_to_number (word_of_nat tmax) (otype d) bs s =
         (if n \<le> tmax then Inr (True, Some (word_of_nat n)) else Inl Exit_Failure))"
proof (cases "opts s (otype d)")
  case None
  then show ?thesis by (simp add: get_arg_def arg_to_number_def)
next
  case (Some k')
  from options_ok_arg [OF assms(1) Some] obtain d' a where d': "map_of option_table k' = Some d'"
    "otype d' = otype d" "opt_map s k' = Some (d'\<lparr>oarg := a\<rparr>)" and g: "get_arg (otype d) s = Some a"
    and a: "NUL \<notin> set a" "a \<noteq> [] \<longrightarrow> arg_valid (oflags d') a" by blast
  from table_type_key [OF d'(1) assms(2) d'(2)] have d'': "d' = d" by blast
  show ?thesis
  proof (cases "a = []")
    case True
    then show ?thesis using Some d' g by (simp add: arg_to_number_def)
  next
    case False
    with a(2) d'' assms(3) have "is_numeric a" by (simp add: arg_valid_def)
    with is_numeric_iff [OF a(1)] False obtain n where n: "a = dec n" by blast
    have t: "unat (word_of_nat tmax :: u64) = tmax" using assms(4) by (intro unat_of_nat_u64) simp
    have m1: "unat (- 1 :: u64) = 2 ^ 64 - 1"
      by (simp only: unsigned_minus_1_eq_mask mask_eq_exp_minus_1) simp
    have le: "(if n \<ge> 2 ^ 64 then - 1 else word_of_nat n :: u64) > word_of_nat tmax \<longleftrightarrow> \<not> n \<le> tmax"
    proof (cases "n \<ge> 2 ^ 64")
      case True
      with m1 assms(4) t show ?thesis by (simp add: word_less_nat_alt)
    next
      case False
      then have "unat (word_of_nat n :: u64) = n" by (intro unat_of_nat_u64) simp
      with False t show ?thesis by (simp add: word_less_nat_alt not_le)
    qed
    have v: "n \<le> tmax \<Longrightarrow> (if n \<ge> 2 ^ 64 then - 1 else word_of_nat n :: u64) = word_of_nat n"
      using assms(4) by simp
    have "arg_to_number (word_of_nat tmax) (otype d) bs s =
        (if n \<le> tmax then Inr (True, Some (word_of_nat n)) else Inl Exit_Failure)"
      using Some d' d'' n assms(3) le v
      by (simp add: arg_to_number_def del: not_le split del: if_split cong: if_cong)
        (auto split: if_splits)
    with g n show ?thesis by blast
  qed
qed

lemma numeric_option_value_witness:
  "\<exists>s. options_ok s \<and> get_arg DURATION s = Some ''30'' \<and>
     arg_to_number (word_of_nat 4294967295) DURATION 0 s = Inr (True, Some 30)"
proof -
  let ?cbs = "[(100, Some ''30'')] :: callback list"
  have c: "list_all callback_ok ?cbs" by (auto simp: callback_ok_def, code_simp+)
  have v: "map_option (\<lambda>d. (otype d, oflags d)) (map_of option_table 100)
      = Some (DURATION, OPT_NUMERIC OR OPT_NON_ZERO)"
    and a: "arg_valid (OPT_NUMERIC OR OPT_NON_ZERO) ''30''" and d: "''30'' = dec 30"
    and f: "(OPT_NUMERIC OR OPT_NON_ZERO) AND OPT_NUMERIC \<noteq> 0"
    by code_simp+
  from v obtain e where e: "map_of option_table 100 = Some e" "otype e = DURATION"
    "oflags e = OPT_NUMERIC OR OPT_NON_ZERO" by auto
  with a have "\<exists>s. drive parse_arg ?cbs Options = Inr (EOK, s)"
    unfolding command_line_drive [OF c] by simp
  then obtain s where s: "drive parse_arg ?cbs Options = Inr (EOK, s)" by blast
  from parsed_drive [OF parsed_init s] have p: "parsed ?cbs s" by simp
  with c have o: "options_ok s" unfolding options_ok_def by blast
  have g: "get_arg DURATION s = Some ''30''"
    using get_arg_parsed [OF p e(1)] e(2) by (simp add: arg_string_def)
  have n: "\<And>n. ''30'' = dec n \<Longrightarrow> n = 30" using d digits_value_dec by metis
  from numeric_option_value [OF o e(1), of 4294967295 0] e f g
  have "\<exists>n. ''30'' = dec n \<and> arg_to_number (word_of_nat 4294967295) DURATION 0 s =
      (if n \<le> 4294967295 then Inr (True, Some (word_of_nat n)) else Inl Exit_Failure)" by simp
  then obtain m where "''30'' = dec m" and r: "arg_to_number (word_of_nat 4294967295) DURATION 0 s =
      (if m \<le> 4294967295 then Inr (True, Some (word_of_nat m)) else Inl Exit_Failure)" by blast
  with n [of m] have "m = 30" by simp
  with r have "arg_to_number (word_of_nat 4294967295) DURATION 0 s = Inr (True, Some 30)" by simp
  with o g show ?thesis by blast
qed

text \<open>
  C34. Byte sizes: the check accepts exactly the positive decimal numerals without leading
  zeros followed by at most one of the letters \<open>K\<close>, \<open>M\<close>, \<open>G\<close>, \<open>b\<close>,
  and the conversion returns the number times the suffix's multiplier (the block size for
  \<open>b\<close>) whenever that fits a signed 64-bit number.
\<close>

theorem byte_size_accepted_value:
  "(valid_byte_size a \<longleftrightarrow> (\<exists>n suf. 0 < n \<and> suf \<in> suffixes \<and> a = dec n @ suf)) \<and>
   (\<forall>n. \<forall>suf \<in> suffixes. a = dec n @ suf \<longrightarrow> n * suffix_mult suf bs < 2 ^ 63 \<longrightarrow> n < 2 ^ 63 \<longrightarrow>
      byte_size_from_arg a bs = Inr (word_of_nat (n * suffix_mult suf bs)))"
  using byte_size_dec valid_byte_size_iff by (auto simp: Let_def)

lemma byte_size_accepted_value_witness:
  "valid_byte_size ''64K'' \<and> byte_size_from_arg ''64K'' 512 = Inr 65536"
proof -
  have d: "''64K'' = dec 64 @ ''K''" by code_simp
  have k: "''K'' \<in> suffixes" and m: "(64::nat) * suffix_mult ''K'' 512 = 65536"
    by (simp_all add: suffixes_def suffix_mult_def)
  note p = byte_size_accepted_value [of "''64K''" 512]
  have "0 < (64 :: nat)" by simp
  with d k have "valid_byte_size ''64K''" using conjunct1 [OF p] by blast
  moreover have "byte_size_from_arg ''64K'' 512 = Inr (word_of_nat (64 * suffix_mult ''K'' 512))"
    by (rule conjunct2 [OF p, rule_format, OF k d]) (simp_all add: m)
  ultimately show ?thesis by (simp add: m)
qed

text \<open>
  The overflow check of \<open>byte_size_from_arg\<close> only sees the sign of the wrapped
  product: a product that leaves 64 bits is returned modulo \<open>2 ^ 64\<close>. So \<open>17179869184G\<close>
  passes every check of a size that must not be zero, and is read as 0.
\<close>

theorem byte_size_overflow_unnoticed:
  "arg_valid (OPT_BYTE_SIZE OR OPT_NON_ZERO) ''17179869184G'' \<and>
   byte_size_from_arg ''17179869184G'' 65536 = Inr 0 \<and>
   byte_size_from_arg ''17179869185G'' 65536 = Inr 1073741824 \<and>
   byte_size_from_arg ''8589934592G'' 65536 = Inl Assert_Failed"
proof -
  have "arg_valid (OPT_BYTE_SIZE OR OPT_NON_ZERO) ''17179869184G''" by code_simp
  then show ?thesis
    by (simp add: code_def byte_size_from_arg_def strtoull_def is_space_def is_digit_def
        digits_value_def getSizeMultiplier_def sless0_unat)
qed

text \<open>
  The base offset and the thread stride are not marked as non-zero options, and their
  help texts give 0 as the default, but the byte size check refuses every argument that starts
  with a zero: \<open>-B0\<close> and \<open>-T0\<close> are errors.
\<close>

theorem zero_offsets_refused:
  "(\<exists>d. map_of option_table 66 = Some d \<and> otype d = BASE_OFFSET \<and> oflags d AND OPT_NON_ZERO = 0) \<and>
   (\<exists>d. map_of option_table 84 = Some d \<and> otype d = THREAD_STRIDE \<and> oflags d AND OPT_NON_ZERO = 0) \<and>
   (\<exists>s. parse_arg 66 (Some ''0'') Options = Inr (EINVAL, s)) \<and>
   (\<exists>s. parse_arg 84 (Some ''0'') Options = Inr (EINVAL, s))"
proof -
  have "map_option (\<lambda>d. (otype d, oflags d)) (map_of option_table 66) = Some (BASE_OFFSET, OPT_BYTE_SIZE)"
    "map_option (\<lambda>d. (otype d, oflags d)) (map_of option_table 84) = Some (THREAD_STRIDE, OPT_BYTE_SIZE)"
    "\<not> arg_valid OPT_BYTE_SIZE ''0''" "OPT_BYTE_SIZE AND OPT_NON_ZERO = 0"
    by code_simp+
  then show ?thesis by (auto simp: parse_arg_key [OF parsed_init] Let_def)
qed

end
