(* ===== verification/Sys_Info.thy ===== *)
theory Sys_Info
  imports Options "HOL-Library.List_Lexorder" "HOL-Library.Char_ord"
begin

text \<open>
  System information (\<open>src/src/sys_info.h\<close>, \<open>src/src/sys_info.cc\<close>): the parser of
  cpu sets, the cpu times of \<open>/proc/stat\<close>, and the lookups of block devices in sysfs.
  What the kernel's files hold is the record \<open>sysfs\<close>, read through one field per kind of
  access; a file that cannot be opened is \<open>None\<close>. Left out: the messages on stderr.
\<close>

type_synonym dev_t = "64 word"

text \<open>
  \<open>file_line path\<close> is the first line of a file, \<open>file_lines\<close> all of them,
  \<open>dir_names\<close> the entries of a directory, \<open>stat_rdev\<close> the device id of a device node and
  \<open>readlink\<close> the target of a symbolic link.
\<close>

record sysfs =
  file_line :: "string \<Rightarrow> string option"
  file_lines :: "string \<Rightarrow> string list option"
  dir_names :: "string \<Rightarrow> string list option"
  stat_rdev :: "string \<Rightarrow> dev_t option"
  readlink :: "string \<Rightarrow> string option"

record sys_info =
  called :: bool
  cpulo :: u32
  cpuhi :: u32
  online_cpus :: "u32 set"
  affinity_cpus :: "u32 set"
  caching_options :: string
  id_to_device :: "dev_t \<Rightarrow> string option"

definition SysInfo :: sys_info where
  "SysInfo = \<lparr>called = False, cpulo = 0, cpuhi = 0, online_cpus = {0}, affinity_cpus = {0},
     caching_options = '''', id_to_device = (\<lambda>_. None)\<rparr>"

section \<open>Cpu sets\<close>

lemma strtoull_shrinks: "length (snd (strtoull s)) \<le> length s"
proof -
  let ?s = "dropWhile is_space s"
  have d: "length (dropWhile P xs) \<le> length xs" for P and xs :: string
    by (rule length_dropWhile_le)
  have "length (dropWhile is_digit (tl ?s)) \<le> length s"
    using d [of is_digit "tl ?s"] d [of is_space s] by simp
  moreover have "length (dropWhile is_digit ?s) \<le> length s"
    using d [of is_digit ?s] d [of is_space s] by simp
  ultimately show ?thesis by (auto simp: strtoull_def Let_def)
qed

text \<open>
  The loop \<open>for (int i = curr; i <= next; ++i)\<close> compares unsigned. Its counter is signed, so
  counting past the largest \<open>int\<close> is undefined behaviour.
\<close>

definition insert_range :: "u32 \<Rightarrow> u32 \<Rightarrow> u32 set \<Rightarrow> fault + u32 set" where
  "insert_range lo hi ret =
    (if lo \<le> 0x7FFFFFFF \<and> hi \<ge> 0x7FFFFFFF then Inl Undefined
     else Inr (ret \<union> set (map word_of_nat [unat lo..<unat hi + 1])))"

text \<open>
  The field loop of \<open>str_to_cpu_set\<close>, with the rest of the string in place of the pointer.
  \<open>strtoul\<close> is \<open>strtoull\<close> on the 64-bit platforms diskspd is built for; its result is cut
  to 32 bits by the assignments to \<open>curr\<close> and \<open>next\<close>.
\<close>

function cpu_fields :: "string \<Rightarrow> u32 set \<Rightarrow> fault + u32 set" where
  "cpu_fields ptr ret =
    (if code (char_at ptr 0) < 48 \<or> code (char_at ptr 0) > 57 then Inr ret
     else
       let lo = ucast (fst (strtoull ptr)); p1 = snd (strtoull ptr)
       in if lo = (- 1 :: u32) then Inl Exit_Failure
          else if char_at p1 0 = CHR ''-'' then
            (let p2 = tl p1
             in if code (char_at p2 0) < 48 \<or> code (char_at p2 0) > 57 then Inr ret
                else
                  let hi = ucast (fst (strtoull p2)); p3 = snd (strtoull p2)
                  in if hi = (- 1 :: u32) then Inl Exit_Failure
                     else (case insert_range lo hi ret of
                         Inl e \<Rightarrow> Inl e
                       | Inr ret' \<Rightarrow>
                           if p3 = [] \<or> hd p3 \<noteq> CHR '','' then Inr ret' else cpu_fields (tl p3) ret'))
          else (case insert_range lo lo ret of
              Inl e \<Rightarrow> Inl e
            | Inr ret' \<Rightarrow>
                if p1 = [] \<or> hd p1 \<noteq> CHR '','' then Inr ret' else cpu_fields (tl p1) ret'))"
  by pat_completeness auto

termination
proof (relation "measure (length \<circ> fst)", goal_cases)
  case 1
  show ?case by simp
next
  case (2 ptr ret lo p1 p2 hi p3)
  have "length (tl p3) < length p3" using 2 by (cases p3) auto
  moreover have "length p3 \<le> length p2" using 2 strtoull_shrinks [of p2] by simp
  moreover have "length p2 \<le> length p1" using 2 by simp
  moreover have "length p1 \<le> length ptr" using 2 strtoull_shrinks [of ptr] by simp
  ultimately show ?case by simp
next
  case (3 ptr ret lo p1)
  have "length (tl p1) < length p1" using 3 by (cases p1) auto
  moreover have "length p1 \<le> length ptr" using 3 strtoull_shrinks [of ptr] by simp
  ultimately show ?case by simp
qed

declare cpu_fields.simps [simp del]

definition str_to_cpu_set :: "string option \<Rightarrow> fault + u32 set" where
  "str_to_cpu_set s = (case s of None \<Rightarrow> Inr {} | Some t \<Rightarrow> cpu_fields t {})"

section \<open>Initialization\<close>

text \<open>The map of device ids, filled from the sorted set of the names in \<open>/sys/class/block\<close>.\<close>

definition map_device :: "sysfs \<Rightarrow> string \<Rightarrow> sys_info \<Rightarrow> fault + sys_info" where
  "map_device fs str s =
    (case stat_rdev fs (''/dev/'' @ str) of
       None \<Rightarrow> Inl Exit_Failure
     | Some rdev \<Rightarrow> Inr (s\<lparr>id_to_device := (id_to_device s)(rdev \<mapsto> str)\<rparr>))"

definition init_cpus :: "sysfs \<Rightarrow> string option \<Rightarrow> sys_info \<Rightarrow> fault + sys_info" where
  "init_cpus fs affinity_set s =
    (case file_line fs ''/sys/devices/system/cpu/online'' of
       None \<Rightarrow> Inl Exit_Failure
     | Some line \<Rightarrow>
         bindE (str_to_cpu_set (Some line))
           (\<lambda>online. if online = {} then Inl Undefined
              else bindE (if affinity_set \<noteq> None then str_to_cpu_set affinity_set else Inr online)
                (\<lambda>aff. Inr (s\<lparr>called := True, online_cpus := online, cpulo := Min online,
                   cpuhi := Max online, affinity_cpus := aff\<rparr>))))"

text \<open>The names come from a \<open>std::set\<close>, so without repetitions and in lexicographic order.\<close>

definition init_devices :: "sysfs \<Rightarrow> sys_info \<Rightarrow> fault + sys_info" where
  "init_devices fs s =
    (case dir_names fs ''/sys/class/block'' of
       None \<Rightarrow> Inl Exit_Failure
     | Some names \<Rightarrow>
         foldE (map_device fs) (sort (remdups (filter (\<lambda>n. char_at n 0 \<noteq> CHR ''.'') names))) s)"

definition init_sys_info :: "sysfs \<Rightarrow> string option \<Rightarrow> sys_info \<Rightarrow> fault + sys_info" where
  "init_sys_info fs affinity_set s =
    (if called s then Inr s
     else bindE (init_cpus fs affinity_set s)
       (\<lambda>s1. bindE (init_devices fs s1)
         (\<lambda>s2. case file_line fs ''/sys/module/libata/parameters/fua'' of
            None \<Rightarrow> Inr s2
          | Some line \<Rightarrow> Inr (s2\<lparr>caching_options := ''fua='' @ line\<rparr>))))"

section \<open>Cpu times\<close>

text \<open>
  The \<open>sscanf\<close> of a line of \<open>/proc/stat\<close>, as far as the source uses it: each directive
  skips white space, \<open>%u\<close> reads a decimal number, \<open>%lf\<close> digits with an optional
  fraction. (Signs, exponents, hexadecimal, infinity and nan, which \<open>%lf\<close> also reads, never
  occur in \<open>/proc/stat\<close>.) The result is the list of the numbers converted.
\<close>

definition scan_lf :: "string \<Rightarrow> (double \<times> string) option" where
  "scan_lf s =
    (let s1 = dropWhile is_space s; ip = takeWhile is_digit s1; r = dropWhile is_digit s1;
         fp = (if r \<noteq> [] \<and> hd r = CHR ''.'' then takeWhile is_digit (tl r) else []);
         r' = (if r \<noteq> [] \<and> hd r = CHR ''.'' then dropWhile is_digit (tl r) else r)
     in if ip = [] \<and> fp = [] then None
        else Some (real (digits_value ip) + real (digits_value fp) / 10 ^ length fp, r'))"

primrec scan_lfs :: "nat \<Rightarrow> string \<Rightarrow> double list" where
  "scan_lfs 0 s = []"
| "scan_lfs (Suc n) s = (case scan_lf s of None \<Rightarrow> [] | Some (x, r) \<Rightarrow> x # scan_lfs n r)"

definition scan_stat :: "string \<Rightarrow> (u32 \<times> double list) option" where
  "scan_stat line =
    (if take 3 line = ''cpu'' \<and> takeWhile is_digit (dropWhile is_space (drop 3 line)) \<noteq> [] then
       Some (ucast (fst (strtoull (drop 3 line))), scan_lfs 5 (snd (strtoull (drop 3 line))))
     else None)"

text \<open>One step of the loop over the online cpus: the next line must be that cpu's, with all numbers.\<close>

fun read_cpu ::
  "u32 \<Rightarrow> string list \<times> (u32 \<Rightarrow> double list option) \<Rightarrow> fault + string list \<times> (u32 \<Rightarrow> double list option)" where
  "read_cpu expected ([], stats) = Inl Exit_Failure"
| "read_cpu expected (line # rest, stats) =
    (case scan_stat line of
       None \<Rightarrow> Inl Exit_Failure
     | Some (actual, temp) \<Rightarrow>
         if actual \<noteq> expected \<or> 1 + length temp \<noteq> 6 then Inl Exit_Failure
         else Inr (rest, stats(actual \<mapsto> temp)))"

definition get_cpu_stats :: "sysfs \<Rightarrow> sys_info \<Rightarrow> fault + (u32 \<Rightarrow> double list option)" where
  "get_cpu_stats fs s =
    (case file_lines fs ''/proc/stat'' of
       None \<Rightarrow> Inl Exit_Failure
     | Some ls \<Rightarrow>
         bindE (foldE read_cpu (sorted_list_of_set (online_cpus s)) (drop 1 ls, \<lambda>_. None))
           (\<lambda>(rest, stats). Inr stats))"

section \<open>Block devices\<close>

definition SLASH :: char where
  "SLASH = CHR ''/''"

definition strip_slashes :: "string \<Rightarrow> string" where
  "strip_slashes p = rev (dropWhile ((=) SLASH) (rev p))"

text \<open>The part after the last slash, and what comes before it with the slash.\<close>

definition last_part :: "string \<Rightarrow> string" where
  "last_part p = rev (takeWhile ((\<noteq>) SLASH) (rev p))"

definition before_last :: "string \<Rightarrow> string" where
  "before_last p = rev (dropWhile ((\<noteq>) SLASH) (rev p))"

text \<open>The POSIX functions of \<open>libgen.h\<close> (with glibc's \<open>//\<close> for a path with two leading slashes).\<close>

definition dirname :: "string \<Rightarrow> string" where
  "dirname p =
    (let q = strip_slashes p; d = before_last q
     in if p = [] then ''.''
        else if q = [] then (if p = ''//'' then ''//'' else ''/'')
        else if d = [] then ''.''
        else if strip_slashes d = [] then (if d = ''//'' then ''//'' else ''/'')
        else strip_slashes d)"

definition basename :: "string \<Rightarrow> string" where
  "basename p =
    (if p = [] then ''.'' else if strip_slashes p = [] then ''/'' else last_part (strip_slashes p))"

definition device_from_id :: "sysfs \<Rightarrow> dev_t \<Rightarrow> sys_info \<Rightarrow> fault + string" where
  "device_from_id fs device_id s =
    (case id_to_device s device_id of
       None \<Rightarrow> Inl Exit_Failure
     | Some dev_name \<Rightarrow>
         (case readlink fs (''/sys/class/block/'' @ dev_name) of
            None \<Rightarrow> Inl Exit_Failure
          | Some the_link \<Rightarrow>
              let up_one_name = basename (dirname (take 4096 the_link))
              in if take 5 up_one_name = ''block'' then Inr dev_name else Inr up_one_name))"

text \<open>
  The loop over the line of schedulers: the index after the last \<open>[\<close> seen, and where the line is
  cut, at the first \<open>]\<close>.
\<close>

fun sched_loop :: "nat \<Rightarrow> string \<Rightarrow> nat option \<Rightarrow> nat option \<times> nat" where
  "sched_loop i [] start = (start, i)"
| "sched_loop i (c # cs) start =
    (let start' = (if c = CHR ''['' then Some (i + 1) else start)
     in if c = CHR '']'' then (start', i) else sched_loop (i + 1) cs start')"

text \<open>With no \<open>[\<close> in the line, \<open>buf[-1]\<close> is read.\<close>

definition scheduler_from_device :: "sysfs \<Rightarrow> string \<Rightarrow> fault + string" where
  "scheduler_from_device fs device =
    (case file_line fs (''/sys/block/'' @ device @ ''/queue/scheduler'') of
       None \<Rightarrow> Inl Exit_Failure
     | Some line \<Rightarrow>
         (case sched_loop 0 line None of
            (None, n) \<Rightarrow> Inl Undefined
          | (Some st, n) \<Rightarrow> Inr (drop st (take n line))))"

definition partition_size :: "sysfs \<Rightarrow> dev_t \<Rightarrow> sys_info \<Rightarrow> fault + off_t" where
  "partition_size fs device_id s =
    (case id_to_device s device_id of
       None \<Rightarrow> Inl Exit_Failure
     | Some name \<Rightarrow>
         (case file_line fs (''/sys/class/block/'' @ name @ ''/size'') of
            None \<Rightarrow> Inl Exit_Failure
          | Some line \<Rightarrow> Inr (fst (strtoull line) * 512)))"

section \<open>The text for debugging\<close>

definition NEWLINE :: string where
  "NEWLINE = [CHR 0x0A]"

definition print_sys_info :: "sys_info \<Rightarrow> string" where
  "print_sys_info s =
    ''total cpus: '' @ dec (card (online_cpus s)) @
    NEWLINE @ ''lowest cpu id: '' @ dec (unat (cpulo s)) @
    NEWLINE @ ''highest cpu id: '' @ dec (unat (cpuhi s)) @
    NEWLINE @ ''all available cpus: '' @ NEWLINE @
    concat (map (\<lambda>i. dec (unat i) @ '' '') (sorted_list_of_set (online_cpus s))) @ NEWLINE"

section \<open>Cpu sets in the kernel's list format\<close>

text \<open>The format of the kernel's cpu lists: fields \<open>lo\<close> or \<open>lo-hi\<close>, separated by commas.\<close>

definition render_range :: "nat \<times> nat \<Rightarrow> string" where
  "render_range r = (if fst r = snd r then dec (fst r) else dec (fst r) @ ''-'' @ dec (snd r))"

fun render_cpus :: "(nat \<times> nat) list \<Rightarrow> string" where
  "render_cpus [] = []"
| "render_cpus [r] = render_range r"
| "render_cpus (r # rs) = render_range r @ '','' @ render_cpus rs"

definition cpus_of :: "(nat \<times> nat) list \<Rightarrow> u32 set" where
  "cpus_of rs = (\<Union>(lo, hi) \<in> set rs. word_of_nat ` {lo..hi})"

lemma hd_dec_digit: "is_digit (char_at (dec n @ suf) 0)"
  using dec_digits [of n] by (cases "dec n") (auto simp: char_at_def)

lemma ucast_word_of_nat: "n < 2 ^ 31 - 1 \<Longrightarrow> ucast (word_of_nat n :: u64) = (word_of_nat n :: u32)"
  by (simp add: unsigned_of_nat take_bit_nat_eq_self)

lemma word32_small: "n < 2 ^ 31 - 1 \<Longrightarrow> (word_of_nat n :: u32) \<noteq> - 1 \<and> (word_of_nat n :: u32) < 0x7FFFFFFF \<and> unat (word_of_nat n :: u32) = n"
proof -
  assume n: "n < 2 ^ 31 - 1"
  then have u: "unat (word_of_nat n :: u32) = n" by (intro unat_of_nat_u32) simp
  with n have "(word_of_nat n :: u32) < 0x7FFFFFFF" by (simp add: word_less_nat_alt)
  moreover have "\<not> (- 1 :: u32) < 0x7FFFFFFF" by simp
  ultimately show ?thesis using u by auto
qed

lemma insert_range_small:
  assumes "lo < 2 ^ 31 - 1" and "hi < 2 ^ 31 - 1"
  shows "insert_range (word_of_nat lo) (word_of_nat hi) ret = Inr (ret \<union> word_of_nat ` {lo..hi})"
proof -
  have "\<not> 0x7FFFFFFF \<le> (word_of_nat hi :: u32)" using word32_small [OF assms(2)] by auto
  then show ?thesis
    using word32_small [OF assms(1)] word32_small [OF assms(2)]
      atLeastLessThanSuc_atLeastAtMost [of lo hi]
    by (simp add: insert_range_def del: set_upt upt_Suc flip: set_upt)
qed

text \<open>One field of the loop, with a single cpu or a range.\<close>

lemma cpu_fields_one:
  assumes "is_digit (char_at p 0)" and "strtoull p = (w, q)" and "char_at q 0 \<noteq> CHR ''-''"
    and "ucast w \<noteq> (- 1 :: u32)" and "insert_range (ucast w) (ucast w) ret = Inr ret'"
  shows "cpu_fields p ret = (if q = [] \<or> hd q \<noteq> CHR '','' then Inr ret' else cpu_fields (tl q) ret')"
  using assms by (subst cpu_fields.simps) (simp add: is_digit_def)

lemma cpu_fields_two:
  assumes "is_digit (char_at p 0)" and "strtoull p = (w, CHR ''-'' # p2)" and "is_digit (char_at p2 0)"
    and "strtoull p2 = (v, q)" and "ucast w \<noteq> (- 1 :: u32)" and "ucast v \<noteq> (- 1 :: u32)"
    and "insert_range (ucast w) (ucast v) ret = Inr ret'"
  shows "cpu_fields p ret = (if q = [] \<or> hd q \<noteq> CHR '','' then Inr ret' else cpu_fields (tl q) ret')"
  using assms by (subst cpu_fields.simps) (simp add: is_digit_def char_at_def)

lemma cpu_fields_range:
  assumes "fst r < 2 ^ 31 - 1" and "snd r < 2 ^ 31 - 1" and "rest = [] \<or> hd rest = CHR '',''"
  shows "cpu_fields (render_range r @ rest) ret =
    (if rest = [] then Inr (ret \<union> word_of_nat ` {fst r..snd r})
     else cpu_fields (tl rest) (ret \<union> word_of_nat ` {fst r..snd r}))"
proof -
  have c: "\<not> is_digit CHR '',''" "\<not> is_digit CHR ''-''" by (simp_all add: is_digit_def code_def)
  have nd: "rest = [] \<or> \<not> is_digit (hd rest)" using assms(3) c by auto
  have z: "char_at rest 0 \<noteq> CHR ''-''" using assms(3) by (cases rest) (auto simp: char_at_def NUL_def)
  have st: "strtoull (dec n @ suf) = (word_of_nat n, suf)"
    if "n < 2 ^ 31 - 1" "suf = [] \<or> \<not> is_digit (hd suf)" for n suf
    using that strtoull_dec [of suf n] by simp
  have neq: "ucast (word_of_nat n :: u64) \<noteq> (- 1 :: u32)" if "n < 2 ^ 31 - 1" for n
    using that word32_small by (metis ucast_word_of_nat)
  have ins: "insert_range (ucast (word_of_nat (fst r) :: u64)) (ucast (word_of_nat (snd r) :: u64)) ret =
      Inr (ret \<union> word_of_nat ` {fst r..snd r})"
    using insert_range_small [OF assms(1,2)] assms by (simp only: ucast_word_of_nat)
  show ?thesis
  proof (cases "fst r = snd r")
    case True
    have r: "render_range r @ rest = dec (fst r) @ rest" using True by (simp add: render_range_def)
    have "cpu_fields (dec (fst r) @ rest) ret = (if rest = [] \<or> hd rest \<noteq> CHR '',''
        then Inr (ret \<union> word_of_nat ` {fst r..snd r})
        else cpu_fields (tl rest) (ret \<union> word_of_nat ` {fst r..snd r}))"
      using ins [folded True] unfolding True [symmetric]
      by (rule cpu_fields_one [OF hd_dec_digit st [OF assms(1) nd] z neq [OF assms(1)]])
    with assms(3) r show ?thesis by auto
  next
    case False
    let ?s = "CHR ''-'' # dec (snd r) @ rest"
    have r: "render_range r @ rest = dec (fst r) @ ?s" using False by (simp add: render_range_def)
    have s: "?s = [] \<or> \<not> is_digit (hd ?s)" using c by simp
    have "cpu_fields (dec (fst r) @ ?s) ret = (if rest = [] \<or> hd rest \<noteq> CHR '',''
        then Inr (ret \<union> word_of_nat ` {fst r..snd r})
        else cpu_fields (tl rest) (ret \<union> word_of_nat ` {fst r..snd r}))"
      by (rule cpu_fields_two [OF hd_dec_digit st [OF assms(1) s] hd_dec_digit st [OF assms(2) nd]
            neq [OF assms(1)] neq [OF assms(2)] ins])
    with assms(3) r show ?thesis by auto
  qed
qed

lemma cpu_fields_render:
  assumes "rs \<noteq> []" and "\<forall>r \<in> set rs. fst r < 2 ^ 31 - 1 \<and> snd r < 2 ^ 31 - 1"
  shows "cpu_fields (render_cpus rs) ret = Inr (ret \<union> cpus_of rs)"
  using assms
proof (induction rs arbitrary: ret rule: render_cpus.induct)
  case (2 r)
  then show ?case using cpu_fields_range [of r "[]" ret] by (auto simp: cpus_of_def split: prod.splits)
next
  case (3 r r' rs)
  have "cpu_fields (render_cpus (r # r' # rs)) ret =
      cpu_fields (render_cpus (r' # rs)) (ret \<union> word_of_nat ` {fst r..snd r})"
    using 3(3) cpu_fields_range [of r "'','' @ render_cpus (r' # rs)" ret] by simp
  with 3 show ?case by (auto simp: cpus_of_def split: prod.splits)
qed simp

section \<open>Cpu times and block devices\<close>

lemma scan_lfs_length: "length (scan_lfs n s) \<le> n"
  by (induction n arbitrary: s) (auto split: option.splits)

lemma read_cpu_Inr:
  assumes "read_cpu c st = Inr st'"
  shows "\<exists>line rest temp. fst st = line # rest \<and> fst st' = rest \<and> scan_stat line = Some (c, temp) \<and>
    length temp = 5 \<and> snd st' = (snd st)(c \<mapsto> temp)"
proof -
  obtain ls stats where st: "st = (ls, stats)" by force
  with assms obtain line rest where ls: "ls = line # rest" by (cases ls) auto
  with assms st show ?thesis by (auto split: option.splits if_splits)
qed

lemma read_cpus_Inr:
  assumes "foldE read_cpu cs st = Inr st'"
  shows "dom (snd st') = dom (snd st) \<union> set cs \<and>
    ((\<forall>c v. snd st c = Some v \<longrightarrow> length v = 5) \<longrightarrow> (\<forall>c v. snd st' c = Some v \<longrightarrow> length v = 5))"
  using assms
proof (induction cs arbitrary: st)
  case Nil
  then show ?case by simp
next
  case (Cons c cs)
  from Cons.prems obtain st1 where s: "read_cpu c st = Inr st1" "foldE read_cpu cs st1 = Inr st'"
    by (auto simp: bindE_Inr_iff)
  from read_cpu_Inr [OF s(1)] obtain temp where t: "length temp = 5" "snd st1 = (snd st)(c \<mapsto> temp)"
    by blast
  from t have v: "(\<forall>c v. snd st c = Some v \<longrightarrow> length v = 5) \<longrightarrow> (\<forall>c v. snd st1 c = Some v \<longrightarrow> length v = 5)"
    by simp
  from t(2) have "dom (snd st1) = insert c (dom (snd st))" by simp
  with Cons.IH [OF s(2)] have d: "dom (snd st') = dom (snd st) \<union> set (c # cs)" by auto
  with Cons.IH [OF s(2)] v show ?case by blast
qed

lemma sched_loop_plain:
  assumes "CHR ''['' \<notin> set xs" and "CHR '']'' \<notin> set xs"
  shows "sched_loop i (xs @ ys) st = sched_loop (i + length xs) ys st"
  using assms by (induction xs arbitrary: i) auto

lemma sched_loop_none: "CHR ''['' \<notin> set xs \<Longrightarrow> fst (sched_loop i xs None) = None"
  by (induction xs arbitrary: i) auto

lemma last_part_append:
  assumes "SLASH \<notin> set y"
  shows "last_part (x @ SLASH # y) = y" "before_last (x @ SLASH # y) = x @ [SLASH]"
proof -
  have "takeWhile ((\<noteq>) SLASH) (rev y @ SLASH # rev x) = rev y"
    "dropWhile ((\<noteq>) SLASH) (rev y @ SLASH # rev x) = SLASH # rev x"
    using assms by (induction y rule: rev_induct) auto
  then show "last_part (x @ SLASH # y) = y" "before_last (x @ SLASH # y) = x @ [SLASH]"
    by (simp_all add: last_part_def before_last_def)
qed

lemma strip_slashes_name:
  assumes "y \<noteq> []" and "SLASH \<notin> set y"
  shows "strip_slashes (x @ y) = x @ y"
  using assms by (cases y rule: rev_cases) (auto simp: strip_slashes_def)

lemma strip_slashes_snoc: "strip_slashes (x @ [SLASH]) = strip_slashes x"
  by (simp add: strip_slashes_def)

lemma basename_dirname:
  assumes "parent \<noteq> []" "child \<noteq> []" "SLASH \<notin> set parent" "SLASH \<notin> set child"
  shows "basename (dirname (pre @ SLASH # parent @ SLASH # child)) = parent"
proof -
  let ?up = "pre @ SLASH # parent"
  have s: "strip_slashes ?up = ?up" using strip_slashes_name [OF assms(1,3), of "pre @ [SLASH]"] by simp
  have "strip_slashes (?up @ SLASH # child) = ?up @ SLASH # child"
    using strip_slashes_name [OF assms(2,4), of "?up @ [SLASH]"] by simp
  then have "dirname (?up @ SLASH # child) = ?up"
    using s last_part_append(2) [OF assms(4), of ?up] strip_slashes_snoc [of ?up]
    by (simp add: dirname_def Let_def)
  then show ?thesis using s last_part_append(1) [OF assms(3), of pre] by (simp add: basename_def)
qed

section \<open>Properties\<close>

text \<open>
  C39. Cpu sets: every nonempty list of single cpus and ranges in the kernel's format, with
  numbers an \<open>int\<close> can count up to, is read as exactly the set of the cpus it names (a range
  whose ends are the wrong way round names none).
\<close>

theorem cpu_set_roundtrip:
  assumes "rs \<noteq> []" and "\<forall>r \<in> set rs. fst r < 2 ^ 31 - 1 \<and> snd r < 2 ^ 31 - 1"
  shows "str_to_cpu_set (Some (render_cpus rs)) = Inr (cpus_of rs)"
  using cpu_fields_render [OF assms, of "{}"] by (simp add: str_to_cpu_set_def)

lemma cpu_set_roundtrip_witness:
  "str_to_cpu_set (Some ''0-3,7'') = Inr {0, 1, 2, 3, 7}"
proof -
  have "render_cpus [(0, 3), (7, 7)] = ''0-3,7''" by code_simp
  moreover have "cpus_of [(0, 3), (7, 7)] = {0, 1, 2, 3, 7}"
  proof -
    have "{0..3 :: nat} = {0, 1, 2, 3}" by auto
    then show ?thesis by (auto simp: cpus_of_def)
  qed
  ultimately show ?thesis using cpu_set_roundtrip [of "[(0, 3), (7, 7)]"] by simp
qed

text \<open>
  Cpu times: when \<open>get_cpu_stats\<close> returns, it has a vector of exactly the five numbers
  of \<open>/proc/stat\<close> it reads for every online cpu and for no other cpu; the program exits
  rather than return a table with a cpu missing.
\<close>

theorem cpu_stats_complete:
  assumes "get_cpu_stats fs s = Inr stats" and "finite (online_cpus s)"
  shows "dom stats = online_cpus s \<and> (\<forall>c v. stats c = Some v \<longrightarrow> length v = 5)"
proof -
  from assms(1) obtain ls rest where "foldE read_cpu (sorted_list_of_set (online_cpus s)) (drop 1 ls, \<lambda>_. None)
      = Inr (rest, stats)"
    by (auto simp: get_cpu_stats_def bindE_Inr_iff split: option.splits)
  from read_cpus_Inr [OF this] assms(2) show ?thesis by (auto simp: ran_def)
qed

definition example_fs :: sysfs where
  "example_fs = \<lparr>file_line = (\<lambda>p. if p = ''/sys/block/sda/queue/scheduler'' then Some ''noop [cfq]'' else
       if p = ''/sys/block/nvme0n1/queue/scheduler'' then Some ''none'' else None),
     file_lines = (\<lambda>_. Some [''cpu 3 0 0 5 0'', ''cpu0 1 0 0 2 0.5'', ''cpu1 2 0 0 3 0'']),
     dir_names = (\<lambda>_. None), stat_rdev = (\<lambda>_. None),
     readlink = (\<lambda>_. Some ''../../devices/ata1/block/sda/sda1'')\<rparr>"

lemma scan_lfs5: "scan_lfs 5 s = scan_lfs (Suc (Suc (Suc (Suc (Suc 0))))) s"
  by (simp only: numeral_eq_Suc pred_numeral_simps BitM.simps numeral_One One_nat_def)

lemma cpu_stats_complete_witness:
  "\<exists>stats. get_cpu_stats example_fs (SysInfo\<lparr>online_cpus := {0, 1}\<rparr>) = Inr stats \<and> dom stats = {0, 1}"
proof -
  have e: "sorted_list_of_set {0, 1 :: u32} = [0, 1]"
    using sorted_list_of_set.idem_if_sorted_distinct [of "[0, 1 :: u32]"] by simp
  have p: "scan_stat ''cpu0 1 0 0 2 0.5'' = Some (0, [1, 0, 0, 2, 1 / 2])"
    "scan_stat ''cpu1 2 0 0 3 0'' = Some (1, [2, 0, 0, 3, 0])"
    by (simp_all only: scan_stat_def scan_lfs5)
      (simp_all add: scan_lf_def strtoull_def is_space_def is_digit_def code_def digits_value_def)
  then have "\<exists>stats. get_cpu_stats example_fs (SysInfo\<lparr>online_cpus := {0, 1}\<rparr>) = Inr stats"
    by (simp add: get_cpu_stats_def e example_fs_def)
  then obtain stats where s: "get_cpu_stats example_fs (SysInfo\<lparr>online_cpus := {0, 1}\<rparr>) = Inr stats" ..
  with cpu_stats_complete [OF s] show ?thesis by auto
qed

text \<open>
  C40. Schedulers: of a line that marks the scheduler in use with brackets, the name between
  the brackets is returned; of a line without brackets (multiqueue devices that have only one
  scheduler) the program reads before the start of its buffer.
\<close>

theorem scheduler_in_brackets:
  assumes "file_line fs (''/sys/block/'' @ device @ ''/queue/scheduler'') = Some line"
  shows "(\<forall>pre name post. line = pre @ ''['' @ name @ '']'' @ post \<longrightarrow>
       {CHR ''['', CHR '']''} \<inter> (set pre \<union> set name) = {} \<longrightarrow>
       scheduler_from_device fs device = Inr name) \<and>
    (CHR ''['' \<notin> set line \<longrightarrow> scheduler_from_device fs device = Inl Undefined)"
proof (intro conjI allI impI)
  fix pre name post
  assume l: "line = pre @ ''['' @ name @ '']'' @ post"
    and "{CHR ''['', CHR '']''} \<inter> (set pre \<union> set name) = {}"
  then have "sched_loop 0 line None = (Some (length pre + 1), length pre + 1 + length name)"
    by (simp add: sched_loop_plain)
  with l assms show "scheduler_from_device fs device = Inr name"
    by (simp add: scheduler_from_device_def)
next
  assume "CHR ''['' \<notin> set line"
  with sched_loop_none [of line 0] assms show "scheduler_from_device fs device = Inl Undefined"
    by (auto simp: scheduler_from_device_def split: prod.splits)
qed

lemma scheduler_in_brackets_witness:
  "scheduler_from_device example_fs ''sda'' = Inr ''cfq'' \<and>
   scheduler_from_device example_fs ''nvme0n1'' = Inl Undefined"
proof -
  have "file_line example_fs (''/sys/block/'' @ ''sda'' @ ''/queue/scheduler'') = Some ''noop [cfq]''"
    by (simp add: example_fs_def)
  from conjunct1 [OF scheduler_in_brackets [OF this], rule_format, of "''noop ''" "''cfq''" "[]"]
  have "scheduler_from_device example_fs ''sda'' = Inr ''cfq''" by simp
  moreover have "file_line example_fs (''/sys/block/'' @ ''nvme0n1'' @ ''/queue/scheduler'') = Some ''none''"
    by (simp add: example_fs_def)
  from conjunct2 [OF scheduler_in_brackets [OF this], rule_format]
  have "scheduler_from_device example_fs ''nvme0n1'' = Inl Undefined" by simp
  ultimately show ?thesis by simp
qed

text \<open>
  Devices of partitions: from a sysfs link that ends in \<open>block/disk/partition\<close> the disk
  is returned, from one that ends in \<open>block/disk\<close> the name the id is mapped to.
\<close>

theorem device_of_partition:
  assumes "id_to_device s i = Some dev_name"
    and "readlink fs (''/sys/class/block/'' @ dev_name) = Some (pre @ SLASH # parent @ SLASH # child)"
    and "length (pre @ SLASH # parent @ SLASH # child) \<le> 4096"
    and "parent \<noteq> []" "child \<noteq> []" "SLASH \<notin> set parent" "SLASH \<notin> set child"
  shows "device_from_id fs i s = Inr (if take 5 parent = ''block'' then dev_name else parent)"
  using assms(1-3) basename_dirname [OF assms(4-7), of pre]
  by (simp add: device_from_id_def Let_def)

lemma device_of_partition_witness:
  "device_from_id example_fs 2049 (SysInfo\<lparr>id_to_device := [2049 \<mapsto> ''sda1'']\<rparr>) = Inr ''sda''"
proof -
  have "readlink example_fs (''/sys/class/block/'' @ ''sda1'') =
      Some (''../../devices/ata1/block'' @ SLASH # ''sda'' @ SLASH # ''sda1'')"
    by (simp add: example_fs_def SLASH_def)
  from device_of_partition [OF _ this, of "SysInfo\<lparr>id_to_device := [2049 \<mapsto> ''sda1'']\<rparr>" 2049]
  show ?thesis by (simp add: SLASH_def)
qed

end
