(* ===== verification/Files.thy ===== *)
theory Files
  imports Prelude
begin

text \<open>
  The files of a job as \<open>Job::run_job\<close> (\<open>src/src/job.cc\<close>) lays them out: the buffers it writes, the loop
  that writes a file, and the system calls. The calls are parameters; \<open>files_behave\<close> says what POSIX
  documents of them, over the names, the contents and the open descriptors of a file system.
\<close>

unbundle bit_operations_syntax

section \<open>The system calls and the buffers\<close>

text \<open>
  The calls over the state of the file system. \<open>open_old\<close> is \<open>open\<close> without \<open>O_CREAT\<close>, \<open>create_new\<close> is
  \<open>open\<close> with \<open>O_CREAT | O_EXCL\<close>, and \<open>remove_file\<close> says whether the name is gone (or was not there).
  A buffer is a function from its indices to its bytes.
\<close>

record 'w file_ops =
  open_old :: "string \<Rightarrow> 'w \<Rightarrow> int \<times> 'w"
  remove_file :: "string \<Rightarrow> 'w \<Rightarrow> bool \<times> 'w"
  create_new :: "string \<Rightarrow> 'w \<Rightarrow> int \<times> 'w"
  seek_file :: "int \<Rightarrow> off_t \<Rightarrow> 'w \<Rightarrow> off_t \<times> 'w"
  write_file :: "int \<Rightarrow> (nat \<Rightarrow> u8) \<Rightarrow> size_t \<Rightarrow> 'w \<Rightarrow> int \<times> 'w"
  close_file :: "int \<Rightarrow> 'w \<Rightarrow> 'w"

definition fill_buf_size :: size_t where "fill_buf_size = 64 * 1024 * 1024"

definition fill_buf :: "nat \<Rightarrow> u8" where
  "fill_buf i = ucast ((of_nat i :: u32) AND 0xFF)"

definition zero_buf :: "nat \<Rightarrow> u8" where
  "zero_buf i = 0"

section \<open>The loop that writes the file\<close>

text \<open>A result other than the number of bytes, compared as unsigned, ends the job.\<close>

function write_loop ::
  "'w file_ops \<Rightarrow> int \<Rightarrow> (nat \<Rightarrow> u8) \<Rightarrow> off_t \<Rightarrow> 'w \<Rightarrow> bool \<times> 'w" where
  "write_loop fs fd buf remaining w =
    (if remaining = 0 then (True, w)
     else
       let nbytes = (if fill_buf_size < remaining then fill_buf_size else remaining);
           (wresult, w') = write_file fs fd buf nbytes w
       in if word_of_int wresult \<noteq> nbytes then (False, w')
          else write_loop fs fd buf (remaining - nbytes) w')"
  by auto

lemma write_loop_decreases:
  assumes "remaining \<noteq> 0" and "n = (if fill_buf_size < remaining then fill_buf_size else remaining)"
  shows "unat (remaining - n) < unat remaining" and "unat (remaining - n) = unat remaining - unat n" and "unat n \<le> unat remaining"
    and "0 < unat n" and "unat n \<le> unat fill_buf_size" and "remaining \<noteq> n \<Longrightarrow> n = fill_buf_size"
proof -
  have n: "n \<le> remaining" "0 < unat n"
    using assms by (auto simp: fill_buf_size_def unat_gt_0)
  then show u: "unat (remaining - n) = unat remaining - unat n" by (simp add: unat_sub)
  show "unat n \<le> unat remaining" using n(1) by (simp add: word_le_nat_alt)
  with u n(2) show "unat (remaining - n) < unat remaining" by simp
  show "0 < unat n" by (rule n(2))
  show "unat n \<le> unat fill_buf_size" using assms(2) by (auto simp: not_less word_le_nat_alt)
  show "remaining \<noteq> n \<Longrightarrow> n = fill_buf_size" using assms(2) by (simp split: if_splits)
qed

termination write_loop
proof (relation "measure (\<lambda>(fs, fd, buf, remaining, w). unat remaining)", goal_cases)
  case (2 fs fd buf remaining w nbytes r wresult w')
  from write_loop_decreases(1) [OF 2(1,2)] show ?case by simp
qed simp

declare write_loop.simps [simp del]

section \<open>What POSIX documents of the calls\<close>

text \<open>
  The bytes of a file after some are written at a position; a gap before the position reads as zeros,
  and writing nothing changes nothing.
\<close>

definition overwrite :: "u8 list \<Rightarrow> nat \<Rightarrow> u8 list \<Rightarrow> u8 list" where
  "overwrite bs k xs =
    (if xs = [] then bs else take k (bs @ replicate (k - length bs) 0) @ xs @ drop (k + length xs) bs)"

text \<open>
  The view of a file system: names lead to files, files hold bytes, and an open descriptor is a file
  with a position.
\<close>

record 'w file_view =
  names :: "'w \<Rightarrow> string \<Rightarrow> nat option"
  data :: "'w \<Rightarrow> nat \<Rightarrow> u8 list"
  opens :: "'w \<Rightarrow> int \<Rightarrow> (nat \<times> nat) option"

text \<open>
  The documented behaviour of each call. Every call may fail, \<open>write\<close> may take fewer bytes than it was
  given, and opening returns a descriptor that is not in use.
\<close>

definition opens_old :: "'w file_ops \<Rightarrow> 'w file_view \<Rightarrow> bool" where
  "opens_old fs v \<longleftrightarrow> (\<forall>p w fd w'. open_old fs p w = (fd, w') \<longrightarrow> names v w' = names v w \<and> data v w' = data v w \<and>
    (if fd = - 1 then opens v w' = opens v w
     else opens v w fd = None \<and> (\<exists>i. names v w p = Some i \<and> opens v w' = (opens v w)(fd \<mapsto> (i, 0)))))"

definition removes :: "'w file_ops \<Rightarrow> 'w file_view \<Rightarrow> bool" where
  "removes fs v \<longleftrightarrow> (\<forall>p w ok w'. remove_file fs p w = (ok, w') \<longrightarrow>
    opens v w' = opens v w \<and> (ok \<longrightarrow> names v w' = (names v w)(p := None)))"

definition creates :: "'w file_ops \<Rightarrow> 'w file_view \<Rightarrow> bool" where
  "creates fs v \<longleftrightarrow> (\<forall>p w fd w'. create_new fs p w = (fd, w') \<and> fd \<noteq> - 1 \<longrightarrow> names v w p = None \<and> opens v w fd = None \<and>
    (\<exists>i. names v w' = (names v w)(p \<mapsto> i) \<and> data v w' i = [] \<and> opens v w' = (opens v w)(fd \<mapsto> (i, 0))))"

definition seeks :: "'w file_ops \<Rightarrow> 'w file_view \<Rightarrow> bool" where
  "seeks fs v \<longleftrightarrow> (\<forall>fd off w r w' i k. seek_file fs fd off w = (r, w') \<and> opens v w fd = Some (i, k) \<longrightarrow>
    names v w' = names v w \<and> data v w' = data v w \<and>
    (r = off \<and> opens v w' = (opens v w)(fd \<mapsto> (i, unat off)) \<or> r = - 1 \<and> opens v w' = opens v w))"

definition writes :: "'w file_ops \<Rightarrow> 'w file_view \<Rightarrow> bool" where
  "writes fs v \<longleftrightarrow> (\<forall>fd buf n w r w' i k. write_file fs fd buf n w = (r, w') \<and> opens v w fd = Some (i, k) \<longrightarrow>
    r = - 1 \<or> 0 \<le> r \<and> r \<le> uint n \<and> names v w' = names v w \<and>
      data v w' = (data v w)(i := overwrite (data v w i) k (map buf [0..<nat r])) \<and>
      opens v w' = (opens v w)(fd \<mapsto> (i, k + nat r)))"

definition closes :: "'w file_ops \<Rightarrow> 'w file_view \<Rightarrow> bool" where
  "closes fs v \<longleftrightarrow> (\<forall>fd w. names v (close_file fs fd w) = names v w \<and> data v (close_file fs fd w) = data v w \<and>
    opens v (close_file fs fd w) = (opens v w)(fd := None))"

definition files_behave :: "'w file_ops \<Rightarrow> 'w file_view \<Rightarrow> bool" where
  "files_behave fs v \<longleftrightarrow> opens_old fs v \<and> removes fs v \<and> creates fs v \<and> seeks fs v \<and> writes fs v \<and> closes fs v"

text \<open>The laws as rules.\<close>

lemma files_behaveD:
  assumes "files_behave fs v"
  shows "opens_old fs v" "removes fs v" "creates fs v" "seeks fs v" "writes fs v" "closes fs v"
  using assms by (simp_all add: files_behave_def)

lemma opens_oldD:
  assumes "opens_old fs v" and "open_old fs p w = (fd, w')"
  shows "if fd = - 1 then opens v w' = opens v w
    else \<exists>i. names v w p = Some i \<and> opens v w' = (opens v w)(fd \<mapsto> (i, 0))"
  using assms unfolding opens_old_def by (auto split: if_splits)

lemma removesD: "removes fs v \<Longrightarrow> remove_file fs p w = (ok, w') \<Longrightarrow> opens v w' = opens v w"
  unfolding removes_def by blast

lemma createsD:
  assumes "creates fs v" and "create_new fs p w = (fd, w')" and "fd \<noteq> - 1"
  shows "\<exists>i. names v w' = (names v w)(p \<mapsto> i) \<and> data v w' i = [] \<and> opens v w fd = None \<and> opens v w' = (opens v w)(fd \<mapsto> (i, 0))"
  using assms unfolding creates_def by blast

lemma seeksD:
  assumes "seeks fs v" and "seek_file fs fd off w = (r, w')" and "opens v w fd = Some (i, k)"
  shows "names v w' = names v w \<and> data v w' = data v w \<and>
    (r = off \<and> opens v w' = (opens v w)(fd \<mapsto> (i, unat off)) \<or> r = - 1 \<and> opens v w' = opens v w)"
  using assms unfolding seeks_def by blast

lemma writesD:
  assumes "writes fs v" and "write_file fs fd buf n w = (r, w')" and "opens v w fd = Some (i, k)"
  shows "r = - 1 \<or> 0 \<le> r \<and> r \<le> uint n \<and> names v w' = names v w \<and>
    data v w' = (data v w)(i := overwrite (data v w i) k (map buf [0..<nat r])) \<and> opens v w' = (opens v w)(fd \<mapsto> (i, k + nat r))"
  using assms unfolding writes_def by blast

lemma closesD:
  assumes "closes fs v"
  shows "names v (close_file fs fd w) = names v w" "data v (close_file fs fd w) = data v w"
    "opens v (close_file fs fd w) = (opens v w)(fd := None)"
  using assms unfolding closes_def by blast+

section \<open>What the loop writes\<close>

lemma overwrite_append:
  assumes "length bs \<le> k"
  shows "overwrite (overwrite bs k xs) (k + length xs) ys = overwrite bs k (xs @ ys)"
  using assms by (simp add: overwrite_def)

text \<open>The bytes that a loop over a buffer writes.\<close>

definition laid_out :: "(nat \<Rightarrow> u8) \<Rightarrow> nat \<Rightarrow> u8 list" where
  "laid_out buf n = map (\<lambda>j. buf (j mod unat fill_buf_size)) [0..<n]"

lemma length_laid_out [simp]: "length (laid_out buf n) = n"
  by (simp add: laid_out_def)

lemma laid_out_short: "n \<le> unat fill_buf_size \<Longrightarrow> laid_out buf n = map buf [0..<n]"
  by (auto simp: laid_out_def)

lemma laid_out_step: "laid_out buf (unat fill_buf_size + m) = laid_out buf (unat fill_buf_size) @ laid_out buf m"
  by (rule nth_equalityI) (auto simp: laid_out_def nth_append le_mod_geq)

lemma fill_buf_byte: "fill_buf (j mod unat fill_buf_size) = of_nat j"
proof -
  have "fill_buf i = of_nat i" for i
  proof -
    have "(of_nat i :: u32) AND 0xFF = take_bit 8 (of_nat i)" by (simp add: take_bit_eq_mask mask_eq_exp_minus_1)
    then show ?thesis by (auto simp: fill_buf_def bit_simps intro: bit_word_eqI)
  qed
  moreover have "unat fill_buf_size = 2 ^ 26" by (simp add: fill_buf_size_def)
  moreover have "(of_nat (j mod 2 ^ 26) :: u8) = of_nat j"
    by (simp add: word_of_nat_eq_iff take_bit_eq_mod mod_mod_cancel)
  ultimately show ?thesis by simp
qed

lemma chunk_written:
  assumes "word_of_int r = n" and "n \<le> fill_buf_size" and "r = - 1 \<or> 0 \<le> r \<and> r \<le> uint n"
  shows "nat r = unat n \<and> 0 \<le> r"
proof -
  have "\<not> (- 1 :: size_t) \<le> fill_buf_size" by code_simp
  then have "r \<noteq> - 1" using assms(1,2) by auto
  with assms(3) have r: "0 \<le> r" "r \<le> uint n" by auto
  then have "uint (word_of_int r :: size_t) = r"
    using uint_lt2p [of n] by (simp add: uint_word_of_int_eq take_bit_int_eq_self)
  with assms(1) r(1) show ?thesis by (auto simp flip: nat_uint_eq)
qed

text \<open>
  A loop that ends well has stored all the bytes it was asked to, from the position of the descriptor
  on; a short write would have ended it.
\<close>

lemma write_loop_stores:
  assumes "write_loop fs fd buf remaining w = (True, w')" and "writes fs v"
    and "opens v w fd = Some (i, k)" and "length (data v w i) \<le> k"
  shows "names v w' = names v w \<and>
    data v w' = (data v w)(i := overwrite (data v w i) k (laid_out buf (unat remaining))) \<and>
    opens v w' = (opens v w)(fd \<mapsto> (i, k + unat remaining))"
  using assms
proof (induction fs fd buf remaining w arbitrary: w' k rule: write_loop.induct)
  case (1 fs fd buf remaining w)
  show ?case
  proof (cases "remaining = 0")
    case True
    with "1.prems" show ?thesis by (simp add: write_loop.simps laid_out_def overwrite_def fun_upd_idem)
  next
    case False
    define n where "n = (if fill_buf_size < remaining then fill_buf_size else remaining)"
    note n = write_loop_decreases [OF False n_def]
    obtain r w1 where wr: "write_file fs fd buf n w = (r, w1)" by force
    from "1.prems"(1) False have "word_of_int r = n \<and> write_loop fs fd buf (remaining - n) w1 = (True, w')"
      by (subst (asm) write_loop.simps) (simp add: n_def [symmetric] wr split: if_splits)
    then have r: "word_of_int r = n" and rest: "write_loop fs fd buf (remaining - n) w1 = (True, w')" by simp_all
    from writesD [OF "1.prems"(2) wr "1.prems"(3)] have l: "r = - 1 \<or> 0 \<le> r \<and> r \<le> uint n"
      and st: "r \<noteq> - 1 \<Longrightarrow> names v w1 = names v w \<and>
        data v w1 = (data v w)(i := overwrite (data v w i) k (map buf [0..<nat r])) \<and>
        opens v w1 = (opens v w)(fd \<mapsto> (i, k + nat r))"
      by blast+
    from chunk_written [OF r _ l] n(5) have u: "nat r = unat n" "r \<noteq> - 1" by (auto simp: word_le_nat_alt)
    have w1: "names v w1 = names v w" "opens v w1 = (opens v w)(fd \<mapsto> (i, k + unat n))"
      "data v w1 = (data v w)(i := overwrite (data v w i) k (laid_out buf (unat n)))"
      using st [OF u(2)] u(1) laid_out_short [OF n(5)] by simp_all
    have len: "length (data v w1 i) \<le> k + unat n"
      using n(4) "1.prems"(4) by (simp add: w1 overwrite_def)
    have parts: "laid_out buf (unat n) @ laid_out buf (unat (remaining - n)) = laid_out buf (unat remaining)"
    proof (cases "remaining = n")
      case True
      then show ?thesis by (simp add: laid_out_def)
    next
      case False
      from n(6) [OF this] n(2,3) show ?thesis by (metis laid_out_step le_add_diff_inverse)
    qed
    have "opens v w1 fd = Some (i, k + unat n)" by (simp add: w1)
    note IH = "1.IH" [OF False n_def wr [symmetric] _ _ rest "1.prems"(2) this len]
    have
      IH: "names v w' = names v w1"
        "data v w' = (data v w1)(i := overwrite (data v w1 i) (k + unat n) (laid_out buf (unat (remaining - n))))"
        "opens v w' = (opens v w1)(fd \<mapsto> (i, k + unat n + unat (remaining - n)))"
      using IH r by (auto simp del: fun_upd_apply)
    show ?thesis
      using IH n(2,3) overwrite_append [OF "1.prems"(4), of "laid_out buf (unat n)"] by (simp add: w1 parts [unfolded n(2)])
  qed
qed

section \<open>A disk\<close>

text \<open>A file system that behaves as documented: descriptors count from its first free one and nothing fails.\<close>

record disk =
  d_names :: "string \<Rightarrow> nat option"
  d_data :: "nat \<Rightarrow> u8 list"
  d_open :: "int \<Rightarrow> (nat \<times> nat) option"
  d_next_file :: nat
  d_next_fd :: nat

definition disk_open :: "nat \<Rightarrow> disk \<Rightarrow> int \<times> disk" where
  "disk_open i w = (int (d_next_fd w), w\<lparr>d_open := (d_open w)(int (d_next_fd w) \<mapsto> (i, 0)), d_next_fd := d_next_fd w + 1\<rparr>)"

definition disk_ops :: "disk file_ops" where
  "disk_ops = \<lparr>open_old = (\<lambda>p w. case d_names w p of None \<Rightarrow> (- 1, w) | Some i \<Rightarrow> disk_open i w),
     remove_file = (\<lambda>p w. (True, w\<lparr>d_names := (d_names w)(p := None)\<rparr>)),
     create_new = (\<lambda>p w. if d_names w p \<noteq> None then (- 1, w)
       else disk_open (d_next_file w) (w\<lparr>d_names := (d_names w)(p \<mapsto> d_next_file w),
         d_data := (d_data w)(d_next_file w := []), d_next_file := d_next_file w + 1\<rparr>)),
     seek_file = (\<lambda>fd off w. case d_open w fd of None \<Rightarrow> (- 1, w)
       | Some (i, k) \<Rightarrow> (off, w\<lparr>d_open := (d_open w)(fd \<mapsto> (i, unat off))\<rparr>)),
     write_file = (\<lambda>fd buf n w. case d_open w fd of None \<Rightarrow> (- 1, w)
       | Some (i, k) \<Rightarrow> (uint n, w\<lparr>d_data := (d_data w)(i := overwrite (d_data w i) k (map buf [0..<unat n])),
           d_open := (d_open w)(fd \<mapsto> (i, k + unat n))\<rparr>)),
     close_file = (\<lambda>fd w. w\<lparr>d_open := (d_open w)(fd := None)\<rparr>)\<rparr>"

definition disk_view :: "disk file_view" where
  "disk_view = \<lparr>names = d_names, data = d_data, opens = (\<lambda>w fd. if fd < int (d_next_fd w) then d_open w fd else None)\<rparr>"

lemma disk_behaves: "files_behave disk_ops disk_view"
proof -
  note defs = disk_ops_def disk_view_def disk_open_def
  have "opens_old disk_ops disk_view" by (auto simp: opens_old_def defs fun_eq_iff split: option.splits if_splits)
  moreover have "removes disk_ops disk_view" by (auto simp: removes_def defs)
  moreover have "creates disk_ops disk_view" by (auto simp: creates_def defs fun_eq_iff split: if_splits)
  moreover have "seeks disk_ops disk_view" by (auto simp: seeks_def defs fun_eq_iff split: option.splits if_splits)
  moreover have "writes disk_ops disk_view" by (auto simp: writes_def defs fun_eq_iff split: option.splits if_splits)
  moreover have "closes disk_ops disk_view" by (auto simp: closes_def defs fun_eq_iff)
  ultimately show ?thesis by (simp add: files_behave_def)
qed

text \<open>A disk with one file, whose inode is 0, under the name \<open>f\<close>; no file is open.\<close>

definition one_file :: disk where
  "one_file = \<lparr>d_names = (\<lambda>p. if p = ''f'' then Some 0 else None), d_data = (\<lambda>i. if i = 0 then [7, 7] else []),
     d_open = (\<lambda>fd. None), d_next_file = 1, d_next_fd = 3\<rparr>"

end
