(* ===== verification/Job.thy ===== *)
theory Job
  imports Thread Sys_Info Files
begin

text \<open>
  A job (\<open>src/src/job.h\<close>, \<open>src/src/job.cc\<close>): the checks and the layout of the targets, the
  assignment of targets and cpus to threads, the wait for their start, the phases of the run and
  the cpu usage. Files, \<open>stat\<close>, thread creation and the condition variables are parameters; the
  threads themselves are the workers of \<open>Thread\<close>.
\<close>

section \<open>Data\<close>

datatype io_engine = Kernel_Engine | Posix_Engine

text \<open>The fields of \<open>JobOptions\<close> beside the ones the workers read.\<close>

record job_setup =
  settings :: job_options
  job_engine :: io_engine
  setup_targets_of :: "target list"

record stat_buf =
  st_dev :: dev_t
  st_rdev :: dev_t
  st_size :: off_t

definition no_stat :: stat_buf where
  "no_stat = \<lparr>st_dev = 0, st_rdev = 0, st_size = 0\<rparr>"

datatype stat_result = Stat_Ok stat_buf | Stat_ENOENT | Stat_Failed

text \<open>What \<open>stat\<close> leaves in the structure that the caller has set to zero.\<close>

definition stat_data :: "stat_result \<Rightarrow> stat_buf" where
  "stat_data r = (case r of Stat_Ok b \<Rightarrow> b | _ \<Rightarrow> no_stat)"

section \<open>The checks of a target\<close>

definition no_threads :: "job_options \<Rightarrow> target \<Rightarrow> u32" where
  "no_threads opt t = (if use_total_threads opt then total_threads opt else threads_per_target t)"

definition unaligned_direct :: "target \<Rightarrow> bool" where
  "unaligned_direct t \<longleftrightarrow> open_flags t AND O_DIRECT \<noteq> 0 \<and>
    (block_size t AND (sector_size t - 1) \<noteq> 0 \<or> stride t AND (sector_size t - 1) \<noteq> 0 \<or>
     thread_offset t AND (sector_size t - 1) \<noteq> 0)"

text \<open>
  The number of threads less one wraps in 32 bits; the product is one of signed 64-bit numbers,
  whose overflow is undefined.
\<close>

definition check_target :: "job_options \<Rightarrow> target \<Rightarrow> fault + bool" where
  "check_target opt t =
    (if unaligned_direct t then Inr False
     else
       let max_offset = max_size t - base_offset t - block_size t;
           last_start = sint (thread_offset t) * uint (no_threads opt t - 1)
       in if last_start \<ge> 2 ^ 63 \<or> last_start < - (2 ^ 63) then Inl Undefined
          else Inr (\<not> sint max_offset < last_start))"

section \<open>The layout of the files\<close>

text \<open>
  The body of the loop over the targets; false is an early \<open>return false\<close>. The old file is opened before
  it is removed, and its descriptor is forgotten; the result of \<open>lseek\<close> is only reported.
\<close>

definition layout_target ::
  "'w file_ops \<Rightarrow> job_options \<Rightarrow> target \<Rightarrow> 'w \<Rightarrow> fault + bool \<times> 'w" where
  "layout_target fs opt t w =
    bindE (check_target opt t) (\<lambda>ok.
      if \<not> ok then Inr (False, w)
      else if \<not> create_file t then Inr (True, w)
      else
        let (old, w0) = open_old fs (path t) w;
            (removed, w1) = remove_file fs (path t) w0
        in if \<not> removed then Inr (False, w1)
           else
             let (fd, w2) = create_new fs (path t) w1
             in if fd = - 1 then Inr (False, w2)
                else
                  let (lresult, w3) = seek_file fs fd (base_offset t) w2;
                      (done, w4) = write_loop fs fd (if zero_buffers t then zero_buf else fill_buf)
                        (max_size t - base_offset t) w3
                  in if \<not> done then Inr (False, w4) else Inr (True, close_file fs fd w4))"

primrec layout_targets ::
  "'w file_ops \<Rightarrow> job_options \<Rightarrow> target list \<Rightarrow> 'w \<Rightarrow> fault + bool \<times> 'w" where
  "layout_targets fs opt [] w = Inr (True, w)"
| "layout_targets fs opt (t # ts) w =
    bindE (layout_target fs opt t w) (\<lambda>(ok, w'). if ok then layout_targets fs opt ts w' else Inr (False, w'))"

text \<open>The device and the scheduler of each target; the result of \<open>stat\<close> is not checked.\<close>

definition name_device :: "sysfs \<Rightarrow> (string \<Rightarrow> stat_result) \<Rightarrow> sys_info \<Rightarrow> target \<Rightarrow> fault + target" where
  "name_device fs stat si t =
    (let buf = stat_data (stat (path t));
         id = (if st_rdev buf \<noteq> 0 then st_rdev buf else st_dev buf)
     in bindE (device_from_id fs id si) (\<lambda>d.
        bindE (scheduler_from_device fs d) (\<lambda>sch. Inr (t\<lparr>device := d, scheduler := sch\<rparr>))))"

primrec name_devices ::
  "sysfs \<Rightarrow> (string \<Rightarrow> stat_result) \<Rightarrow> sys_info \<Rightarrow> target list \<Rightarrow> fault + target list" where
  "name_devices fs stat si [] = Inr []"
| "name_devices fs stat si (t # ts) =
    bindE (name_device fs stat si t) (\<lambda>t'. bindE (name_devices fs stat si ts) (\<lambda>ts'. Inr (t' # ts')))"

section \<open>Threads and their targets\<close>

record thread_setup =
  ts_params :: thread_params
  ts_targets :: "target_data list"

definition new_thread :: "nat \<Rightarrow> thread_setup" where
  "new_thread i = \<lparr>ts_params = \<lparr>thread_id = of_nat i, rel_thread_id = 0, initialized = False, run_threads = True,
     thread_error = False, error_notified = False\<rparr>, ts_targets = []\<rparr>"

definition create_threads :: "job_options \<Rightarrow> thread_setup list" where
  "create_threads opt = map new_thread [0..<unat (total_threads opt)]"

text \<open>The body of the inner loop: the threads, the index for \<open>-t\<close> and the sum of the overlaps.\<close>

definition give_target :: "nat \<Rightarrow> nat \<Rightarrow> thread_setup \<Rightarrow> thread_setup" where
  "give_target j inner th = th\<lparr>ts_targets := ts_targets th @ [TargetData j],
     ts_params := (ts_params th)\<lparr>rel_thread_id := of_nat inner\<rparr>\<rparr>"

definition assign_one ::
  "job_options \<Rightarrow> nat \<Rightarrow> u32 \<Rightarrow> nat \<Rightarrow> thread_setup list \<times> u32 \<times> u32 \<Rightarrow> fault + thread_setup list \<times> u32 \<times> u32" where
  "assign_one opt j ov inner = (\<lambda>(ths, index, total_overlap).
    let (i, index') = (if use_total_threads opt then (inner, index) else (unat index, index + 1))
    in if i \<ge> length ths then Inl Undefined
       else
         let th = give_target j inner (ths ! i)
         in if use_total_threads opt \<and> rel_thread_id (ts_params th) \<noteq> thread_id (ts_params th) then Inl Assert_Failed
            else Inr (ths[i := th], index', total_overlap + ov))"

definition assign_target ::
  "job_options \<Rightarrow> nat \<times> target \<Rightarrow> thread_setup list \<times> u32 \<times> u32 \<Rightarrow> fault + thread_setup list \<times> u32 \<times> u32" where
  "assign_target opt = (\<lambda>(j, t). foldE (assign_one opt j (overlap t)) [0..<unat (no_threads opt t)])"

definition assign_targets :: "job_options \<Rightarrow> target list \<Rightarrow> fault + thread_setup list \<times> u32 \<times> u32" where
  "assign_targets opt ts = foldE (assign_target opt) (enumerate 0 ts) (create_threads opt, 0, 0)"

subsection \<open>With \<open>-t\<close>: each thread has one target\<close>

text \<open>The targets and relative ids of the threads in order.\<close>

definition thread_plan :: "job_options \<Rightarrow> target list \<Rightarrow> (nat \<times> nat) list" where
  "thread_plan opt ts = concat (map (\<lambda>(j, t). map (Pair j) [0..<unat (no_threads opt t)]) (enumerate 0 ts))"

definition planned :: "nat \<Rightarrow> nat \<times> nat \<Rightarrow> thread_setup" where
  "planned i = (\<lambda>(j, r). give_target j r (new_thread i))"

lemma assign_one_t:
  assumes "\<not> use_total_threads opt" and "unat idx < length ths"
  shows "assign_one opt j ov r (ths, idx, tot) =
    Inr (ths[unat idx := give_target j r (ths ! unat idx)], idx + 1, tot + ov)"
  using assms by (simp add: assign_one_def Let_def)

lemma assign_targets_plan:
  "assign_targets opt ts = foldE (\<lambda>(j, r). assign_one opt j (overlap (ts ! j)) r) (thread_plan opt ts)
     (create_threads opt, 0, 0)"
proof -
  have "foldE (assign_target opt) (enumerate 0 ts) =
      foldE (\<lambda>x. foldE (\<lambda>(j, r). assign_one opt j (overlap (ts ! j)) r)
        (map (Pair (fst x)) [0..<unat (no_threads opt (snd x))])) (enumerate 0 ts)"
    by (rule foldE_cong) (auto simp: assign_target_def foldE_map in_set_enumerate_eq)
  then show ?thesis
    by (simp add: assign_targets_def thread_plan_def foldE_nested case_prod_unfold)
qed

lemma thread_plan_bounds: "(j, r) \<in> set (thread_plan opt ts) \<Longrightarrow> j < length ts \<and> r < unat (no_threads opt (ts ! j))"
  by (auto simp: thread_plan_def in_set_enumerate_eq)

lemma length_thread_plan: "length (thread_plan opt ts) = (\<Sum>t \<leftarrow> ts. unat (no_threads opt t))"
proof -
  have "length (concat (map (\<lambda>(j, t). map (Pair j) [0..<unat (no_threads opt t)]) (enumerate n ts))) =
      (\<Sum>t \<leftarrow> ts. unat (no_threads opt t))" for n
    by (induction ts arbitrary: n) simp_all
  then show ?thesis by (simp add: thread_plan_def)
qed

lemma assign_per_target:
  assumes n: "\<not> use_total_threads opt" and l: "length ps \<le> unat (total_threads opt)"
  shows "\<exists>ov. foldE (\<lambda>(j, r). assign_one opt j (overlap (ts ! j)) r) ps (create_threads opt, 0, 0) =
    Inr (map (\<lambda>(i, p). planned i p) (enumerate 0 ps) @ map new_thread [length ps..<unat (total_threads opt)],
      of_nat (length ps), ov)"
  using l
proof (induction ps rule: rev_induct)
  case Nil
  then show ?case by (simp add: create_threads_def)
next
  case (snoc p ps)
  let ?m = "length ps" and ?n = "unat (total_threads opt)"
  from snoc obtain ov where ih: "foldE (\<lambda>(j, r). assign_one opt j (overlap (ts ! j)) r) ps (create_threads opt, 0, 0) =
    Inr (map (\<lambda>(i, p). planned i p) (enumerate 0 ps) @ map new_thread [?m..<?n], of_nat ?m, ov)" by auto
  obtain j r where p: "p = (j, r)" by force
  have lt: "?m < ?n" using snoc.prems by simp
  then have u: "unat (of_nat ?m :: u32) = ?m"
    using unat_less32 [of "total_threads opt"] by (intro unat_of_nat_u32) simp
  have upt: "[?m..<?n] = ?m # [Suc ?m..<?n]" using lt by (rule upt_conv_Cons)
  show ?case
    using lt by (simp add: foldE_append ih p assign_one_t [OF n] u upt planned_def nth_append list_update_append
        enumerate_append_eq add.commute)
qed

text \<open>So thread \<open>i\<close> gets the \<open>i\<close>-th place of the plan, with the plan's relative id.\<close>

lemma assign_targets_t:
  assumes "\<not> use_total_threads opt" and "unat (total_threads opt) = (\<Sum>t \<leftarrow> ts. unat (threads_per_target t))"
  shows "\<exists>ov. assign_targets opt ts = Inr (map (\<lambda>(i, p). planned i p) (enumerate 0 (thread_plan opt ts)), total_threads opt, ov)"
proof -
  have l: "length (thread_plan opt ts) = unat (total_threads opt)"
    using assms by (simp add: length_thread_plan no_threads_def)
  with assign_per_target [OF assms(1), of "thread_plan opt ts" ts] show ?thesis
    by (simp add: assign_targets_plan)
qed

subsection \<open>With \<open>-F\<close>: each thread has all targets\<close>

definition given_all :: "nat \<Rightarrow> nat \<Rightarrow> thread_setup" where
  "given_all k i = (new_thread i)\<lparr>ts_targets := map TargetData [0..<k],
     ts_params := (ts_params (new_thread i))\<lparr>rel_thread_id := (if k = 0 then 0 else of_nat i)\<rparr>\<rparr>"

lemma give_target_all: "give_target k i (given_all k i) = given_all (Suc k) i"
  by (simp add: give_target_def given_all_def)

lemma assign_inner_F:
  assumes u: "use_total_threads opt" and r: "r \<le> n"
  shows "foldE (assign_one opt k ov) [0..<r] (map (given_all k) [0..<n], idx, tot) =
    Inr (map (\<lambda>i. given_all (if i < r then Suc k else k) i) [0..<n], idx, tot + of_nat r * ov)"
  using r
proof (induction r)
  case 0
  then show ?case by simp
next
  case (Suc r)
  have up: "(map (\<lambda>i. given_all (if i < r then Suc k else k) i) [0..<n])[r := given_all (Suc k) r] =
      map (\<lambda>i. given_all (if i < Suc r then Suc k else k) i) [0..<n]"
    using Suc.prems by (intro nth_equalityI) (auto simp: nth_list_update less_Suc_eq)
  have ids: "thread_id (ts_params (given_all (Suc k) r)) = of_nat r" "rel_thread_id (ts_params (given_all (Suc k) r)) = of_nat r"
    by (simp_all add: given_all_def new_thread_def)
  from Suc show ?case
    by (simp add: foldE_append assign_one_def u Let_def give_target_all ids up distrib_right)
qed

lemma assign_targets_F:
  assumes "use_total_threads opt"
  shows "\<exists>ov. assign_targets opt ts = Inr (map (given_all (length ts)) [0..<unat (total_threads opt)], 0, ov)"
proof (induction ts rule: rev_induct)
  case Nil
  have "given_all 0 i = new_thread i" for i by (simp add: given_all_def new_thread_def)
  then show ?case by (simp add: assign_targets_def create_threads_def)
next
  case (snoc t ts)
  let ?n = "unat (total_threads opt)"
  from snoc obtain ov where "assign_targets opt ts = Inr (map (given_all (length ts)) [0..<?n], 0, ov)" ..
  moreover have "map (\<lambda>i. given_all (if i < ?n then Suc (length ts) else length ts) i) [0..<?n] =
      map (given_all (Suc (length ts))) [0..<?n]" by simp
  ultimately show ?case
    using assign_inner_F [OF assms order_refl, where k = "length ts" and ov = "overlap t" and idx = 0 and tot = ov] assms
    by (simp add: assign_targets_def enumerate_append_eq foldE_append assign_target_def no_threads_def)
qed

subsection \<open>What the assignment guarantees\<close>

text \<open>Every thread has targets of the job only, and its relative id is one of the target's threads.\<close>

definition assigned_ok :: "job_options \<Rightarrow> target list \<Rightarrow> thread_setup \<Rightarrow> bool" where
  "assigned_ok opt ts th \<longleftrightarrow> (\<forall>td \<in> set (ts_targets th). td_target td < length ts \<and> td_results td = TargetResults \<and>
    unat (rel_thread_id (ts_params th)) < unat (no_threads opt (ts ! td_target td)))"

text \<open>The threads add up: under \<open>-t\<close> the job has as many as the targets ask for together.\<close>

definition threads_add_up :: "job_options \<Rightarrow> target list \<Rightarrow> bool" where
  "threads_add_up opt ts \<longleftrightarrow> use_total_threads opt \<or>
    unat (total_threads opt) = (\<Sum>t \<leftarrow> ts. unat (threads_per_target t))"

lemma assign_targets_ok:
  assumes s: "threads_add_up opt ts"
  shows "\<exists>ths idx ov. assign_targets opt ts = Inr (ths, idx, ov) \<and> length ths = unat (total_threads opt) \<and>
    (\<forall>i < length ths. thread_id (ts_params (ths ! i)) = of_nat i \<and> initialized (ts_params (ths ! i)) = False \<and>
       assigned_ok opt ts (ths ! i))"
proof (cases "use_total_threads opt")
  case True
  have "assigned_ok opt ts (given_all (length ts) i)" if "i < unat (total_threads opt)" for i
  proof -
    have "unat (of_nat i :: u32) = i" using that unat_less32 [of "total_threads opt"] by (intro unat_of_nat_u32) simp
    with that True show ?thesis by (auto simp: assigned_ok_def given_all_def no_threads_def TargetData_def)
  qed
  moreover obtain ov where "assign_targets opt ts = Inr (map (given_all (length ts)) [0..<unat (total_threads opt)], 0, ov)"
    using assign_targets_F [OF True, of ts] ..
  ultimately show ?thesis by (auto simp: given_all_def new_thread_def)
next
  case False
  with s have n: "unat (total_threads opt) = (\<Sum>t \<leftarrow> ts. unat (threads_per_target t))" by (simp add: threads_add_up_def)
  from assign_targets_t [OF False n] obtain ov where
    a: "assign_targets opt ts = Inr (map (\<lambda>(i, p). planned i p) (enumerate 0 (thread_plan opt ts)), total_threads opt, ov)" ..
  have l: "length (thread_plan opt ts) = unat (total_threads opt)"
    using n False by (simp add: length_thread_plan no_threads_def)
  have "assigned_ok opt ts (planned i (thread_plan opt ts ! i)) \<and>
      thread_id (ts_params (planned i (thread_plan opt ts ! i))) = of_nat i \<and>
      \<not> initialized (ts_params (planned i (thread_plan opt ts ! i)))" if "i < unat (total_threads opt)" for i
  proof -
    obtain j r where p: "thread_plan opt ts ! i = (j, r)" by force
    then have b: "j < length ts" "r < unat (no_threads opt (ts ! j))"
      using thread_plan_bounds [of j r opt ts] nth_mem [of i "thread_plan opt ts"] that l by simp_all
    then have "unat (of_nat r :: u32) = r"
      using unat_less32 [of "no_threads opt (ts ! j)"] by (intro unat_of_nat_u32) simp
    with b p show ?thesis
      by (simp add: assigned_ok_def planned_def give_target_def new_thread_def TargetData_def)
  qed
  with a l show ?thesis by (simp add: nth_enumerate_eq)
qed

section \<open>The checks make every thread's area fit\<close>

lemma check_target_ok:
  assumes c: "check_target opt t = Inr True" and n: "0 < unat (no_threads opt t)"
    and fits: "unat (base_offset t) + unat (block_size t) \<le> unat (max_size t)" "unat (max_size t) < 2 ^ 63"
    and pos: "unat (thread_offset t) < 2 ^ 63" "unat (stride t) < 2 ^ 63"
    and rel: "unat rel < unat (no_threads opt t)"
  shows "target_ok rel t"
proof -
  let ?n = "no_threads opt t" and ?T = "unat (thread_offset t)"
  have un: "uint (?n - 1) = int (unat ?n) - 1"
  proof -
    have "1 \<le> ?n" using n by (simp add: word_le_nat_alt)
    then have "uint (?n - 1) = uint ?n - 1" using uint_sub [of 1 ?n] by (simp add: word_le_def)
    then show ?thesis by (simp only: of_nat_unat)
  qed
  have sT: "sint (thread_offset t) = int ?T" by (rule sint_small [OF pos(1)])
  have "max_size t - base_offset t - block_size t = word_of_nat (unat (max_size t) - unat (base_offset t) - unat (block_size t))"
    using fits(1) by (simp add: of_nat_diff)
  then have sm: "sint (max_size t - base_offset t - block_size t) =
      int (unat (max_size t) - unat (base_offset t) - unat (block_size t))"
    using fits(2) by (simp only: sint_of_nat less_imp_diff_less)
  from c have "\<not> sint (max_size t - base_offset t - block_size t) < sint (thread_offset t) * uint (?n - 1)"
    by (auto simp: check_target_def Let_def split: if_splits)
  then have "int ?T * (int (unat ?n) - 1) \<le> int (unat (max_size t) - unat (base_offset t) - unat (block_size t))"
    by (simp only: sm sT un not_less)
  moreover have "int (unat rel) * int ?T \<le> int ?T * (int (unat ?n) - 1)"
    using rel by (subst mult.commute) (intro mult_left_mono, simp_all)
  ultimately have "int (unat rel * ?T) \<le> int (unat (max_size t) - unat (base_offset t) - unat (block_size t))"
    unfolding of_nat_mult by (rule order_trans [rotated])
  then have "unat rel * ?T \<le> unat (max_size t) - unat (base_offset t) - unat (block_size t)"
    by (simp only: of_nat_le_iff)
  with fits pos show ?thesis by (simp add: target_ok_def)
qed

lemma layout_targets_checked:
  assumes "layout_targets fs opt ts w = Inr (True, w')" and "t \<in> set ts"
  shows "check_target opt t = Inr True"
  using assms
proof (induction ts arbitrary: w)
  case (Cons x xs)
  from Cons.prems(1) obtain w1 where l: "layout_target fs opt x w = Inr (True, w1)"
    and r: "layout_targets fs opt xs w1 = Inr (True, w')" by (auto simp: bindE_Inr_iff split: if_splits)
  from l have "check_target opt x = Inr True"
    by (auto simp: layout_target_def bindE_Inr_iff split: if_splits)
  with Cons.IH [OF r] Cons.prems(2) show ?case by auto
qed simp

section \<open>Starting the threads\<close>

text \<open>
  Creating the threads and giving them cpus in turn; \<open>cpuit\<close> is what is left of the affinity set.
  The first component of the result is false after an early return.
\<close>

primrec start_threads ::
  "(nat \<Rightarrow> int) \<Rightarrow> (nat \<Rightarrow> u32 \<Rightarrow> int) \<Rightarrow> bool \<Rightarrow> u32 list \<Rightarrow> nat list \<Rightarrow> u32 list \<Rightarrow> (nat \<times> u32 option) list
    \<Rightarrow> fault + bool \<times> (nat \<times> u32 option) list" where
  "start_threads create_err affinity_err no_affinity cpus [] cpuit started = Inr (True, started)"
| "start_threads create_err affinity_err no_affinity cpus (i # is) cpuit started =
    (if create_err i \<noteq> 0 then Inr (False, started)
     else if no_affinity then
       start_threads create_err affinity_err no_affinity cpus is cpuit (started @ [(i, None)])
     else
       (case cpuit of
          [] \<Rightarrow> Inl Undefined
        | c # rest \<Rightarrow>
            if affinity_err i c \<noteq> 0 then Inr (False, started @ [(i, Some c)])
            else start_threads create_err affinity_err no_affinity cpus is (if rest = [] then cpus else rest)
                   (started @ [(i, Some c)])))"

text \<open>
  The wait for the threads to start. A wake-up brings the status of the condition variable, the
  error flag and the counter of started threads that the next loop test reads.
\<close>

record wake =
  wk_timeout :: bool
  wk_error :: bool
  wk_counter :: u32

datatype init_result = Initialized | Init_Error | Init_Timeout | Still_Waiting

primrec init_wait :: "u32 \<Rightarrow> u32 \<Rightarrow> int \<Rightarrow> wake list \<Rightarrow> init_result" where
  "init_wait threads counter timeout_counter [] = (if counter < threads then Still_Waiting else Initialized)"
| "init_wait threads counter timeout_counter (w # ws) =
    (if \<not> counter < threads then Initialized
     else if wk_error w then Init_Error
     else
       let timeout_counter' = (if wk_timeout w then timeout_counter - 1 else timeout_counter)
       in if timeout_counter' \<le> 0 then Init_Timeout
          else init_wait threads (wk_counter w) timeout_counter' ws)"

section \<open>The phases of the run\<close>

text \<open>What the job does to the flags its threads read, in order.\<close>

datatype job_event = Record_On | Record_Off | Stop_Threads | Join_Thread nat

text \<open>
  What the job reads while it runs: the outcome of its waits, whether they ended by the timeout and
  the error flag after them, the files of the kernel at the start and at the end, and the clock.
\<close>

record job_inputs =
  io_starts :: "u32 \<Rightarrow> bool"
  create_errors :: "nat \<Rightarrow> int"
  affinity_errors :: "nat \<Rightarrow> u32 \<Rightarrow> int"
  first_counter :: u32
  wakes :: "wake list"
  init_failed :: bool
  warmup_timeout :: bool
  warmup_failed :: bool
  stat_start :: sysfs
  start_ns :: "fault + u64"
  main_timeout :: bool
  main_failed :: bool
  stat_end :: sysfs

text \<open>The usage of one cpu: all but idle and iowait, user, kernel, iowait and idle time.\<close>

definition cpu_usage :: "double list \<Rightarrow> double list \<Rightarrow> fault + double list" where
  "cpu_usage init fin =
    (if length init < 5 \<or> length fin < 5 then Inl Undefined
     else
       let total_time = (fin ! 0 + fin ! 1 + fin ! 2 + fin ! 3 + fin ! 4) - (init ! 0 + init ! 1 + init ! 2 + init ! 3 + init ! 4);
           nonidle = (fin ! 0 + fin ! 1 + fin ! 2) - (init ! 0 + init ! 1 + init ! 2);
           user = (fin ! 0 + fin ! 1) - (init ! 0 + init ! 1);
           kernel = fin ! 2 - init ! 2; iowait = fin ! 4 - init ! 4; idle = fin ! 3 - init ! 3
       in bindE (fdiv nonidle total_time) (\<lambda>p0. bindE (fdiv user total_time) (\<lambda>p1. bindE (fdiv kernel total_time) (\<lambda>p2.
          bindE (fdiv iowait total_time) (\<lambda>p3. bindE (fdiv idle total_time) (\<lambda>p4. Inr [p0, p1, p2, p3, p4]))))))"

text \<open>
  The map from cpus to their usage, in the order of the cpus; a cpu that is missing at the end gets
  an empty vector there.
\<close>

definition cpu_usages ::
  "(u32 \<Rightarrow> double list option) \<Rightarrow> (u32 \<Rightarrow> double list option) \<Rightarrow> u32 list \<Rightarrow> fault + (u32 \<times> double list) list" where
  "cpu_usages init fin cpus = foldE (\<lambda>c usage.
     bindE (cpu_usage (case init c of None \<Rightarrow> [] | Some v \<Rightarrow> v) (case fin c of None \<Rightarrow> [] | Some v \<Rightarrow> v)) (\<lambda>p. Inr (usage @ [(c, p)]))) cpus []"

record job_results =
  jr_settings :: job_options
  jr_targets :: "target list"
  jr_threads :: "thread_setup list"
  jr_started :: "(nat \<times> u32 option) list"
  jr_events :: "job_event list"
  cpu_usage_percentages :: "(u32 \<times> double list) list"

text \<open>Warmup, duration and cleanup; false is an early return.\<close>

definition run_phases :: "sys_info \<Rightarrow> job_inputs \<Rightarrow> job_results \<Rightarrow> fault + bool \<times> job_results" where
  "run_phases si inp r =
    (let opt = jr_settings r
     in if warmup_time opt \<noteq> 0 \<and> (\<not> warmup_timeout inp \<or> warmup_failed inp) then Inr (False, r)
        else
          bindE (get_cpu_stats (stat_start inp) si) (\<lambda>init.
          bindE (start_ns inp) (\<lambda>ns.
            let opt1 = opt\<lparr>start_time_ns := ns, start_time_us := ns div 1000, start_time_ms := ns div 1000 div 1000\<rparr>;
                r1 = r\<lparr>jr_settings := opt1, jr_events := jr_events r @ [Record_On, Record_Off]\<rparr>
            in if \<not> main_timeout inp \<or> main_failed inp then Inr (False, r1)
               else
                 bindE (get_cpu_stats (stat_end inp) si) (\<lambda>fin.
                   let r2 = r1\<lparr>jr_events := jr_events r1 @ Stop_Threads # map (\<lambda>(i, c). Join_Thread i) (jr_started r1)\<rparr>
                   in bindE (cpu_usages init fin (sorted_list_of_set (online_cpus si)))
                        (\<lambda>u. Inr (True, r2\<lparr>cpu_usage_percentages := u\<rparr>))))))"

text \<open>The wait for the threads, and the phases when all have started.\<close>

definition run_started :: "sys_info \<Rightarrow> job_inputs \<Rightarrow> job_results \<Rightarrow> fault + bool \<times> job_results" where
  "run_started si inp r =
    (case init_wait (total_threads (jr_settings r)) (first_counter inp) 10000 (wakes inp) of
       Still_Waiting \<Rightarrow> Inl Diverges
     | Init_Timeout \<Rightarrow> Inr (False, r)
     | Init_Error \<Rightarrow> Inr (False, r)
     | Initialized \<Rightarrow> if init_failed inp then Inr (False, r) else run_phases si inp r)"

text \<open>\<open>run_job\<close>; the state of the file system goes through the layout.\<close>

definition run_job ::
  "'w file_ops \<Rightarrow> sysfs \<Rightarrow> (string \<Rightarrow> stat_result) \<Rightarrow> sys_info \<Rightarrow> job_inputs \<Rightarrow> job_setup \<Rightarrow> 'w
    \<Rightarrow> fault + (bool \<times> job_results option) \<times> 'w" where
  "run_job ops fs stat si inp js w =
    (let opt = settings js
     in bindE (layout_targets ops opt (setup_targets_of js) w) (\<lambda>(laid_out, w1).
        if \<not> laid_out then Inr ((False, None), w1)
        else
          bindE (name_devices fs stat si (setup_targets_of js)) (\<lambda>ts.
          bindE (assign_targets opt ts) (\<lambda>(ths, index, total_overlap).
            let r = \<lparr>jr_settings = opt, jr_targets = ts, jr_threads = ths, jr_started = [], jr_events = [],
                     cpu_usage_percentages = []\<rparr>;
                cpus = sorted_list_of_set (affinity_cpus si)
            in if \<not> io_starts inp total_overlap then Inr ((False, Some r), w1)
               else
                 bindE (start_threads (create_errors inp) (affinity_errors inp) (disable_affinity opt) cpus
                         [0..<length ths] cpus []) (\<lambda>(ok, started).
                   let r1 = r\<lparr>jr_started := started\<rparr>
                   in if \<not> ok then Inr ((False, Some r1), w1)
                      else bindE (run_started si inp r1) (\<lambda>(ok, r2). Inr ((ok, Some r2), w1)))))))"

section \<open>What the parts of a job do\<close>

text \<open>The affinity loop hands out the cpus in turn.\<close>

lemma start_threads_turn:
  assumes "\<forall>i. create_err i = 0" and "\<forall>i c. affinity_err i c = 0" and "d < length cpus"
  shows "start_threads create_err affinity_err False cpus is (drop d cpus) acc =
    Inr (True, acc @ map (\<lambda>(k, i). (i, Some (cpus ! ((d + k) mod length cpus)))) (enumerate 0 is))"
  using assms(3)
proof (induction "is" arbitrary: d acc)
  case Nil
  then show ?case by simp
next
  case (Cons i "is")
  let ?n = "length cpus"
  have c: "drop d cpus = cpus ! d # drop (Suc d) cpus" using Cons.prems by (rule Cons_nth_drop_Suc [symmetric])
  have sh: "map (\<lambda>(k, i). (i, Some (cpus ! ((d + k) mod ?n)))) (enumerate (Suc 0) is) =
      map (\<lambda>(k, i). (i, Some (cpus ! ((Suc d + k) mod ?n)))) (enumerate 0 is)"
    by (simp add: enumerate_Suc_eq case_prod_unfold)
  show ?case
  proof (cases "Suc d < ?n")
    case True
    then show ?thesis
      using assms(1,2) Cons.IH [OF True, of "acc @ [(i, Some (cpus ! d))]"] Cons.prems by (simp add: c sh)
  next
    case False
    with Cons.prems have e: "Suc d = ?n" by simp
    have "map (\<lambda>(k, i). (i, Some (cpus ! ((Suc d + k) mod ?n)))) (enumerate 0 is) =
        map (\<lambda>(k, i). (i, Some (cpus ! (k mod ?n)))) (enumerate 0 is)"
      by (simp only: e mod_add_self1)
    moreover have "0 < ?n" by (simp only: e [symmetric] zero_less_Suc)
    note Cons.IH [OF this, of "acc @ [(i, Some (cpus ! d))]"]
    ultimately show ?thesis
      using assms(1,2) Cons.prems e by (simp add: c sh)
  qed
qed

lemma init_wait_bounded:
  assumes "nat k \<le> length (filter wk_timeout ws)" and "0 < k"
  shows "init_wait threads counter k ws \<noteq> Still_Waiting"
  using assms
proof (induction ws arbitrary: counter k)
  case (Cons w ws)
  show ?case
  proof (cases "wk_timeout w \<and> k \<noteq> 1")
    case True
    then have "nat (k - 1) \<le> length (filter wk_timeout ws)" "0 < k - 1" using Cons.prems by simp_all
    from Cons.IH [OF this] True Cons.prems show ?thesis by (simp add: Let_def)
  next
    case False
    with Cons show ?thesis by (auto simp: Let_def)
  qed
qed simp

lemma init_wait_started:
  assumes "init_wait threads counter k ws = Initialized"
  shows "\<exists>c \<in> insert counter (set (map wk_counter ws)). threads \<le> c"
  using assms by (induction ws arbitrary: counter k) (auto simp: Let_def not_less split: if_splits)

lemma layout_target_created:
  assumes "layout_target fs opt t w = Inr (True, w')" and "create_file t"
  shows "\<exists>old w0 w1 fd w2 off w3 w4. open_old fs (path t) w = (old, w0) \<and> remove_file fs (path t) w0 = (True, w1) \<and>
    create_new fs (path t) w1 = (fd, w2) \<and> fd \<noteq> - 1 \<and> seek_file fs fd (base_offset t) w2 = (off, w3) \<and>
    write_loop fs fd (if zero_buffers t then zero_buf else fill_buf) (max_size t - base_offset t) w3 = (True, w4) \<and>
    w' = close_file fs fd w4"
  using assms by (auto simp: layout_target_def bindE_Inr_iff Let_def simp del: if_split split: if_splits prod.splits)

lemma cpu_usage_value:
  assumes "cpu_usage init fin = Inr ps"
  shows "\<exists>T. T = (fin ! 0 + fin ! 1 + fin ! 2 + fin ! 3 + fin ! 4) - (init ! 0 + init ! 1 + init ! 2 + init ! 3 + init ! 4) \<and>
    T \<noteq> 0 \<and> ps = [((fin ! 0 + fin ! 1 + fin ! 2) - (init ! 0 + init ! 1 + init ! 2)) / T,
      ((fin ! 0 + fin ! 1) - (init ! 0 + init ! 1)) / T, (fin ! 2 - init ! 2) / T, (fin ! 4 - init ! 4) / T,
      (fin ! 3 - init ! 3) / T]"
  using assms by (auto simp: cpu_usage_def Let_def fdiv_def split: if_splits)

lemma run_phases_events:
  assumes "run_phases si inp r = Inr (ok, r')"
  shows "jr_started r' = jr_started r \<and> jr_threads r' = jr_threads r \<and> jr_targets r' = jr_targets r \<and>
    (if ok then jr_events r' = jr_events r @ [Record_On, Record_Off, Stop_Threads] @ map (\<lambda>(i, c). Join_Thread i) (jr_started r)
     else jr_events r' = jr_events r \<or> jr_events r' = jr_events r @ [Record_On, Record_Off])"
  using assms by (auto simp: run_phases_def Let_def bindE_Inr_iff split: if_splits)

lemma run_job_cases:
  assumes r: "run_job ops fs stat si inp js w = Inr ((ok, res), w')"
  obtains (layout) "res = None" "\<not> ok"
  | (start) r where "res = Some r" "\<not> ok" "jr_events r = []"
  | (phases) started r r2 where
      "start_threads (create_errors inp) (affinity_errors inp) (disable_affinity (settings js))
         (sorted_list_of_set (affinity_cpus si)) [0..<length (jr_threads r)]
         (sorted_list_of_set (affinity_cpus si)) [] = Inr (True, started)"
      "jr_started r = started" "jr_events r = []" "run_phases si inp r = Inr (ok, r2)" "res = Some r2"
proof -
  let ?opt = "settings js" and ?cpus = "sorted_list_of_set (affinity_cpus si)"
  from r obtain laid_out w1 where l: "layout_targets ops ?opt (setup_targets_of js) w = Inr (laid_out, w1)"
    by (auto simp: run_job_def Let_def bindE_Inr_iff)
  show ?thesis
  proof (cases laid_out)
    case False
    with r l show ?thesis by (intro layout) (auto simp: run_job_def Let_def)
  next
    case True
    with r l obtain ts ths idx ov where n: "name_devices fs stat si (setup_targets_of js) = Inr ts"
      and a: "assign_targets ?opt ts = Inr (ths, idx, ov)" by (auto simp: run_job_def Let_def bindE_Inr_iff)
    let ?r = "\<lparr>jr_settings = ?opt, jr_targets = ts, jr_threads = ths, jr_started = [], jr_events = [],
                     cpu_usage_percentages = []\<rparr>"
    show ?thesis
    proof (cases "io_starts inp ov")
      case False
      with r l n a True show ?thesis by (intro start [of ?r]) (auto simp: run_job_def Let_def)
    next
      case io: True
      with r l n a True obtain ok' started where st: "start_threads (create_errors inp) (affinity_errors inp)
          (disable_affinity ?opt) ?cpus [0..<length ths] ?cpus [] = Inr (ok', started)"
        by (auto simp: run_job_def Let_def bindE_Inr_iff)
      let ?r1 = "?r\<lparr>jr_started := started\<rparr>"
      show ?thesis
      proof (cases ok')
        case False
        with r l n a True io st start [of ?r1] show ?thesis by (simp add: run_job_def Let_def)
      next
        case ok: True
        with r l n a True io st obtain r2 where "run_started si inp ?r1 = Inr (ok, r2)" "res = Some r2"
          by (auto simp: run_job_def Let_def bindE_Inr_iff)
        then consider "\<not> ok" "r2 = ?r1" | "run_phases si inp ?r1 = Inr (ok, r2)"
          unfolding run_started_def by (auto split: if_splits init_result.splits)
        then show ?thesis
        proof cases
          case 1
          with \<open>res = Some r2\<close> show ?thesis by (intro start [of ?r1]) simp_all
        next
          case 2
          with \<open>res = Some r2\<close> st ok show ?thesis by (intro phases [of ?r1 started r2]) simp_all
        qed
      qed
    qed
  qed
qed

lemma start_threads_ids:
  assumes "start_threads ce ae na cpus is it acc = Inr (True, started)"
  shows "map fst started = map fst acc @ is"
  using assms by (induction "is" arbitrary: it acc) (auto split: if_splits list.splits)

section \<open>Properties\<close>

text \<open>The area of a target lies inside its size, in non-negative signed numbers.\<close>

definition area_ok :: "target \<Rightarrow> bool" where
  "area_ok t \<longleftrightarrow> unat (base_offset t) + unat (block_size t) \<le> unat (max_size t) \<and> unat (max_size t) < 2 ^ 63 \<and>
    unat (thread_offset t) < 2 ^ 63 \<and> unat (stride t) < 2 ^ 63"

lemma thread_areas:
  assumes l: "\<forall>t \<in> set ts. check_target opt t = Inr True" and a: "\<forall>t \<in> set ts. area_ok t" and n: "threads_add_up opt ts"
  shows "\<exists>ths idx ov. assign_targets opt ts = Inr (ths, idx, ov) \<and> length ths = unat (total_threads opt) \<and>
    (\<forall>i < length ths. thread_id (ts_params (ths ! i)) = of_nat i \<and> (\<forall>td \<in> set (ts_targets (ths ! i)).
       td_target td < length ts \<and> td_results td = TargetResults \<and>
       target_ok (rel_thread_id (ts_params (ths ! i))) (ts ! td_target td)))"
proof -
  from assign_targets_ok [OF n] obtain ths idx ov where s: "assign_targets opt ts = Inr (ths, idx, ov)"
    "length ths = unat (total_threads opt)"
    and t: "\<forall>i < length ths. thread_id (ts_params (ths ! i)) = of_nat i \<and> assigned_ok opt ts (ths ! i)" by blast
  have "target_ok (rel_thread_id (ts_params (ths ! i))) (ts ! td_target td)"
    if "i < length ths" "td \<in> set (ts_targets (ths ! i))" for i td
  proof -
    let ?t = "ts ! td_target td" and ?r = "rel_thread_id (ts_params (ths ! i))"
    have j: "td_target td < length ts" "unat ?r < unat (no_threads opt ?t)"
      using t that by (auto simp: assigned_ok_def)
    then have c: "check_target opt ?t = Inr True" and ar: "area_ok ?t"
      using l a by (simp_all add: nth_mem)
    show ?thesis by (rule check_target_ok [OF c]) (use ar j in \<open>auto simp: area_ok_def\<close>)
  qed
  with s t show ?thesis by (auto simp: assigned_ok_def)
qed

text \<open>
  A job that passes the checks of its targets gives every thread targets it can use: thread \<open>i\<close>
  has the id \<open>i\<close>, its targets are targets of the job, and the area of its first block under \<open>-T\<close>,
  counted with its relative id, lies inside each of them.
\<close>

theorem thread_areas_fit:
  assumes "layout_targets ops opt ts w = Inr (True, w')" and "\<forall>t \<in> set ts. area_ok t" and "threads_add_up opt ts"
  shows "\<exists>ths idx ov. assign_targets opt ts = Inr (ths, idx, ov) \<and>
    (\<forall>i < length ths. thread_id (ts_params (ths ! i)) = of_nat i \<and> (\<forall>td \<in> set (ts_targets (ths ! i)).
       td_target td < length ts \<and> target_ok (rel_thread_id (ts_params (ths ! i))) (ts ! td_target td)))"
  using thread_areas [OF _ assms(2,3)] layout_targets_checked [OF assms(1)] by blast

definition plain_target :: target where
  "plain_target = (Target ''f'')\<lparr>tsize := 1048576, max_size := 1048576, thread_offset := 65536, threads_per_target := 3\<rparr>"

text \<open>A file system that remembers the sizes of the writes.\<close>

definition memo_ops :: "size_t list file_ops" where
  "memo_ops = \<lparr>open_old = (\<lambda>p w. (- 1, w)), remove_file = (\<lambda>p w. (True, w)), create_new = (\<lambda>p w. (3, w)), seek_file = (\<lambda>fd off w. (off, w)),
     write_file = (\<lambda>fd buf n w. (uint n, w @ [n])), close_file = (\<lambda>fd w. w)\<rparr>"

lemma thread_areas_fit_witness:
  "\<exists>ths idx ov. assign_targets (JobOptions\<lparr>total_threads := 6\<rparr>) [plain_target, plain_target] = Inr (ths, idx, ov) \<and>
    (\<forall>i < length ths. thread_id (ts_params (ths ! i)) = of_nat i \<and> (\<forall>td \<in> set (ts_targets (ths ! i)).
       td_target td < 2 \<and> target_ok (rel_thread_id (ts_params (ths ! i))) ([plain_target, plain_target] ! td_target td)))"
proof -
  let ?o = "JobOptions\<lparr>total_threads := 6\<rparr>"
  have "layout_targets memo_ops ?o [plain_target, plain_target] [] = Inr (True, [])"
    by (simp add: layout_target_def check_target_def unaligned_direct_def no_threads_def plain_target_def Target_def
        JobOptions_def O_RDWR_def O_DIRECT_def sint64)
  moreover have "\<forall>t \<in> set [plain_target, plain_target]. area_ok t"
    by (simp add: area_ok_def plain_target_def Target_def)
  moreover have "threads_add_up ?o [plain_target, plain_target]"
    by (simp add: threads_add_up_def plain_target_def Target_def JobOptions_def)
  ultimately show ?thesis using thread_areas_fit [of memo_ops ?o "[plain_target, plain_target]" "[]" "[]"]
    by (simp add: numeral_2_eq_2)
qed

text \<open>
  C9. How threads and targets are put together: with \<open>-F\<close> each thread has all targets in order and
  its own id as relative id; with \<open>-t\<close> each thread has one target, the threads of a target follow
  each other and their relative ids count from 0.
\<close>

theorem threads_of_targets:
  assumes "threads_add_up opt ts"
  shows "\<exists>idx ov. assign_targets opt ts = Inr (
    if use_total_threads opt then map (given_all (length ts)) [0..<unat (total_threads opt)]
    else map (\<lambda>(i, j, r). give_target j r (new_thread i))
      (enumerate 0 (concat (map (\<lambda>(j, t). map (Pair j) [0..<unat (threads_per_target t)]) (enumerate 0 ts)))), idx, ov)"
proof (cases "use_total_threads opt")
  case True
  with assign_targets_F [OF True, of ts] show ?thesis by auto
next
  case False
  with assms have "unat (total_threads opt) = (\<Sum>t \<leftarrow> ts. unat (threads_per_target t))" by (simp add: threads_add_up_def)
  from assign_targets_t [OF False this] False show ?thesis
    by (auto simp: planned_def thread_plan_def no_threads_def case_prod_unfold)
qed

lemma threads_of_targets_witness:
  "\<exists>ths idx ov. assign_targets (JobOptions\<lparr>total_threads := 6\<rparr>) [plain_target, plain_target] = Inr (ths, idx, ov) \<and>
    map (\<lambda>th. (thread_id (ts_params th), rel_thread_id (ts_params th), map td_target (ts_targets th))) ths =
      [(0, 0, [0]), (1, 1, [0]), (2, 2, [0]), (3, 0, [1]), (4, 1, [1]), (5, 2, [1])]"
proof -
  have n: "threads_add_up (JobOptions\<lparr>total_threads := 6\<rparr>) [plain_target, plain_target]"
    by (simp add: threads_add_up_def plain_target_def Target_def JobOptions_def)
  have u: "[0..<3] = [0, Suc 0, 2]" by (simp add: upt_rec)
  from threads_of_targets [OF n] show ?thesis
    by (auto simp: JobOptions_def plain_target_def Target_def u give_target_def new_thread_def TargetData_def)
qed

text \<open>
  Affinity: as long as threads can be created and affinitized, the threads get the cpus of the
  affinity set in turn, starting again with the first after the last.
\<close>

theorem affinity_in_turn:
  assumes "cpus \<noteq> []" and "\<forall>i. create_err i = 0" and "\<forall>i c. affinity_err i c = 0"
  shows "start_threads create_err affinity_err False cpus [0..<n] cpus [] =
    Inr (True, map (\<lambda>i. (i, Some (cpus ! (i mod length cpus)))) [0..<n])"
proof -
  have "enumerate 0 [0..<n] = map (\<lambda>i. (i, i)) [0..<n]"
    by (rule nth_equalityI) (simp_all add: nth_enumerate_eq)
  with start_threads_turn [OF assms(2,3), of 0 cpus "[0..<n]" "[]"] assms(1) show ?thesis by simp
qed

lemma affinity_in_turn_witness:
  "start_threads (\<lambda>_. 0) (\<lambda>_ _. 0) False [0, 2, 3] [0..<5] [0, 2, 3] [] =
    Inr (True, [(0, Some 0), (1, Some 2), (2, Some 3), (3, Some 0), (4, Some 2)])"
proof -
  have "[0..<5] = [0, 1, 2, 3, 4 :: nat]" by code_simp
  with affinity_in_turn [of "[0, 2, 3]" "\<lambda>_. 0" "\<lambda>_ _. 0" 5] show ?thesis by simp
qed

text \<open>
  C20. The wait for the threads ends: however the wake-ups, the counter and the error flag go, 10000
  wake-ups by timeout are enough to leave the loop, and the job only goes on when the number of
  started threads it has read is at least the number of its threads.
\<close>

theorem init_wait_ends:
  assumes "10000 \<le> length (filter wk_timeout ws)"
  shows "init_wait threads counter 10000 ws \<noteq> Still_Waiting \<and>
    (init_wait threads counter 10000 ws = Initialized \<longrightarrow> (\<exists>c \<in> insert counter (set (map wk_counter ws)). threads \<le> c))"
  using init_wait_bounded [of 10000 ws threads counter] init_wait_started [of threads counter 10000 ws] assms by simp

lemma init_wait_ends_witness:
  "init_wait 1 0 10000 (replicate 10000 \<lparr>wk_timeout = True, wk_error = False, wk_counter = 0\<rparr>) = Init_Timeout"
proof -
  let ?w = "\<lparr>wk_timeout = True, wk_error = False, wk_counter = 0\<rparr>"
  have "init_wait 1 0 10000 (replicate 10000 ?w) \<noteq> Still_Waiting \<and>
      init_wait 1 0 10000 (replicate 10000 ?w) \<noteq> Initialized"
    using init_wait_ends [of "replicate 10000 ?w" 1 0] by simp
  moreover have "init_wait 1 0 k (replicate n ?w) \<noteq> Init_Error" for k n
    by (induction n arbitrary: k) (simp_all add: Let_def)
  ultimately show ?thesis by (cases "init_wait 1 0 10000 (replicate 10000 ?w)") simp_all
qed

text \<open>
  C21. The layout of a new file, on files that behave as POSIX documents: its name leads to a new file
  that holds, from the position that \<open>lseek\<close> left, exactly one byte for each offset between the base
  offset and the maximum size (ascending bytes, or zeros with \<open>-Zz\<close>), and nothing else but zeros before
  them. The position is the base offset when \<open>lseek\<close> succeeds, so that the file ends at the maximum size;
  when it fails the layout goes on at 0 and the file is too short. The file is closed, but a
  descriptor that was opened on the old file stays open.
\<close>

theorem layout_fills_area:
  assumes "files_behave ops v"
    and "layout_target ops opt t w = Inr (True, w')" and "create_file t"
    and "unat (base_offset t) < unat (max_size t)" and "unat (max_size t) < 2 ^ 63"
  shows "\<exists>old w0 w1 fd w2 off w3 i start. open_old ops (path t) w = (old, w0) \<and> remove_file ops (path t) w0 = (True, w1) \<and>
    create_new ops (path t) w1 = (fd, w2) \<and> seek_file ops fd (base_offset t) w2 = (off, w3) \<and>
    start = (if off = base_offset t then unat (base_offset t) else 0) \<and>
    names v w' (path t) = Some i \<and>
    data v w' i = replicate start 0 @
      map (\<lambda>j. if zero_buffers t then 0 else of_nat j) [0..<unat (max_size t) - unat (base_offset t)] \<and>
    (if old = - 1 then opens v w' = opens v w
     else \<exists>j. names v w (path t) = Some j \<and> opens v w' = (opens v w)(old \<mapsto> (j, 0)))"
proof -
  let ?buf = "if zero_buffers t then zero_buf else fill_buf" and ?n = "max_size t - base_offset t"
  from layout_target_created [OF assms(2,3)] obtain old w0 w1 fd w2 off w3 w4 where
    o: "open_old ops (path t) w = (old, w0)" and r: "remove_file ops (path t) w0 = (True, w1)"
    and c: "create_new ops (path t) w1 = (fd, w2)" "fd \<noteq> - 1" and s: "seek_file ops fd (base_offset t) w2 = (off, w3)"
    and l: "write_loop ops fd ?buf ?n w3 = (True, w4)" and w': "w' = close_file ops fd w4"
    by blast
  from files_behaveD [OF assms(1)] have laws: "opens_old ops v" "removes ops v" "creates ops v" "seeks ops v" "writes ops v" "closes ops v" .
  obtain i where i: "names v w2 (path t) = Some i" "data v w2 i = []" "opens v w1 fd = None" "opens v w2 = (opens v w1)(fd \<mapsto> (i, 0))"
    using createsD [OF laws(3) c] by auto
  define start where "start = (if off = base_offset t then unat (base_offset t) else 0)"
  have b: "base_offset t \<noteq> - 1" "unat ?n = unat (max_size t) - unat (base_offset t)" "0 < unat ?n"
    using assms(4,5) by (auto simp: unat_sub word_le_nat_alt unsigned_minus_1_eq_mask mask_eq_exp_minus_1)
  have "opens v w2 fd = Some (i, 0)" by (simp add: i)
  from seeksD [OF laws(4) s this] b(1) have s3: "names v w3 = names v w2" "data v w3 = data v w2"
      "opens v w3 = (opens v w1)(fd \<mapsto> (i, start))"
    by (auto simp: start_def i)
  then have o3: "opens v w3 fd = Some (i, start)" "length (data v w3 i) \<le> start" by (simp_all add: i)
  note st = write_loop_stores [OF l laws(5) o3]
  have bytes: "laid_out ?buf n = map (\<lambda>j. if zero_buffers t then 0 else of_nat j) [0..<n]" for n
    by (simp add: laid_out_def fill_buf_byte zero_buf_def)
  have "names v w' (path t) = Some i" "opens v w' = opens v w1"
    using st closesD [OF laws(6), of fd w4] i(1,3) by (auto simp: w' s3 fun_eq_iff)
  moreover have "data v w' i = replicate start 0 @ laid_out ?buf (unat ?n)"
    using st closesD [OF laws(6), of fd w4] b(3) by (simp add: w' s3 i(2) overwrite_def laid_out_def)
  moreover have "if old = - 1 then opens v w1 = opens v w
      else \<exists>j. names v w (path t) = Some j \<and> opens v w1 = (opens v w)(old \<mapsto> (j, 0))"
    using opens_oldD [OF laws(1) o] removesD [OF laws(2) r] by auto
  ultimately show ?thesis using o r c(1) s start_def by (auto simp: bytes b(2) cong: if_cong)
qed

text \<open>A small file that replaces an older one of two bytes, which stays open under the descriptor 3.\<close>

definition new_file :: target where
  "new_file = (Target ''f'')\<lparr>create_file := True, base_offset := 2, block_size := 3, max_size := 5\<rparr>"

lemma layout_fills_area_witness:
  "\<exists>w'. layout_target disk_ops JobOptions new_file one_file = Inr (True, w') \<and>
    (\<exists>i. d_names w' ''f'' = Some i \<and> d_data w' i = [0, 0, 0, 1, 2]) \<and> opens disk_view w' = [3 \<mapsto> (0, 0)]"
proof -
  have a: "create_file new_file" "unat (base_offset new_file) < unat (max_size new_file)" "unat (max_size new_file) < 2 ^ 63"
    by (simp_all add: new_file_def Target_def)
  obtain w' where l: "layout_target disk_ops JobOptions new_file one_file = Inr (True, w')"
    by (simp add: layout_target_def check_target_def unaligned_direct_def no_threads_def new_file_def Target_def
        JobOptions_def O_RDWR_def O_DIRECT_def sint64 disk_ops_def disk_open_def one_file_def write_loop.simps fill_buf_size_def)
  have u: "[0..<3] = [0, Suc 0, 2]" by (simp add: upt_rec)
  have two: "replicate 2 (0 :: u8) = [0, 0]" by (simp add: numeral_2_eq_2)
  have v: "opens disk_view one_file = (\<lambda>fd. None)" "names disk_view = d_names" "data disk_view = d_data"
    by (simp_all add: disk_view_def one_file_def fun_eq_iff)
  from layout_fills_area [OF disk_behaves l a] have "\<exists>i. d_names w' ''f'' = Some i \<and> d_data w' i = [0, 0, 0, 1, 2]"
      "opens disk_view w' = [3 \<mapsto> (0, 0)]"
    unfolding v by (auto simp: new_file_def Target_def disk_ops_def disk_open_def one_file_def u two)
  with l show ?thesis by blast
qed

text \<open>
  The cpu usage adds up: when the times of a cpu do not decrease, its usage, iowait and idle
  shares sum to one, the usage is the sum of user and kernel time, and all shares lie between 0 and 1.
\<close>

theorem cpu_usage_adds_up:
  assumes "cpu_usage init fin = Inr ps" and "\<forall>i < 5. init ! i \<le> fin ! i"
  shows "length ps = 5 \<and> ps ! 0 + ps ! 3 + ps ! 4 = 1 \<and> ps ! 0 = ps ! 1 + ps ! 2 \<and> (\<forall>p \<in> set ps. 0 \<le> p \<and> p \<le> 1)"
proof -
  define a where "a i = fin ! i - init ! i" for i
  have a: "0 \<le> a 0" "0 \<le> a 1" "0 \<le> a 2" "0 \<le> a 3" "0 \<le> a 4"
    using assms(2) by (simp_all add: a_def)
  from cpu_usage_value [OF assms(1)] obtain T where "T = (fin ! 0 + fin ! 1 + fin ! 2 + fin ! 3 + fin ! 4) -
      (init ! 0 + init ! 1 + init ! 2 + init ! 3 + init ! 4)" and T0: "T \<noteq> 0"
    and "ps = [((fin ! 0 + fin ! 1 + fin ! 2) - (init ! 0 + init ! 1 + init ! 2)) / T,
      ((fin ! 0 + fin ! 1) - (init ! 0 + init ! 1)) / T, (fin ! 2 - init ! 2) / T, (fin ! 4 - init ! 4) / T,
      (fin ! 3 - init ! 3) / T]" by blast
  then have T: "T = a 0 + a 1 + a 2 + a 3 + a 4"
    and ps: "ps = [(a 0 + a 1 + a 2) / T, (a 0 + a 1) / T, a 2 / T, a 4 / T, a 3 / T]"
    by (simp_all add: a_def)
  have pos: "0 < T" using T T0 a by linarith
  have "(a 0 + a 1 + a 2) / T + a 4 / T + a 3 / T = T / T"
    by (simp only: add_divide_distrib [symmetric]) (simp add: T)
  moreover have "(a 0 + a 1 + a 2) / T = (a 0 + a 1) / T + a 2 / T" by (simp only: add_divide_distrib)
  moreover have b: "0 \<le> x / T \<and> x / T \<le> 1" if "0 \<le> x" "x \<le> T" for x
    using that pos by (simp add: divide_le_eq_1_pos)
  have "0 \<le> (a 0 + a 1 + a 2) / T \<and> (a 0 + a 1 + a 2) / T \<le> 1" "0 \<le> (a 0 + a 1) / T \<and> (a 0 + a 1) / T \<le> 1"
    "0 \<le> a 2 / T \<and> a 2 / T \<le> 1" "0 \<le> a 4 / T \<and> a 4 / T \<le> 1" "0 \<le> a 3 / T \<and> a 3 / T \<le> 1"
    by (rule b; use a T in linarith)+
  moreover have "T / T = 1" using pos by simp
  ultimately show ?thesis by (simp add: ps)
qed

lemma cpu_usage_adds_up_witness:
  "cpu_usage [10, 0, 20, 60, 10] [20, 10, 30, 120, 20] = Inr [30 / 100, 20 / 100, 10 / 100, 10 / 100, 60 / 100] \<and>
    (30 / 100 :: real) + 10 / 100 + 60 / 100 = 1"
proof -
  have c: "cpu_usage [10, 0, 20, 60, 10] [20, 10, 30, 120, 20] = Inr [30 / 100, 20 / 100, 10 / 100, 10 / 100, 60 / 100]"
    by (simp add: cpu_usage_def Let_def fdiv_def)
  have "\<forall>i < 5. [10, 0, 20, 60, 10 :: real] ! i \<le> [20, 10, 30, 120, 20] ! i"
    by (auto simp: less_Suc_eq numeral_eq_Suc)
  from cpu_usage_adds_up [OF c this] c show ?thesis by simp
qed

text \<open>
  C19. What a job does to its threads: a job that succeeds has started all its threads, recorded during
  the main phase only, then stopped and joined every thread. A job that fails after creating threads
  has neither stopped nor joined any of them, so that they go on using the job that \<open>main\<close> destroys.
\<close>

theorem job_threads_stopped:
  assumes "run_job ops fs stat si inp js w = Inr ((ok, res), w')"
  shows "(ok \<longrightarrow> (\<exists>r. res = Some r \<and> map fst (jr_started r) = [0..<length (jr_threads r)] \<and>
      jr_events r = [Record_On, Record_Off, Stop_Threads] @ map Join_Thread [0..<length (jr_threads r)])) \<and>
    (\<not> ok \<longrightarrow> (\<forall>r. res = Some r \<longrightarrow> Stop_Threads \<notin> set (jr_events r) \<and> (\<forall>i. Join_Thread i \<notin> set (jr_events r))))"
proof -
  have join: "map (\<lambda>(i, c). Join_Thread i) st = map Join_Thread (map fst st)" for st :: "(nat \<times> u32 option) list"
    by (simp add: case_prod_unfold)
  from assms show ?thesis
  proof (cases rule: run_job_cases)
    case (phases started r r2)
    with run_phases_events [OF phases(4)] start_threads_ids [OF phases(1)] show ?thesis
      by (auto simp: join split: if_splits)
  qed simp_all
qed

definition sample_info :: sys_info where
  "sample_info = SysInfo\<lparr>id_to_device := [2049 \<mapsto> ''sda1'']\<rparr>"

definition sample_stat :: "string \<Rightarrow> stat_result" where
  "sample_stat p = Stat_Ok \<lparr>st_dev = 5, st_rdev = 2049, st_size = 0\<rparr>"

definition sample_inputs :: job_inputs where
  "sample_inputs = \<lparr>io_starts = (\<lambda>_. True), create_errors = (\<lambda>i. if i = 2 then 11 else 0), affinity_errors = (\<lambda>_ _. 0),
     first_counter = 0, wakes = [], init_failed = False, warmup_timeout = True, warmup_failed = False,
     stat_start = example_fs, start_ns = Inr 0, main_timeout = True, main_failed = False, stat_end = example_fs\<rparr>"

lemma sample_device:
  "device_from_id example_fs 2049 sample_info = Inr ''sda''" "scheduler_from_device example_fs ''sda'' = Inr ''cfq''"
  by code_simp+

lemma job_threads_stopped_witness:
  "\<exists>r. run_job memo_ops example_fs sample_stat sample_info sample_inputs
      \<lparr>settings = JobOptions\<lparr>total_threads := 3\<rparr>, job_engine = Kernel_Engine, setup_targets_of = [plain_target]\<rparr> [] =
        Inr ((False, Some r), []) \<and>
    map fst (jr_started r) = [0, 1] \<and> Stop_Threads \<notin> set (jr_events r)"
proof -
  let ?o = "JobOptions\<lparr>total_threads := 3\<rparr>"
  let ?js = "\<lparr>settings = ?o, job_engine = Kernel_Engine, setup_targets_of = [plain_target]\<rparr>"
  let ?t = "plain_target\<lparr>device := ''sda'', scheduler := ''cfq''\<rparr>"
  have l: "layout_targets memo_ops ?o [plain_target] [] = Inr (True, [])"
    by (simp add: layout_target_def check_target_def unaligned_direct_def no_threads_def plain_target_def Target_def
        JobOptions_def O_RDWR_def O_DIRECT_def sint64)
  have n: "name_devices example_fs sample_stat sample_info [plain_target] = Inr [?t]"
    by (simp add: name_device_def sample_stat_def stat_data_def Let_def sample_device)
  have "threads_add_up ?o [?t]" by (simp add: threads_add_up_def plain_target_def Target_def JobOptions_def)
  from assign_targets_ok [OF this] obtain ths idx ov where a: "assign_targets ?o [?t] = Inr (ths, idx, ov)" "length ths = 3"
    by (auto simp: JobOptions_def)
  have u: "[0..<3] = [0, Suc 0, 2]" by (simp add: upt_rec)
  have c: "sorted_list_of_set (affinity_cpus sample_info) = [0]" by (simp add: sample_info_def SysInfo_def)
  have st: "start_threads (create_errors sample_inputs) (affinity_errors sample_inputs) (disable_affinity JobOptions) [0] [0..<3] [0] []
      = Inr (False, [(0, Some 0), (1, Some 0)])" by (simp add: sample_inputs_def JobOptions_def u)
  have i: "io_starts sample_inputs ov" by (simp add: sample_inputs_def)
  obtain r where r: "run_job memo_ops example_fs sample_stat sample_info sample_inputs ?js [] = Inr ((False, Some r), [])"
    and s: "map fst (jr_started r) = [0, 1]"
    by (simp add: run_job_def l n a c i st Let_def del: layout_targets.simps name_devices.simps)
  from job_threads_stopped [OF r] have "Stop_Threads \<notin> set (jr_events r)" by simp
  with r s show ?thesis by (intro exI [of _ r] conjI)
qed

end
