(* ===== verification/Profile.thy ===== *)
theory Profile
  imports Job Options
begin

text \<open>
  From the command line to a job (\<open>src/src/profile.h\<close>, \<open>src/src/profile.cc\<close>): \<open>parse_options\<close> in
  the order of the source, option by option, the application of the options to each target, and
  \<open>run_jobs\<close>. \<open>argp\<close>, \<open>stat\<close> and the kernel's files are parameters.
\<close>

section \<open>Data\<close>

text \<open>The state of \<open>parse_options\<close>: the dummy target, the job's options, the engine and \<open>verbose\<close>.\<close>

record parsing =
  dummy :: target
  p_job :: job_options
  p_engine :: io_engine
  p_verbose :: bool

record profile =
  cmd_line :: string
  jobs :: "job_setup list"
  pr_sys_info :: sys_info
  verbose :: bool

definition upd_dummy :: "(target \<Rightarrow> target) \<Rightarrow> parsing \<Rightarrow> parsing" where
  "upd_dummy f p = p\<lparr>dummy := f (dummy p)\<rparr>"

definition upd_job :: "(job_options \<Rightarrow> job_options) \<Rightarrow> parsing \<Rightarrow> parsing" where
  "upd_job f p = p\<lparr>p_job := f (p_job p)\<rparr>"

text \<open>The largest values of \<open>size_t\<close> and \<open>uint64_t\<close>, \<open>off_t\<close> and \<open>unsigned int\<close>.\<close>

definition max_u64 :: u64 where "max_u64 = - 1"
definition max_off :: u64 where "max_off = 2 ^ 63 - 1"
definition max_uint :: u64 where "max_uint = 2 ^ 32 - 1"

text \<open>
  \<open>arg_to_number\<close> into a variable, which is only assigned when there is an argument. An early
  \<open>return false\<close> is the value \<open>None\<close>.
\<close>

definition number ::
  "u64 \<Rightarrow> OptionType \<Rightarrow> size_t \<Rightarrow> options \<Rightarrow> (u64 \<Rightarrow> parsing \<Rightarrow> parsing) \<Rightarrow> parsing \<Rightarrow> fault + bool \<times> parsing" where
  "number tmax ty bs opt store p =
    bindE (arg_to_number tmax ty bs opt)
      (\<lambda>(given, v). Inr (given, case v of None \<Rightarrow> p | Some x \<Rightarrow> store x p))"

definition andThen :: "fault + 'a option \<Rightarrow> ('a \<Rightarrow> fault + 'b option) \<Rightarrow> fault + 'b option" where
  "andThen m f = bindE m (\<lambda>r. case r of None \<Rightarrow> Inr None | Some a \<Rightarrow> f a)"

section \<open>The options in the order of the source\<close>

text \<open>\<open>-b\<close>, \<open>-B\<close> and \<open>-c\<close>.\<close>

definition size_options :: "options \<Rightarrow> parsing \<Rightarrow> fault + parsing option" where
  "size_options opt p =
    bindE (number max_u64 BLOCK_SIZE 1 opt (\<lambda>x. upd_dummy (block_size_update (\<lambda>_. x))) p) (\<lambda>(_, p1).
    bindE (number max_off BASE_OFFSET (block_size (dummy p1)) opt (\<lambda>x. upd_dummy (base_offset_update (\<lambda>_. x))) p1) (\<lambda>(_, p2).
    bindE (number max_off CREATE_FILES (block_size (dummy p2)) opt (\<lambda>x. upd_dummy (tsize_update (\<lambda>_. x))) p2) (\<lambda>(given, p3).
      Inr (Some (if given then upd_dummy (create_file_update (\<lambda>_. True)) p3 else p3)))))"

text \<open>\<open>-d\<close> and \<open>-D\<close>.\<close>

definition time_options :: "options \<Rightarrow> parsing \<Rightarrow> fault + parsing option" where
  "time_options opt p =
    bindE (number max_uint DURATION 0 opt (\<lambda>x. upd_job (duration_update (\<lambda>_. ucast x))) p) (\<lambda>(_, p1).
    bindE (number max_uint DIOPS 0 opt (\<lambda>x. upd_job (io_bucket_duration_ms_update (\<lambda>_. ucast x))) p1) (\<lambda>(given, p2).
      Inr (Some (if given then upd_job (measure_iops_std_dev_update (\<lambda>_. True)) p2 else p2))))"

text \<open>\<open>-f\<close> and \<open>-F\<close>, which conflicts with \<open>-t\<close>.\<close>

definition limit_options :: "options \<Rightarrow> parsing \<Rightarrow> fault + parsing option" where
  "limit_options opt p =
    bindE (number max_off MAX_SIZE (block_size (dummy p)) opt (\<lambda>x. upd_dummy (max_size_update (\<lambda>_. x))) p) (\<lambda>(_, p1).
    bindE (number max_uint TOTAL_THREADS 0 opt (\<lambda>x. upd_job (total_threads_update (\<lambda>_. ucast x))) p1) (\<lambda>(given, p2).
      if \<not> given then Inr (Some p2)
      else if get_arg THREADS_PER_TARGET opt \<noteq> None then Inr None
      else Inr (Some (upd_dummy (threads_per_target_update (\<lambda>_. 0)) (upd_job (use_total_threads_update (\<lambda>_. True)) p2)))))"

text \<open>\<open>-g\<close>, \<open>-L\<close>, \<open>-n\<close> and \<open>-o\<close>.\<close>

definition load_options :: "options \<Rightarrow> parsing \<Rightarrow> fault + parsing option" where
  "load_options opt p =
    bindE (number max_off MAX_THROUGHPUT (block_size (dummy p)) opt (\<lambda>x. upd_dummy (max_throughput_update (\<lambda>_. x))) p) (\<lambda>(_, p1).
      let p2 = (if get_arg LATENCY opt \<noteq> None then upd_job (measure_latency_update (\<lambda>_. True)) p1 else p1);
          p3 = (if get_arg NO_AFFINITY opt \<noteq> None then upd_job (disable_affinity_update (\<lambda>_. True)) p2 else p2)
      in bindE (number max_uint OVERLAP 0 opt (\<lambda>x. upd_dummy (overlap_update (\<lambda>_. ucast x))) p3) (\<lambda>(_, p4).
           Inr (Some p4)))"

text \<open>\<open>-r\<close> and \<open>-s\<close>; \<open>-s\<close> is only looked at without \<open>-r\<close>.\<close>

definition stride_options :: "options \<Rightarrow> parsing \<Rightarrow> fault + parsing option" where
  "stride_options opt p =
    bindE (number max_off RANDOM_ALIGN (block_size (dummy p)) opt (\<lambda>x. upd_dummy (stride_update (\<lambda>_. x))) p) (\<lambda>(given, p1).
      let bs = block_size (dummy p1);
          default = upd_dummy (stride_update (\<lambda>_. bs)) p1
      in if given then
           Inr (Some (upd_dummy (use_random_alignment_update (\<lambda>_. True)) (if stride (dummy p1) = 0 then default else p1)))
         else
           (case get_arg SEQUENTIAL_STRIDE opt of
              None \<Rightarrow> Inr (Some default)
            | Some arg \<Rightarrow>
                let interlocked = char_at arg 0 = CHR ''i'';
                    p2 = (if interlocked then upd_dummy (use_interlocked_update (\<lambda>_. True)) p1 else p1);
                    rest = (if interlocked then tl arg else arg)
                in if rest = [] then Inr (Some (upd_dummy (stride_update (\<lambda>_. bs)) p2))
                   else if \<not> valid_byte_size rest then Inr None
                   else bindE (byte_size_from_arg rest bs) (\<lambda>x. Inr (Some (upd_dummy (stride_update (\<lambda>_. x)) p2)))))"

text \<open>\<open>-S\<close>: the loop over the characters of the argument, which \<open>h\<close> ends.\<close>

primrec caching_loop :: "string \<Rightarrow> u32 \<Rightarrow> u32 option" where
  "caching_loop [] flags = Some flags"
| "caching_loop (c # cs) flags =
    (if c = CHR ''h'' then Some (flags OR (O_DIRECT OR O_SYNC))
     else if c = CHR ''s'' then caching_loop cs (flags OR O_SYNC)
     else if c = CHR ''d'' then caching_loop cs (flags OR O_DIRECT)
     else None)"

definition caching_options_step :: "options \<Rightarrow> parsing \<Rightarrow> fault + parsing option" where
  "caching_options_step opt p =
    (case get_arg CACHING_OPTIONS opt of
       None \<Rightarrow> Inr (Some p)
     | Some arg \<Rightarrow>
         (case caching_loop arg (open_flags (dummy p)) of
            None \<Rightarrow> Inr None
          | Some fl \<Rightarrow> Inr (Some (upd_dummy (open_flags_update (\<lambda>_. fl)) p))))"

text \<open>\<open>-t\<close> and \<open>-T\<close>, which conflicts with \<open>-si\<close>.\<close>

definition thread_options :: "options \<Rightarrow> parsing \<Rightarrow> fault + parsing option" where
  "thread_options opt p =
    bindE (number max_uint THREADS_PER_TARGET 0 opt (\<lambda>x. upd_dummy (threads_per_target_update (\<lambda>_. ucast x))) p) (\<lambda>(_, p1).
    bindE (number max_off THREAD_STRIDE (block_size (dummy p1)) opt (\<lambda>x. upd_dummy (thread_offset_update (\<lambda>_. x))) p1) (\<lambda>(given, p2).
      if given \<and> use_interlocked (dummy p2) then Inr None else Inr (Some p2)))"

text \<open>\<open>-v\<close>, \<open>-w\<close> and \<open>-W\<close>.\<close>

definition write_options :: "options \<Rightarrow> parsing \<Rightarrow> fault + parsing option" where
  "write_options opt p =
    (let p1 = (if get_arg VERBOSE opt \<noteq> None then p\<lparr>p_verbose := True\<rparr> else p)
     in bindE (number max_uint WRITE 0 opt (\<lambda>x. upd_dummy (write_percentage_update (\<lambda>_. ucast x))) p1) (\<lambda>(given, p2).
        if given \<and> write_percentage (dummy p2) > 100 then Inr None
        else bindE (number max_uint WARMUP_TIME 0 opt (\<lambda>x. upd_job (warmup_time_update (\<lambda>_. ucast x))) p2)
               (\<lambda>(_, p3). Inr (Some p3))))"

text \<open>\<open>-x\<close>: an empty argument is read past its end.\<close>

definition engine_option :: "options \<Rightarrow> parsing \<Rightarrow> fault + parsing option" where
  "engine_option opt p =
    (case get_arg IO_ENGINE opt of
       None \<Rightarrow> Inr (Some (p\<lparr>p_engine := Kernel_Engine\<rparr>))
     | Some [] \<Rightarrow> Inl Undefined
     | Some arg \<Rightarrow>
         if char_at arg 1 \<noteq> NUL then Inr None
         else if char_at arg 0 = CHR ''k'' then Inr (Some (p\<lparr>p_engine := Kernel_Engine\<rparr>))
         else if char_at arg 0 = CHR ''p'' then Inr (Some (p\<lparr>p_engine := Posix_Engine\<rparr>))
         else Inr None)"

text \<open>\<open>-z\<close>.\<close>

definition seed_option :: "options \<Rightarrow> parsing \<Rightarrow> fault + parsing option" where
  "seed_option opt p =
    (case get_arg RAND_SEED opt of
       None \<Rightarrow> Inr (Some p)
     | Some arg \<Rightarrow>
         if arg = [] then Inr (Some (upd_job (use_time_seed_update (\<lambda>_. True)) p))
         else bindE (number max_u64 RAND_SEED 0 opt (\<lambda>x. upd_job (rand_seed_update (\<lambda>_. x))) p) (\<lambda>(_, p1). Inr (Some p1)))"

text \<open>\<open>-Z\<close>: the loop over the characters of the argument.\<close>

primrec buffers_loop :: "string \<Rightarrow> target \<Rightarrow> target option" where
  "buffers_loop [] t = Some t"
| "buffers_loop (c # cs) t =
    (if c = CHR ''s'' then buffers_loop cs (t\<lparr>separate_buffers := True\<rparr>)
     else if c = CHR ''z'' then buffers_loop cs (t\<lparr>zero_buffers := True\<rparr>)
     else if c = CHR ''r'' then buffers_loop cs (t\<lparr>rand_buffers := True\<rparr>)
     else None)"

definition buffer_option :: "options \<Rightarrow> parsing \<Rightarrow> fault + parsing option" where
  "buffer_option opt p =
    (case get_arg IO_BUFFERS opt of
       None \<Rightarrow> Inr (Some p)
     | Some arg \<Rightarrow>
         (case buffers_loop arg (dummy p) of
            None \<Rightarrow> Inr None
          | Some t \<Rightarrow> if rand_buffers t \<and> zero_buffers t then Inr None else Inr (Some (p\<lparr>dummy := t\<rparr>))))"

section \<open>The targets\<close>

text \<open>The options of the dummy, copied to a target.\<close>

definition apply_dummy :: "target \<Rightarrow> target \<Rightarrow> target" where
  "apply_dummy d t = t\<lparr>create_file := create_file d, block_size := block_size d, base_offset := base_offset d,
     overlap := overlap d, thread_offset := thread_offset d, stride := stride d,
     use_random_alignment := use_random_alignment d, open_flags := open_flags d,
     use_interlocked := use_interlocked d,
     interlocked_offset := (if use_interlocked d then base_offset d else interlocked_offset t),
     max_throughput := max_throughput d, threads_per_target := threads_per_target d,
     write_percentage := write_percentage d, zero_buffers := zero_buffers d, rand_buffers := rand_buffers d,
     separate_buffers := separate_buffers d\<rparr>"

text \<open>The size of a target, from \<open>stat\<close>, from the kernel or from \<open>-c\<close>.\<close>

definition find_size ::
  "sysfs \<Rightarrow> (string \<Rightarrow> stat_result) \<Rightarrow> sys_info \<Rightarrow> target \<Rightarrow> target \<Rightarrow> fault + target option" where
  "find_size fs stat si d t =
    (let r = stat (path t); buf = stat_data r
     in if r = Stat_Failed then Inr None
        else if \<not> create_file t then
          (if r = Stat_ENOENT then Inr None
           else if st_rdev buf \<noteq> 0 then bindE (partition_size fs (st_rdev buf) si) (\<lambda>n. Inr (Some (t\<lparr>tsize := n\<rparr>)))
           else Inr (Some (t\<lparr>tsize := st_size buf\<rparr>)))
        else if st_rdev buf \<noteq> 0 then Inr None
        else
          Inr (Some ((if r \<noteq> Stat_ENOENT \<and> tsize d \<le>s st_size buf then t\<lparr>create_file := False\<rparr> else t)\<lparr>tsize := tsize d\<rparr>)))"

text \<open>The maximum size, and the checks; the difference of two offsets compares as \<open>size_t\<close>.\<close>

definition limit_size :: "target \<Rightarrow> target \<Rightarrow> target option" where
  "limit_size d t =
    (let t1 = t\<lparr>max_size := (if max_size d = 0 then tsize t else max_size d)\<rparr>
     in if tsize t1 <s max_size t1 then None
        else if max_size t1 - base_offset t1 < block_size t1 \<or> max_size t1 \<le>s base_offset t1 then None
        else Some t1)"

definition setup_one ::
  "sysfs \<Rightarrow> (string \<Rightarrow> stat_result) \<Rightarrow> sys_info \<Rightarrow> target \<Rightarrow> target \<Rightarrow> fault + target option" where
  "setup_one fs stat si d t =
    andThen (find_size fs stat si d (apply_dummy d t)) (\<lambda>t1. Inr (limit_size d t1))"

text \<open>The loop over the targets, with the sum of their threads unless \<open>-F\<close> is given.\<close>

primrec setup_loop ::
  "sysfs \<Rightarrow> (string \<Rightarrow> stat_result) \<Rightarrow> sys_info \<Rightarrow> target \<Rightarrow> target list \<Rightarrow> job_options
    \<Rightarrow> fault + (target list \<times> job_options) option" where
  "setup_loop fs stat si d [] opt = Inr (Some ([], opt))"
| "setup_loop fs stat si d (t # ts) opt =
    (let opt1 = (if use_total_threads opt then opt
                 else opt\<lparr>total_threads := total_threads opt + threads_per_target d\<rparr>)
     in andThen (setup_one fs stat si d t) (\<lambda>t'.
        andThen (setup_loop fs stat si d ts opt1) (\<lambda>(ts', opt2). Inr (Some (t' # ts', opt2)))))"

section \<open>parse_options and run_jobs\<close>

definition option_steps :: "options \<Rightarrow> parsing \<Rightarrow> fault + parsing option" where
  "option_steps opt p =
    andThen (size_options opt p) (\<lambda>p1. andThen (time_options opt p1) (\<lambda>p2. andThen (limit_options opt p2) (\<lambda>p3.
    andThen (load_options opt p3) (\<lambda>p4. andThen (stride_options opt p4) (\<lambda>p5. andThen (caching_options_step opt p5) (\<lambda>p6.
    andThen (thread_options opt p6) (\<lambda>p7. andThen (write_options opt p7) (\<lambda>p8. andThen (engine_option opt p8) (\<lambda>p9.
    andThen (seed_option opt p9) (buffer_option opt))))))))))"

definition start_parsing :: parsing where
  "start_parsing = \<lparr>dummy = Target '''', p_job = JobOptions, p_engine = Kernel_Engine, p_verbose = False\<rparr>"

definition parse_options ::
  "argp \<Rightarrow> sysfs \<Rightarrow> (string \<Rightarrow> stat_result) \<Rightarrow> string list \<Rightarrow> fault + profile option" where
  "parse_options argp_parse fs stat argv =
    (if argv = [] then Inl Assert_Failed
     else
       let line = concat (map (\<lambda>a. a @ '' '') (butlast argv)) @ last argv
       in bindE (parse_args argp_parse argv Options) (\<lambda>(result, opt).
            if \<not> result then Inr None
            else if get_non_opts opt = [] then Inr None
            else bindE (init_sys_info fs (get_arg CPU_AFFINITY opt) SysInfo) (\<lambda>si.
              andThen (option_steps opt start_parsing) (\<lambda>p.
              andThen (setup_loop fs stat si (dummy p) (map Target (get_non_opts opt)) (p_job p)) (\<lambda>(ts, jo).
                Inr (Some \<lparr>cmd_line = line, jobs = [\<lparr>settings = jo, job_engine = p_engine p, setup_targets_of = ts\<rparr>],
                  pr_sys_info = si, verbose = p_verbose p\<rparr>))))))"

text \<open>\<open>run_jobs\<close> over the outcomes of its jobs, up to the first that fails.\<close>

primrec run_jobs ::
  "('j \<Rightarrow> 'w \<Rightarrow> fault + (bool \<times> 'r) \<times> 'w) \<Rightarrow> 'j list \<Rightarrow> 'w \<Rightarrow> fault + (bool \<times> 'r list) \<times> 'w" where
  "run_jobs run [] w = Inr ((True, []), w)"
| "run_jobs run (j # js) w =
    bindE (run j w) (\<lambda>((ok, r), w1).
      if \<not> ok then Inr ((False, [r]), w1)
      else bindE (run_jobs run js w1) (\<lambda>((ok', rs), w2). Inr ((ok', r # rs), w2)))"

section \<open>What the steps keep\<close>

lemma andThen_Some_iff: "andThen m f = Inr (Some b) \<longleftrightarrow> (\<exists>a. m = Inr (Some a) \<and> f a = Inr (Some b))"
  by (auto simp: andThen_def bindE_Inr_iff split: option.splits)

lemma arg_to_number_bound: "arg_to_number tmax ty bs opt = Inr (g, Some x) \<Longrightarrow> x \<le> tmax"
  by (auto simp: arg_to_number_def bindE_Inr_iff split: option.splits if_splits)

lemma number_False: "number tmax ty bs opt store p = Inr (False, p') \<Longrightarrow> p' = p"
  by (auto simp: number_def arg_to_number_def bindE_Inr_iff split: option.splits if_splits)

lemma number_inv:
  assumes "number tmax ty bs opt store p = Inr (g, p')" and "P p" and "\<And>x. x \<le> tmax \<Longrightarrow> P (store x p)"
  shows "P p'"
  using assms by (auto simp: number_def bindE_Inr_iff dest: arg_to_number_bound split: option.splits)

lemma number_given: "number tmax ty bs opt store p = Inr (g, p') \<Longrightarrow> g \<longleftrightarrow> get_arg ty opt \<noteq> None"
  by (auto simp: number_def arg_to_number_def get_arg_def bindE_Inr_iff split: option.splits if_splits)

lemma byte_size_nonneg: "byte_size_from_arg arg bs = Inr x \<Longrightarrow> unat x < 2 ^ 63"
  by (auto simp: byte_size_from_arg_def Let_def bindE_Inr_iff sless0_unat split: if_splits prod.splits)

lemma max_off_bound: "x \<le> max_off \<Longrightarrow> unat x < 2 ^ 63"
  by (simp add: word_le_nat_alt max_off_def)

text \<open>The facts about the dummy target that every step keeps once they hold.\<close>

definition dummy_ok :: "target \<Rightarrow> bool" where
  "dummy_ok d \<longleftrightarrow> unat (base_offset d) < 2 ^ 63 \<and> unat (thread_offset d) < 2 ^ 63 \<and>
    (unat (stride d) < 2 ^ 63 \<or> stride d = block_size d)"

lemma dummy_upd [simp]:
  "dummy (upd_dummy f p) = f (dummy p)" "p_job (upd_dummy f p) = p_job p"
  "dummy (upd_job g p) = dummy p" "p_job (upd_job g p) = g (p_job p)"
  "dummy (p\<lparr>p_verbose := v\<rparr>) = dummy p" "dummy (p\<lparr>p_engine := e\<rparr>) = dummy p"
  by (simp_all add: upd_dummy_def upd_job_def)

text \<open>Fields that the options before \<open>-T\<close>, \<open>-w\<close> and \<open>-Z\<close> do not touch.\<close>

definition untouched :: "target \<Rightarrow> bool" where
  "untouched d \<longleftrightarrow> write_percentage d = 0 \<and> \<not> rand_buffers d \<and> \<not> zero_buffers d \<and> thread_offset d = 0"

lemma untouched_upd [simp]:
  "untouched (block_size_update f d) = untouched d" "untouched (base_offset_update h d) = untouched d"
  "untouched (tsize_update h d) = untouched d" "untouched (create_file_update b d) = untouched d"
  "untouched (max_size_update h d) = untouched d" "untouched (threads_per_target_update k d) = untouched d"
  "untouched (max_throughput_update h d) = untouched d" "untouched (overlap_update k d) = untouched d"
  "untouched (stride_update h d) = untouched d" "untouched (use_random_alignment_update b d) = untouched d"
  "untouched (use_interlocked_update b d) = untouched d" "untouched (open_flags_update k d) = untouched d"
  by (simp_all add: untouched_def)

lemma size_options_ok:
  assumes "size_options opt p = Inr (Some p')" and "dummy_ok (dummy p)" and "unat (stride (dummy p)) < 2 ^ 63"
  shows "dummy_ok (dummy p') \<and> stride (dummy p') = stride (dummy p) \<and> use_random_alignment (dummy p') = use_random_alignment (dummy p)
    \<and> use_interlocked (dummy p') = use_interlocked (dummy p) \<and> untouched (dummy p') = untouched (dummy p)"
proof -
  let ?P = "\<lambda>q. dummy_ok (dummy q) \<and> stride (dummy q) = stride (dummy p) \<and>
    use_random_alignment (dummy q) = use_random_alignment (dummy p) \<and> use_interlocked (dummy q) = use_interlocked (dummy p) \<and>
    untouched (dummy q) = untouched (dummy p)"
  from assms(1) obtain g1 p1 g2 p2 g3 p3 where
    n1: "number max_u64 BLOCK_SIZE 1 opt (\<lambda>x. upd_dummy (block_size_update (\<lambda>_. x))) p = Inr (g1, p1)"
    and n2: "number max_off BASE_OFFSET (block_size (dummy p1)) opt (\<lambda>x. upd_dummy (base_offset_update (\<lambda>_. x))) p1 = Inr (g2, p2)"
    and n3: "number max_off CREATE_FILES (block_size (dummy p2)) opt (\<lambda>x. upd_dummy (tsize_update (\<lambda>_. x))) p2 = Inr (g3, p3)"
    and p': "p' = (if g3 then upd_dummy (create_file_update (\<lambda>_. True)) p3 else p3)"
    by (auto simp: size_options_def bindE_Inr_iff)
  have P1: "?P p1"
    by (rule number_inv [where P = ?P, OF n1]) (use assms(2,3) in \<open>simp_all add: dummy_ok_def\<close>)
  have P2: "?P p2"
    by (rule number_inv [where P = ?P, OF n2]) (use P1 assms(3) in \<open>auto simp: dummy_ok_def dest: max_off_bound\<close>)
  have "?P p3"
    by (rule number_inv [where P = ?P, OF n3]) (use P2 assms(3) in \<open>auto simp: dummy_ok_def\<close>)
  with assms(3) show ?thesis by (simp add: p' dummy_ok_def)
qed

definition thread_count :: "job_options \<Rightarrow> bool \<times> u32" where
  [simp]: "thread_count opt = (use_total_threads opt, total_threads opt)"

text \<open>Steps that leave the offsets of the dummy alone.\<close>

definition same_offsets :: "parsing \<Rightarrow> parsing \<Rightarrow> bool" where
  "same_offsets p p' \<longleftrightarrow> base_offset (dummy p') = base_offset (dummy p) \<and> thread_offset (dummy p') = thread_offset (dummy p) \<and>
    stride (dummy p') = stride (dummy p) \<and> block_size (dummy p') = block_size (dummy p) \<and>
    use_random_alignment (dummy p') = use_random_alignment (dummy p) \<and> use_interlocked (dummy p') = use_interlocked (dummy p)"

lemma same_offsets_refl [simp]: "same_offsets p p"
  by (simp add: same_offsets_def)

lemma same_offsets_trans: "same_offsets p q \<Longrightarrow> same_offsets q r \<Longrightarrow> same_offsets p r"
  by (simp add: same_offsets_def)

lemma same_offsets_ok: "same_offsets p p' \<Longrightarrow> dummy_ok (dummy p) \<Longrightarrow> dummy_ok (dummy p')"
  by (simp add: same_offsets_def dummy_ok_def)

lemma number_same:
  assumes "number tmax ty bs opt store p = Inr (g, p')" and "\<And>x. same_offsets p (store x p)"
  shows "same_offsets p p'"
  by (rule number_inv [OF assms(1)]) (simp_all add: assms(2))

lemma time_options_same:
  assumes "time_options opt p = Inr (Some p')"
  shows "dummy p' = dummy p \<and> thread_count (p_job p') = thread_count (p_job p)"
proof -
  let ?P = "\<lambda>q. dummy q = dummy p \<and> thread_count (p_job q) = thread_count (p_job p)"
  from assms obtain g1 p1 g2 p2 where
    n1: "number max_uint DURATION 0 opt (\<lambda>x. upd_job (duration_update (\<lambda>_. ucast x))) p = Inr (g1, p1)"
    and n2: "number max_uint DIOPS 0 opt (\<lambda>x. upd_job (io_bucket_duration_ms_update (\<lambda>_. ucast x))) p1 = Inr (g2, p2)"
    and p': "p' = (if g2 then upd_job (measure_iops_std_dev_update (\<lambda>_. True)) p2 else p2)"
    by (auto simp: time_options_def bindE_Inr_iff)
  have P1: "?P p1" by (rule number_inv [where P = ?P, OF n1]) simp_all
  have "?P p2" by (rule number_inv [where P = ?P, OF n2]) (use P1 in simp_all)
  then show ?thesis by (simp add: p')
qed

lemma limit_options_same:
  assumes "limit_options opt p = Inr (Some p')"
  shows "same_offsets p p' \<and> untouched (dummy p') = untouched (dummy p) \<and> \<not> (get_arg TOTAL_THREADS opt \<noteq> None \<and> get_arg THREADS_PER_TARGET opt \<noteq> None) \<and>
    use_total_threads (p_job p') = (use_total_threads (p_job p) \<or> get_arg TOTAL_THREADS opt \<noteq> None) \<and>
    (get_arg TOTAL_THREADS opt = None \<longrightarrow> total_threads (p_job p') = total_threads (p_job p))"
proof -
  from assms obtain g1 p1 g2 p2 where
    n1: "number max_off MAX_SIZE (block_size (dummy p)) opt (\<lambda>x. upd_dummy (max_size_update (\<lambda>_. x))) p = Inr (g1, p1)"
    and n2: "number max_uint TOTAL_THREADS 0 opt (\<lambda>x. upd_job (total_threads_update (\<lambda>_. ucast x))) p1 = Inr (g2, p2)"
    and p': "if g2 then get_arg THREADS_PER_TARGET opt = None \<and>
        p' = upd_dummy (threads_per_target_update (\<lambda>_. 0)) (upd_job (use_total_threads_update (\<lambda>_. True)) p2) else p' = p2"
    by (auto simp: limit_options_def bindE_Inr_iff split: if_splits)
  let ?P = "\<lambda>q. same_offsets p q \<and> untouched (dummy q) = untouched (dummy p) \<and> thread_count (p_job q) = thread_count (p_job p)"
  have P1: "?P p1"
    by (rule number_inv [where P = ?P, OF n1]) (simp_all add: same_offsets_def)
  let ?Q = "\<lambda>q. same_offsets p q \<and> untouched (dummy q) = untouched (dummy p) \<and> use_total_threads (p_job q) = use_total_threads (p_job p)"
  have "?Q p2"
    by (rule number_inv [where P = ?Q, OF n2]) (use P1 in \<open>simp_all add: same_offsets_def\<close>)
  moreover have "p2 = p1" if "\<not> g2" by (rule number_False) (use n2 that in simp)
  ultimately show ?thesis using p' number_given [OF n2] P1 by (cases g2) (simp_all add: same_offsets_def)
qed

lemma load_options_same:
  assumes "load_options opt p = Inr (Some p')"
  shows "same_offsets p p' \<and> untouched (dummy p') = untouched (dummy p) \<and> thread_count (p_job p') = thread_count (p_job p)"
proof -
  let ?P = "\<lambda>q. same_offsets p q \<and> untouched (dummy q) = untouched (dummy p) \<and> thread_count (p_job q) = thread_count (p_job p)"
  from assms obtain g1 p1 where
    n1: "number max_off MAX_THROUGHPUT (block_size (dummy p)) opt (\<lambda>x. upd_dummy (max_throughput_update (\<lambda>_. x))) p = Inr (g1, p1)"
    by (auto simp: load_options_def bindE_Inr_iff)
  define p3 where "p3 = (let p2 = (if get_arg LATENCY opt \<noteq> None then upd_job (measure_latency_update (\<lambda>_. True)) p1 else p1)
    in if get_arg NO_AFFINITY opt \<noteq> None then upd_job (disable_affinity_update (\<lambda>_. True)) p2 else p2)"
  from assms n1 obtain g2 where
    n2: "number max_uint OVERLAP 0 opt (\<lambda>x. upd_dummy (overlap_update (\<lambda>_. ucast x))) p3 = Inr (g2, p')"
    by (auto simp: load_options_def bindE_Inr_iff Let_def p3_def)
  have "?P p1" by (rule number_inv [where P = ?P, OF n1]) (simp_all add: same_offsets_def)
  then have P3: "?P p3" by (simp add: p3_def same_offsets_def Let_def)
  show ?thesis by (rule number_inv [where P = ?P, OF n2]) (use P3 in \<open>simp_all add: same_offsets_def\<close>)
qed

text \<open>The stride is an argument below \<open>2 ^ 63\<close> or the block size.\<close>

definition stride_from :: "parsing \<Rightarrow> parsing \<Rightarrow> bool" where
  "stride_from p p' \<longleftrightarrow> base_offset (dummy p') = base_offset (dummy p) \<and> thread_offset (dummy p') = thread_offset (dummy p) \<and>
    block_size (dummy p') = block_size (dummy p) \<and> p_job p' = p_job p \<and>
    (unat (stride (dummy p')) < 2 ^ 63 \<or> stride (dummy p') = block_size (dummy p')) \<and>
    (use_random_alignment (dummy p) \<or> use_interlocked (dummy p) \<or>
     \<not> (use_random_alignment (dummy p') \<and> use_interlocked (dummy p')))"

lemma stride_options_ok:
  assumes s: "stride_options opt p = Inr (Some p')" and k: "unat (stride (dummy p)) < 2 ^ 63"
  shows "stride_from p p'"
proof -
  let ?P = "\<lambda>q. base_offset (dummy q) = base_offset (dummy p) \<and> thread_offset (dummy q) = thread_offset (dummy p) \<and>
    block_size (dummy q) = block_size (dummy p) \<and> p_job q = p_job p \<and> unat (stride (dummy q)) < 2 ^ 63 \<and>
    use_random_alignment (dummy q) = use_random_alignment (dummy p) \<and> use_interlocked (dummy q) = use_interlocked (dummy p)"
  from s obtain g p1 where
    n: "number max_off RANDOM_ALIGN (block_size (dummy p)) opt (\<lambda>x. upd_dummy (stride_update (\<lambda>_. x))) p = Inr (g, p1)"
    by (auto simp: stride_options_def bindE_Inr_iff)
  have P1: "?P p1" by (rule number_inv [where P = ?P, OF n]) (use k in \<open>auto dest: max_off_bound\<close>)
  show ?thesis
  proof (cases g)
    case True
    with s n P1 show ?thesis
      by (cases "stride (dummy p1) = 0") (auto simp: stride_options_def Let_def stride_from_def)
  next
    case False
    with s n P1 show ?thesis
      by (auto simp: stride_options_def Let_def stride_from_def bindE_Inr_iff dest!: byte_size_nonneg split: option.splits if_splits)
  qed
qed

lemma caching_same: "caching_options_step opt p = Inr (Some p') \<Longrightarrow> same_offsets p p' \<and> p_job p' = p_job p"
  by (auto simp: caching_options_step_def same_offsets_def split: option.splits)

lemma thread_options_ok:
  assumes s: "thread_options opt p = Inr (Some p')" and d: "dummy_ok (dummy p)"
  shows "dummy_ok (dummy p') \<and> use_random_alignment (dummy p') = use_random_alignment (dummy p) \<and>
    use_interlocked (dummy p') = use_interlocked (dummy p) \<and> p_job p' = p_job p \<and>
    (use_interlocked (dummy p') \<longrightarrow> get_arg THREAD_STRIDE opt = None \<and> thread_offset (dummy p') = thread_offset (dummy p))"
proof -
  let ?P = "\<lambda>q. dummy_ok (dummy q) \<and> use_random_alignment (dummy q) = use_random_alignment (dummy p) \<and>
    use_interlocked (dummy q) = use_interlocked (dummy p) \<and> p_job q = p_job p"
  from s obtain g1 p1 g2 where
    n1: "number max_uint THREADS_PER_TARGET 0 opt (\<lambda>x. upd_dummy (threads_per_target_update (\<lambda>_. ucast x))) p = Inr (g1, p1)"
    and n2: "number max_off THREAD_STRIDE (block_size (dummy p1)) opt (\<lambda>x. upd_dummy (thread_offset_update (\<lambda>_. x))) p1 = Inr (g2, p')"
    and c: "\<not> (g2 \<and> use_interlocked (dummy p'))"
    by (auto simp: thread_options_def bindE_Inr_iff split: if_splits)
  have P1: "?P p1 \<and> thread_offset (dummy p1) = thread_offset (dummy p)"
    by (rule number_inv [where P = "\<lambda>q. ?P q \<and> thread_offset (dummy q) = thread_offset (dummy p)", OF n1])
      (use d in \<open>simp_all add: dummy_ok_def\<close>)
  have "?P p'"
    by (rule number_inv [where P = ?P, OF n2]) (use P1 in \<open>auto simp: dummy_ok_def dest: max_off_bound\<close>)
  moreover have "p' = p1" if "\<not> g2" by (rule number_False) (use n2 that in simp)
  ultimately show ?thesis using c P1 number_given [OF n2] by auto
qed

lemma write_options_same:
  assumes s: "write_options opt p = Inr (Some p')" and "write_percentage (dummy p) \<le> 100"
  shows "same_offsets p p' \<and> write_percentage (dummy p') \<le> 100 \<and> thread_count (p_job p') = thread_count (p_job p)"
proof -
  let ?P = "\<lambda>q. same_offsets p q \<and> thread_count (p_job q) = thread_count (p_job p)"
  define p1 where "p1 = (if get_arg VERBOSE opt \<noteq> None then p\<lparr>p_verbose := True\<rparr> else p)"
  from s obtain g2 p2 g3 where
    n2: "number max_uint WRITE 0 opt (\<lambda>x. upd_dummy (write_percentage_update (\<lambda>_. ucast x))) p1 = Inr (g2, p2)"
    and w: "\<not> (g2 \<and> write_percentage (dummy p2) > 100)"
    and n3: "number max_uint WARMUP_TIME 0 opt (\<lambda>x. upd_job (warmup_time_update (\<lambda>_. ucast x))) p2 = Inr (g3, p')"
    by (auto simp: write_options_def bindE_Inr_iff Let_def p1_def split: if_splits)
  have P1: "?P p1" by (simp add: p1_def same_offsets_def)
  have P2: "?P p2" by (rule number_inv [where P = ?P, OF n2]) (use P1 in \<open>simp_all add: same_offsets_def\<close>)
  have "p2 = p1" if "\<not> g2" by (rule number_False) (use n2 that in simp)
  with w assms(2) have "write_percentage (dummy p2) \<le> 100" by (cases g2) (simp_all add: p1_def)
  with P2 have P2': "?P p2 \<and> write_percentage (dummy p2) \<le> 100" by simp
  have "?P p' \<and> write_percentage (dummy p') \<le> 100"
    by (rule number_inv [where P = "\<lambda>q. ?P q \<and> write_percentage (dummy q) \<le> 100", OF n3])
      (use P2' in \<open>simp_all add: same_offsets_def\<close>)
  then show ?thesis by simp
qed

lemma engine_same: "engine_option opt p = Inr (Some p') \<Longrightarrow> dummy p' = dummy p \<and> p_job p' = p_job p"
  by (auto simp: engine_option_def split: option.splits list.splits if_splits)

lemma seed_same:
  assumes "seed_option opt p = Inr (Some p')"
  shows "dummy p' = dummy p \<and> thread_count (p_job p') = thread_count (p_job p)"
proof (cases "get_arg RAND_SEED opt")
  case (Some arg)
  let ?P = "\<lambda>q. dummy q = dummy p \<and> thread_count (p_job q) = thread_count (p_job p)"
  show ?thesis
  proof (cases "arg = []")
    case False
    with assms Some obtain g where
      n: "number max_u64 RAND_SEED 0 opt (\<lambda>x. upd_job (rand_seed_update (\<lambda>_. x))) p = Inr (g, p')"
      by (auto simp: seed_option_def bindE_Inr_iff)
    show ?thesis by (rule number_inv [where P = ?P, OF n]) simp_all
  qed (use assms Some in \<open>auto simp: seed_option_def\<close>)
qed (use assms in \<open>simp add: seed_option_def\<close>)

lemma buffers_loop_same:
  "buffers_loop cs t = Some t' \<Longrightarrow> base_offset t' = base_offset t \<and> thread_offset t' = thread_offset t \<and>
    stride t' = stride t \<and> block_size t' = block_size t \<and> use_random_alignment t' = use_random_alignment t \<and>
    use_interlocked t' = use_interlocked t \<and> write_percentage t' = write_percentage t"
  by (induction cs arbitrary: t) (auto split: if_splits dest!: meta_spec)

lemma buffer_same:
  assumes "buffer_option opt p = Inr (Some p')" and "\<not> (rand_buffers (dummy p) \<and> zero_buffers (dummy p))"
  shows "same_offsets p p' \<and> p_job p' = p_job p \<and> write_percentage (dummy p') = write_percentage (dummy p) \<and>
    \<not> (rand_buffers (dummy p') \<and> zero_buffers (dummy p'))"
proof (cases "get_arg IO_BUFFERS opt")
  case (Some arg)
  with assms(1) obtain t where t: "buffers_loop arg (dummy p) = Some t" and p': "p' = p\<lparr>dummy := t\<rparr>"
    and n: "\<not> (rand_buffers t \<and> zero_buffers t)"
    by (auto simp: buffer_option_def split: option.splits if_splits)
  with buffers_loop_same [OF t] show ?thesis by (simp add: same_offsets_def)
qed (use assms in \<open>simp add: buffer_option_def\<close>)

section \<open>What an accepted command line means\<close>

text \<open>The facts about the options that were accepted.\<close>

definition config_ok :: "options \<Rightarrow> parsing \<Rightarrow> bool" where
  "config_ok opt p \<longleftrightarrow> dummy_ok (dummy p) \<and> write_percentage (dummy p) \<le> 100 \<and>
    \<not> (rand_buffers (dummy p) \<and> zero_buffers (dummy p)) \<and>
    \<not> (use_random_alignment (dummy p) \<and> use_interlocked (dummy p)) \<and>
    (use_interlocked (dummy p) \<longrightarrow> get_arg THREAD_STRIDE opt = None \<and> thread_offset (dummy p) = 0) \<and>
    \<not> (get_arg TOTAL_THREADS opt \<noteq> None \<and> get_arg THREADS_PER_TARGET opt \<noteq> None) \<and>
    use_total_threads (p_job p) = (get_arg TOTAL_THREADS opt \<noteq> None) \<and>
    (\<not> use_total_threads (p_job p) \<longrightarrow> total_threads (p_job p) = 0)"

lemma number_untouched:
  assumes "number tmax ty bs opt store p = Inr (g, p')" and "untouched (dummy p)" and "\<And>x. untouched (dummy (store x p)) = untouched (dummy p)"
  shows "untouched (dummy p')"
  by (rule number_inv [where P = "\<lambda>q. untouched (dummy q)", OF assms(1)]) (simp_all add: assms(2,3))

lemma stride_untouched:
  assumes s: "stride_options opt p = Inr (Some p')" and u: "untouched (dummy p)"
  shows "untouched (dummy p')"
proof -
  from s obtain g p1 where
    n: "number max_off RANDOM_ALIGN (block_size (dummy p)) opt (\<lambda>x. upd_dummy (stride_update (\<lambda>_. x))) p = Inr (g, p1)"
    by (auto simp: stride_options_def bindE_Inr_iff)
  have "untouched (dummy p1)" by (rule number_untouched [OF n u]) simp
  with s n show ?thesis
    by (auto simp: stride_options_def Let_def bindE_Inr_iff split: option.splits if_splits)
qed

lemma caching_untouched: "caching_options_step opt p = Inr (Some p') \<Longrightarrow> untouched (dummy p) \<Longrightarrow> untouched (dummy p')"
  by (auto simp: caching_options_step_def split: option.splits)

lemma thread_options_untouched:
  assumes "thread_options opt p = Inr (Some p')" and "write_percentage (dummy p) = 0 \<and> \<not> rand_buffers (dummy p) \<and> \<not> zero_buffers (dummy p)"
  shows "write_percentage (dummy p') = 0 \<and> \<not> rand_buffers (dummy p') \<and> \<not> zero_buffers (dummy p')"
proof -
  let ?P = "\<lambda>q. write_percentage (dummy q) = 0 \<and> \<not> rand_buffers (dummy q) \<and> \<not> zero_buffers (dummy q)"
  from assms(1) obtain g1 p1 g2 where
    n1: "number max_uint THREADS_PER_TARGET 0 opt (\<lambda>x. upd_dummy (threads_per_target_update (\<lambda>_. ucast x))) p = Inr (g1, p1)"
    and n2: "number max_off THREAD_STRIDE (block_size (dummy p1)) opt (\<lambda>x. upd_dummy (thread_offset_update (\<lambda>_. x))) p1 = Inr (g2, p')"
    by (auto simp: thread_options_def bindE_Inr_iff split: if_splits)
  have P1: "?P p1" by (rule number_inv [where P = ?P, OF n1]) (use assms(2) in simp_all)
  show ?thesis by (rule number_inv [where P = ?P, OF n2]) (use P1 in simp_all)
qed

lemma write_options_buffers:
  assumes "write_options opt p = Inr (Some p')"
  shows "rand_buffers (dummy p') = rand_buffers (dummy p) \<and> zero_buffers (dummy p') = zero_buffers (dummy p)"
proof -
  let ?P = "\<lambda>q. rand_buffers (dummy q) = rand_buffers (dummy p) \<and> zero_buffers (dummy q) = zero_buffers (dummy p)"
  define p1 where "p1 = (if get_arg VERBOSE opt \<noteq> None then p\<lparr>p_verbose := True\<rparr> else p)"
  from assms obtain g2 p2 g3 where
    n2: "number max_uint WRITE 0 opt (\<lambda>x. upd_dummy (write_percentage_update (\<lambda>_. ucast x))) p1 = Inr (g2, p2)"
    and n3: "number max_uint WARMUP_TIME 0 opt (\<lambda>x. upd_job (warmup_time_update (\<lambda>_. ucast x))) p2 = Inr (g3, p')"
    by (auto simp: write_options_def bindE_Inr_iff Let_def p1_def split: if_splits)
  have P2: "?P p2" by (rule number_inv [where P = ?P, OF n2]) (simp_all add: p1_def)
  show ?thesis by (rule number_inv [where P = ?P, OF n3]) (use P2 in simp_all)
qed

lemma option_steps_ok:
  assumes "option_steps opt start_parsing = Inr (Some p)"
  shows "config_ok opt p"
proof -
  from assms obtain p1 p2 p3 p4 p5 p6 p7 p8 p9 p10 where
    s: "size_options opt start_parsing = Inr (Some p1)" "time_options opt p1 = Inr (Some p2)"
      "limit_options opt p2 = Inr (Some p3)" "load_options opt p3 = Inr (Some p4)" "stride_options opt p4 = Inr (Some p5)"
      "caching_options_step opt p5 = Inr (Some p6)" "thread_options opt p6 = Inr (Some p7)"
      "write_options opt p7 = Inr (Some p8)" "engine_option opt p8 = Inr (Some p9)" "seed_option opt p9 = Inr (Some p10)"
      "buffer_option opt p10 = Inr (Some p)"
    unfolding option_steps_def andThen_Some_iff by blast
  let ?d0 = "dummy start_parsing"
  have d0: "dummy_ok ?d0" "unat (stride ?d0) < 2 ^ 63" "untouched ?d0" "\<not> use_random_alignment ?d0" "\<not> use_interlocked ?d0"
    and t0: "thread_count (p_job start_parsing) = (False, 0)"
    by (simp_all add: start_parsing_def Target_def dummy_ok_def untouched_def JobOptions_def)
  from size_options_ok [OF s(1) d0(1,2)] d0 have d1: "dummy_ok (dummy p1)" "stride (dummy p1) = stride ?d0"
    "untouched (dummy p1)" "\<not> use_random_alignment (dummy p1)" "\<not> use_interlocked (dummy p1)" by simp_all
  have "thread_count (p_job p1) = thread_count (p_job start_parsing)"
    using s(1) by (auto simp: size_options_def bindE_Inr_iff number_def split: option.splits if_splits)
  with time_options_same [OF s(2)] t0 have d2: "dummy p2 = dummy p1" "thread_count (p_job p2) = (False, 0)" by simp_all
  from limit_options_same [OF s(3)] load_options_same [OF s(4)] d1 d2
  have d4: "same_offsets p1 p4" "untouched (dummy p4)" "use_total_threads (p_job p4) = (get_arg TOTAL_THREADS opt \<noteq> None)"
      "\<not> use_total_threads (p_job p4) \<longrightarrow> total_threads (p_job p4) = 0"
    and c1: "\<not> (get_arg TOTAL_THREADS opt \<noteq> None \<and> get_arg THREADS_PER_TARGET opt \<noteq> None)"
    by (auto simp: same_offsets_def)
  have st4: "unat (stride (dummy p4)) < 2 ^ 63" using d4(1) d1(2) d0(2) by (simp add: same_offsets_def)
  from stride_options_ok [OF s(5) st4] d4(1) d1 have d5: "dummy_ok (dummy p5)"
      "\<not> (use_random_alignment (dummy p5) \<and> use_interlocked (dummy p5))" "p_job p5 = p_job p4"
    by (auto simp: stride_from_def same_offsets_def dummy_ok_def)
  have u5: "untouched (dummy p5)" by (rule stride_untouched [OF s(5) d4(2)])
  from caching_same [OF s(6)] caching_untouched [OF s(6) u5] d5 have d6: "dummy_ok (dummy p6)"
      "\<not> (use_random_alignment (dummy p6) \<and> use_interlocked (dummy p6))" "p_job p6 = p_job p4" "untouched (dummy p6)"
    using same_offsets_ok by (auto simp: same_offsets_def)
  from thread_options_ok [OF s(7) d6(1)] thread_options_untouched [OF s(7)] d6
  have d7: "dummy_ok (dummy p7)" "\<not> (use_random_alignment (dummy p7) \<and> use_interlocked (dummy p7))" "p_job p7 = p_job p4"
      "use_interlocked (dummy p7) \<longrightarrow> get_arg THREAD_STRIDE opt = None \<and> thread_offset (dummy p7) = 0"
      "write_percentage (dummy p7) = 0" "\<not> rand_buffers (dummy p7)" "\<not> zero_buffers (dummy p7)"
    by (auto simp: untouched_def)
  from write_options_same [OF s(8)] write_options_buffers [OF s(8)] d7(3,5-7) have
    d8: "same_offsets p7 p8" "write_percentage (dummy p8) \<le> 100" "thread_count (p_job p8) = thread_count (p_job p4)"
      "\<not> (rand_buffers (dummy p8) \<and> zero_buffers (dummy p8))" by simp_all
  from engine_same [OF s(9)] seed_same [OF s(10)] have d10: "dummy p10 = dummy p8"
    "thread_count (p_job p10) = thread_count (p_job p8)" by simp_all
  from buffer_same [OF s(11)] d8 d10 have dp: "same_offsets p7 p" "write_percentage (dummy p) \<le> 100"
      "thread_count (p_job p) = thread_count (p_job p4)" "\<not> (rand_buffers (dummy p) \<and> zero_buffers (dummy p))"
    by (auto simp: same_offsets_def)
  show ?thesis
    using dp d7(1,2,4) c1 d4(3,4) same_offsets_ok [OF dp(1)] by (simp add: config_ok_def same_offsets_def)
qed

lemma sle_uint: "unat (a :: u64) < 2 ^ 63 \<Longrightarrow> a <s b \<Longrightarrow> unat a < unat b \<and> unat b < 2 ^ 63"
  using unat_less64 [of b] by (auto simp: word_sless_alt sint64 uint_int split: if_splits)

lemma limit_size_ok:
  assumes l: "limit_size d t = Some t'" and t: "dummy_ok t"
  shows "area_ok t' \<and> max_size t' \<le>s tsize t' \<and> t' = t\<lparr>max_size := max_size t'\<rparr>"
proof -
  define m where "m = (if max_size d = 0 then tsize t else max_size d)"
  from l have t': "t' = t\<lparr>max_size := m\<rparr>" and c: "\<not> tsize t <s m" "\<not> m - base_offset t < block_size t" "\<not> m \<le>s base_offset t"
    by (auto simp: limit_size_def Let_def m_def split: if_splits)
  have b: "unat (base_offset t) < unat m" "unat m < 2 ^ 63"
    using sle_uint [of "base_offset t" m] t c(3) by (simp_all add: dummy_ok_def signed.not_le)
  then have "unat (m - base_offset t) = unat m - unat (base_offset t)" by (simp add: unat_sub word_le_nat_alt)
  with c(2) have k: "unat (block_size t) \<le> unat m - unat (base_offset t)" by (simp add: word_less_nat_alt)
  with b t have "unat (stride t) < 2 ^ 63" by (auto simp: dummy_ok_def)
  with b k t c(1) show ?thesis by (simp add: t' area_ok_def dummy_ok_def signed.not_less)
qed

text \<open>What the program has made of one target.\<close>

definition accepted_target :: "target \<Rightarrow> target \<Rightarrow> bool" where
  "accepted_target d t \<longleftrightarrow> area_ok t \<and> max_size t \<le>s tsize t \<and> stride t = stride d \<and> block_size t = block_size d \<and>
    base_offset t = base_offset d \<and> thread_offset t = thread_offset d \<and> overlap t = overlap d \<and>
    threads_per_target t = threads_per_target d \<and> write_percentage t = write_percentage d \<and>
    use_random_alignment t = use_random_alignment d \<and> use_interlocked t = use_interlocked d \<and>
    (use_interlocked t \<longrightarrow> interlocked_offset t = base_offset t)"

lemma setup_one_ok:
  assumes "setup_one fs stat si d t = Inr (Some t')" and "dummy_ok d"
  shows "accepted_target d t' \<and> path t' = path t"
proof -
  from assms(1) obtain u where f: "find_size fs stat si d (apply_dummy d t) = Inr (Some u)" and l: "limit_size d u = Some t'"
    by (auto simp: setup_one_def andThen_Some_iff)
  from f have u: "u = (apply_dummy d t)\<lparr>create_file := create_file u, tsize := tsize u\<rparr>"
    by (auto simp: find_size_def Let_def bindE_Inr_iff split: if_splits)
  have "dummy_ok u" using assms(2) by (subst u) (simp add: dummy_ok_def apply_dummy_def)
  from limit_size_ok [OF l this] have t': "area_ok t'" "max_size t' \<le>s tsize t'" "t' = u\<lparr>max_size := max_size t'\<rparr>" by simp_all
  have e: "t' = (apply_dummy d t)\<lparr>create_file := create_file u, tsize := tsize u, max_size := max_size t'\<rparr>"
    by (subst t'(3), subst u) simp
  have "stride t' = stride d" "block_size t' = block_size d" "base_offset t' = base_offset d"
    "thread_offset t' = thread_offset d" "overlap t' = overlap d" "threads_per_target t' = threads_per_target d"
    "write_percentage t' = write_percentage d" "use_random_alignment t' = use_random_alignment d"
    "use_interlocked t' = use_interlocked d" "use_interlocked d \<Longrightarrow> interlocked_offset t' = base_offset d" "path t' = path t"
    by (subst e, simp add: apply_dummy_def)+
  with t'(1,2) show ?thesis by (simp add: accepted_target_def)
qed

lemma setup_loop_ok:
  assumes "setup_loop fs stat si d ts opt = Inr (Some (ts', opt'))" and "dummy_ok d"
  shows "map path ts' = map path ts \<and> (\<forall>t \<in> set ts'. accepted_target d t) \<and>
    opt' = opt\<lparr>total_threads := (if use_total_threads opt then total_threads opt
      else total_threads opt + of_nat (length ts) * threads_per_target d)\<rparr>"
  using assms(1)
proof (induction ts arbitrary: opt ts' opt')
  case Nil
  then show ?case by simp
next
  case (Cons t ts)
  let ?o = "if use_total_threads opt then opt else opt\<lparr>total_threads := total_threads opt + threads_per_target d\<rparr>"
  from Cons.prems obtain t1 ts1 where t1: "setup_one fs stat si d t = Inr (Some t1)"
    and r: "setup_loop fs stat si d ts ?o = Inr (Some (ts1, opt'))" and ts': "ts' = t1 # ts1"
    by (auto simp: andThen_Some_iff Let_def)
  from Cons.IH [OF r] setup_one_ok [OF t1 assms(2)] show ?case
    by (simp add: ts' distrib_right add.assoc)
qed

lemma parse_options_ok:
  assumes "parse_options argp_parse fs stat argv = Inr (Some pr)"
  shows "\<exists>opt p js. parse_args argp_parse argv Options = Inr (True, opt) \<and> option_steps opt start_parsing = Inr (Some p) \<and>
    jobs pr = [js] \<and> job_engine js = p_engine p \<and> verbose pr = p_verbose p \<and> config_ok opt p \<and>
    init_sys_info fs (get_arg CPU_AFFINITY opt) SysInfo = Inr (pr_sys_info pr) \<and>
    map path (setup_targets_of js) = get_non_opts opt \<and> get_non_opts opt \<noteq> [] \<and>
    (\<forall>t \<in> set (setup_targets_of js). accepted_target (dummy p) t) \<and>
    settings js = (p_job p)\<lparr>total_threads := (if use_total_threads (p_job p) then total_threads (p_job p)
      else of_nat (length (setup_targets_of js)) * threads_per_target (dummy p))\<rparr>"
proof -
  from assms obtain opt si p ts jo where a: "parse_args argp_parse argv Options = Inr (True, opt)" and n: "get_non_opts opt \<noteq> []"
    and si: "init_sys_info fs (get_arg CPU_AFFINITY opt) SysInfo = Inr si"
    and st: "option_steps opt start_parsing = Inr (Some p)"
    and l: "setup_loop fs stat si (dummy p) (map Target (get_non_opts opt)) (p_job p) = Inr (Some (ts, jo))"
    and pr: "jobs pr = [\<lparr>settings = jo, job_engine = p_engine p, setup_targets_of = ts\<rparr>]" "pr_sys_info pr = si" "verbose pr = p_verbose p"
    by (auto simp: parse_options_def Let_def bindE_Inr_iff andThen_Some_iff split: if_splits)
  have c: "config_ok opt p" by (rule option_steps_ok [OF st])
  then have d: "dummy_ok (dummy p)" by (simp add: config_ok_def)
  have pt: "map path (map Target xs) = xs" for xs by (induction xs) (simp_all add: Target_def)
  from setup_loop_ok [OF l d] have ts: "map path ts = get_non_opts opt" "\<forall>t \<in> set ts. accepted_target (dummy p) t"
    and jo: "jo = (p_job p)\<lparr>total_threads := (if use_total_threads (p_job p) then total_threads (p_job p)
      else total_threads (p_job p) + of_nat (length (map Target (get_non_opts opt))) * threads_per_target (dummy p))\<rparr>"
    by (simp_all only: pt) simp_all
  have len: "length (get_non_opts opt) = length ts" using ts(1) by (metis length_map)
  show ?thesis
    using a st pr c si n ts jo c by (intro exI [of _ opt] exI [of _ p] exI [of _ "hd (jobs pr)"])
      (simp add: config_ok_def len)
qed

section \<open>Properties\<close>

definition sample_fs :: sysfs where
  "sample_fs = example_fs\<lparr>file_line := (\<lambda>p. if p = ''/sys/devices/system/cpu/online'' then Some ''0-1'' else
     if p = ''/sys/block/sda/queue/scheduler'' then Some ''noop [cfq]'' else None), dir_names := (\<lambda>_. Some [])\<rparr>"

definition file_stat :: "string \<Rightarrow> stat_result" where
  "file_stat p = Stat_Ok \<lparr>st_dev = 2049, st_rdev = 0, st_size = 1048576\<rparr>"

text \<open>glibc's \<open>argp_parse\<close> on one fixed command line.\<close>

definition fixed_argp :: "callback list \<Rightarrow> argp" where
  "fixed_argp cbs tbl p argv s = drive p cbs s"



text \<open>A command line without options.\<close>

lemma plain_number [simp]: "opts opt ty = None \<Longrightarrow> number tmax ty bs opt store p = Inr (False, p)"
  by (simp add: number_def arg_to_number_def)

lemma plain_get_arg [simp]: "opts opt ty = None \<Longrightarrow> get_arg ty opt = None"
  by (simp add: get_arg_def)

lemma plain_steps:
  assumes "opts opt = Map.empty"
  shows "option_steps opt start_parsing = Inr (Some start_parsing)"
  using assms
  by (simp add: option_steps_def andThen_Some_iff size_options_def time_options_def limit_options_def load_options_def
      stride_options_def caching_options_step_def thread_options_def write_options_def engine_option_def seed_option_def
      buffer_option_def Let_def upd_dummy_def start_parsing_def Target_def andThen_def)

definition plain_options :: options where
  "plain_options = Options\<lparr>non_opts := [''f'', ''g'']\<rparr>"

definition plain_argp :: argp where
  "plain_argp = fixed_argp [(ARGP_KEY_ARG, Some ''f''), (ARGP_KEY_ARG, Some ''g'')]"

lemma plain_parse: "parse_args plain_argp [''diskspd'', ''f'', ''g''] Options = Inr (True, plain_options)"
proof -
  have m: "opt_map Options ARGP_KEY_ARG = None" using parsed_map [OF parsed_init] no_key_arg by simp
  have n: "non_opts Options = []" by (simp add: Options_def)
  show ?thesis
    using m by (simp add: parse_args_def plain_argp_def fixed_argp_def parse_arg_def plain_options_def Let_def n)
qed

lemma plain_info: "\<exists>si. init_sys_info sample_fs None SysInfo = Inr si"
  by (simp add: init_sys_info_def SysInfo_def init_cpus_def sample_fs_def example_fs_def str_to_cpu_set_def cpu_fields.simps char_at_def strtoull_def Let_def is_digit_def is_space_def code_def digits_value_def insert_range_def init_devices_def word_le_nat_alt)

lemma plain_targets: "\<exists>ts o'. setup_loop sample_fs file_stat si (dummy start_parsing) (map Target [''f'', ''g'']) (p_job start_parsing) = Inr (Some (ts, o'))"
  by (simp add: start_parsing_def Target_def JobOptions_def setup_one_def andThen_def find_size_def file_stat_def stat_data_def apply_dummy_def limit_size_def Let_def word_sle_eq)

lemma plain_accepted:
  "\<exists>pr. parse_options plain_argp sample_fs file_stat [''diskspd'', ''f'', ''g''] = Inr (Some pr)"
proof -
  obtain si where si: "init_sys_info sample_fs None SysInfo = Inr si" using plain_info ..
  obtain ts o' where l: "setup_loop sample_fs file_stat si (dummy start_parsing) (map Target [''f'', ''g''])
    (p_job start_parsing) = Inr (Some (ts, o'))" using plain_targets by blast
  have o: "opts plain_options = Map.empty" "get_non_opts plain_options = [''f'', ''g'']"
    by (simp_all add: plain_options_def Options_def get_non_opts_def)
  show ?thesis
    using si l by (simp add: parse_options_def plain_parse o plain_steps andThen_def)
qed

lemma threads_product:
  assumes "\<forall>t \<in> set ts. threads_per_target t = k" and "(\<Sum>t \<leftarrow> ts. unat (threads_per_target t)) < 2 ^ 32"
  shows "unat (of_nat (length ts) * k) = (\<Sum>t \<leftarrow> ts. unat (threads_per_target t))"
proof -
  have s: "(\<Sum>t \<leftarrow> ts. unat (threads_per_target t)) = length ts * unat k"
    using assms(1) by (induction ts) simp_all
  then have "of_nat (length ts) * k = (of_nat (length ts * unat k) :: u32)" by simp
  moreover have "unat (of_nat (length ts * unat k) :: u32) = length ts * unat k"
    using assms(2) s by (intro unat_of_nat_u32) simp
  ultimately show ?thesis using s by simp
qed


lemma write_options_kept:
  assumes "write_options opt p = Inr (Some p')"
  shows "same_offsets p p' \<and> thread_count (p_job p') = thread_count (p_job p)"
proof -
  let ?P = "\<lambda>q. same_offsets p q \<and> thread_count (p_job q) = thread_count (p_job p)"
  define p1 where "p1 = (if get_arg VERBOSE opt \<noteq> None then p\<lparr>p_verbose := True\<rparr> else p)"
  from assms obtain g2 p2 g3 where
    n2: "number max_uint WRITE 0 opt (\<lambda>x. upd_dummy (write_percentage_update (\<lambda>_. ucast x))) p1 = Inr (g2, p2)"
    and n3: "number max_uint WARMUP_TIME 0 opt (\<lambda>x. upd_job (warmup_time_update (\<lambda>_. ucast x))) p2 = Inr (g3, p')"
    by (auto simp: write_options_def bindE_Inr_iff Let_def p1_def split: if_splits)
  have P2: "?P p2" by (rule number_inv [where P = ?P, OF n2]) (simp_all add: p1_def same_offsets_def)
  show ?thesis by (rule number_inv [where P = ?P, OF n3]) (use P2 in \<open>simp_all add: same_offsets_def\<close>)
qed

lemma buffer_option_kept:
  "buffer_option opt p = Inr (Some p') \<Longrightarrow> same_offsets p p'"
  by (auto simp: buffer_option_def same_offsets_def dest: buffers_loop_same split: option.splits if_splits)

text \<open>
  C7. What an accepted command line means, whatever \<open>argp\<close>, \<open>stat\<close> and the kernel's files are: there is one
  job, its targets are the non-option arguments in order, each target has the options' values, an
  area of at least one block inside its size (so no later computation on it overflows), a write
  percentage of at most 100 and no thread stride or random access together with \<open>-si\<close>; and the number
  of threads is the sum over the targets, unless that leaves 32 bits or \<open>-F\<close> gives it.
\<close>

theorem accepted_command_line:
  assumes "parse_options argp_parse fs stat argv = Inr (Some pr)"
  shows "\<exists>opt p js. parse_args argp_parse argv Options = Inr (True, opt) \<and>
    option_steps opt start_parsing = Inr (Some p) \<and> jobs pr = [js] \<and>
    map path (setup_targets_of js) = get_non_opts opt \<and> setup_targets_of js \<noteq> [] \<and>
    (\<forall>t \<in> set (setup_targets_of js). accepted_target (dummy p) t \<and> write_percentage t \<le> 100 \<and>
       (use_interlocked t \<longrightarrow> thread_offset t = 0 \<and> \<not> use_random_alignment t)) \<and>
    use_total_threads (settings js) = (get_arg TOTAL_THREADS opt \<noteq> None) \<and>
    ((\<Sum>t \<leftarrow> setup_targets_of js. unat (threads_per_target t)) < 2 ^ 32 \<longrightarrow>
       threads_add_up (settings js) (setup_targets_of js))"
proof -
  from parse_options_ok [OF assms] obtain opt p js where
    a: "parse_args argp_parse argv Options = Inr (True, opt)" and st: "option_steps opt start_parsing = Inr (Some p)"
    and j: "jobs pr = [js]" and c: "config_ok opt p" and pa: "map path (setup_targets_of js) = get_non_opts opt"
    and ne: "get_non_opts opt \<noteq> []" and ts: "\<forall>t \<in> set (setup_targets_of js). accepted_target (dummy p) t"
    and se: "settings js = (p_job p)\<lparr>total_threads := (if use_total_threads (p_job p) then total_threads (p_job p)
        else of_nat (length (setup_targets_of js)) * threads_per_target (dummy p))\<rparr>" by blast
  have "\<forall>t \<in> set (setup_targets_of js). threads_per_target t = threads_per_target (dummy p)"
    using ts by (simp add: accepted_target_def)
  from threads_product [OF this] have
    "(\<Sum>t \<leftarrow> setup_targets_of js. unat (threads_per_target t)) < 2 ^ 32 \<Longrightarrow> threads_add_up (settings js) (setup_targets_of js)"
    by (simp add: threads_add_up_def se)
  moreover have "setup_targets_of js \<noteq> []" using pa ne by auto
  moreover have "\<forall>t \<in> set (setup_targets_of js). accepted_target (dummy p) t \<and> write_percentage t \<le> 100 \<and>
       (use_interlocked t \<longrightarrow> thread_offset t = 0 \<and> \<not> use_random_alignment t)"
    using ts c by (auto simp: accepted_target_def config_ok_def)
  moreover have "use_total_threads (settings js) = (get_arg TOTAL_THREADS opt \<noteq> None)"
    using c by (simp add: se config_ok_def)
  ultimately show ?thesis using a st j pa by blast
qed

lemma accepted_command_line_witness:
  "\<exists>pr js. parse_options plain_argp sample_fs file_stat [''diskspd'', ''f'', ''g''] = Inr (Some pr) \<and>
    jobs pr = [js] \<and> map path (setup_targets_of js) = [''f'', ''g'']"
proof -
  obtain pr where pr: "parse_options plain_argp sample_fs file_stat [''diskspd'', ''f'', ''g''] = Inr (Some pr)"
    using plain_accepted ..
  from accepted_command_line [OF pr] obtain opt js where
    "parse_args plain_argp [''diskspd'', ''f'', ''g''] Options = Inr (True, opt)" "jobs pr = [js]"
    "map path (setup_targets_of js) = get_non_opts opt" by blast
  with pr show ?thesis by (auto simp: plain_parse plain_options_def get_non_opts_def)
qed


text \<open>
  C22. The size of a target. With \<open>-c\<close> the size is the option's and the file is only created (and an
  old one removed) when it does not exist or is smaller; a device is never created. Without \<open>-c\<close> the
  target must exist and its size is the file's or the partition's. The maximum size is \<open>-f\<close> or the size.
\<close>

theorem target_found:
  assumes "setup_one fs stat si d t = Inr (Some t')"
  shows "stat (path t) \<noteq> Stat_Failed \<and>
    (create_file t' \<longleftrightarrow> create_file d \<and> (stat (path t) = Stat_ENOENT \<or> st_size (stat_data (stat (path t))) <s tsize d)) \<and>
    (if create_file d then tsize t' = tsize d \<and> st_rdev (stat_data (stat (path t))) = 0
     else stat (path t) \<noteq> Stat_ENOENT \<and>
       (if st_rdev (stat_data (stat (path t))) = 0 then tsize t' = st_size (stat_data (stat (path t)))
        else partition_size fs (st_rdev (stat_data (stat (path t)))) si = Inr (tsize t'))) \<and>
    max_size t' = (if max_size d = 0 then tsize t' else max_size d)"
  using assms
  by (intro conjI) (auto simp: setup_one_def andThen_Some_iff find_size_def limit_size_def Let_def bindE_Inr_iff
      apply_dummy_def signed.not_le split: if_splits)

lemma target_found_witness:
  "\<exists>t'. setup_one sample_fs file_stat SysInfo (dummy start_parsing) (Target ''f'') = Inr (Some t') \<and>
     \<not> create_file t' \<and> tsize t' = 1048576 \<and> max_size t' = 1048576"
proof -
  have "\<exists>t'. setup_one sample_fs file_stat SysInfo (dummy start_parsing) (Target ''f'') = Inr (Some t')"
    by (simp add: start_parsing_def Target_def setup_one_def andThen_def find_size_def file_stat_def stat_data_def
        apply_dummy_def limit_size_def Let_def word_sle_eq)
  then obtain t' where t': "setup_one sample_fs file_stat SysInfo (dummy start_parsing) (Target ''f'') = Inr (Some t')" ..
  with target_found [OF t'] show ?thesis
    by (simp add: start_parsing_def Target_def file_stat_def stat_data_def)
qed

text \<open>The chain of the steps that can move the stride.\<close>

lemma thread_options_stride:
  assumes "thread_options opt p = Inr (Some p')"
  shows "stride (dummy p') = stride (dummy p) \<and> block_size (dummy p') = block_size (dummy p) \<and>
    use_random_alignment (dummy p') = use_random_alignment (dummy p)"
proof -
  let ?P = "\<lambda>q. stride (dummy q) = stride (dummy p) \<and> block_size (dummy q) = block_size (dummy p) \<and>
    use_random_alignment (dummy q) = use_random_alignment (dummy p)"
  from assms obtain g1 p1 g2 where
    n1: "number max_uint THREADS_PER_TARGET 0 opt (\<lambda>x. upd_dummy (threads_per_target_update (\<lambda>_. ucast x))) p = Inr (g1, p1)"
    and n2: "number max_off THREAD_STRIDE (block_size (dummy p1)) opt (\<lambda>x. upd_dummy (thread_offset_update (\<lambda>_. x))) p1 = Inr (g2, p')"
    by (auto simp: thread_options_def bindE_Inr_iff split: if_splits)
  have P1: "?P p1" by (rule number_inv [where P = ?P, OF n1]) simp_all
  show ?thesis by (rule number_inv [where P = ?P, OF n2]) (use P1 in simp_all)
qed

lemma number_empty:
  assumes "number tmax ty bs opt store p = Inr (g, p')" and "get_arg ty opt = Some []"
  shows "g \<and> p' = p"
  using assms by (auto simp: number_def arg_to_number_def get_arg_def bindE_Inr_iff split: option.splits)

lemma stride_default:
  assumes s: "stride_options opt p = Inr (Some p')" and k: "stride (dummy p) = 65536" and u: "\<not> use_random_alignment (dummy p)"
  shows "(get_arg RANDOM_ALIGN opt = Some [] \<longrightarrow> use_random_alignment (dummy p') \<and> stride (dummy p') = 65536) \<and>
    (get_arg RANDOM_ALIGN opt = None \<and> get_arg SEQUENTIAL_STRIDE opt \<in> {None, Some [], Some ''i''} \<longrightarrow>
      \<not> use_random_alignment (dummy p') \<and> stride (dummy p') = block_size (dummy p'))"
proof -
  from s obtain g p1 where
    n: "number max_off RANDOM_ALIGN (block_size (dummy p)) opt (\<lambda>x. upd_dummy (stride_update (\<lambda>_. x))) p = Inr (g, p1)"
    by (auto simp: stride_options_def bindE_Inr_iff)
  have "use_random_alignment (dummy p') \<and> stride (dummy p') = 65536" if "get_arg RANDOM_ALIGN opt = Some []"
    using s n k number_empty [OF n that] by (auto simp: stride_options_def Let_def)
  moreover have "\<not> use_random_alignment (dummy p') \<and> stride (dummy p') = block_size (dummy p')"
    if "get_arg RANDOM_ALIGN opt = None" "get_arg SEQUENTIAL_STRIDE opt \<in> {None, Some [], Some ''i''}"
  proof -
    have g: "\<not> g" "p1 = p" using number_given [OF n] number_False [of _ _ _ _ _ p p1] n that(1) by auto
    have "NUL \<noteq> CHR ''i''" by (simp add: NUL_def)
    with g s n u that(2) show ?thesis by (auto simp: stride_options_def Let_def char_at_def)
  qed
  ultimately show ?thesis by blast
qed

text \<open>
  The stride without an argument. Without \<open>-r\<close>, and with a bare \<open>-s\<close>, \<open>-si\<close> or neither, access is
  sequential by the block size. A bare \<open>-r\<close> does not align to the block size as the help text says: the
  alignment stays at the 64 KiB of a new target whatever \<open>-b\<close> is, since \<open>arg_to_number\<close> stores nothing.
\<close>

theorem default_strides:
  assumes "option_steps opt start_parsing = Inr (Some p)"
  shows "(get_arg RANDOM_ALIGN opt = Some [] \<longrightarrow> use_random_alignment (dummy p) \<and> stride (dummy p) = 65536) \<and>
    (get_arg RANDOM_ALIGN opt = None \<and> get_arg SEQUENTIAL_STRIDE opt \<in> {None, Some [], Some ''i''} \<longrightarrow>
      \<not> use_random_alignment (dummy p) \<and> stride (dummy p) = block_size (dummy p))"
proof -
  from assms obtain p1 p2 p3 p4 p5 p6 p7 p8 p9 p10 where
    s: "size_options opt start_parsing = Inr (Some p1)" "time_options opt p1 = Inr (Some p2)"
      "limit_options opt p2 = Inr (Some p3)" "load_options opt p3 = Inr (Some p4)" "stride_options opt p4 = Inr (Some p5)"
      "caching_options_step opt p5 = Inr (Some p6)" "thread_options opt p6 = Inr (Some p7)"
      "write_options opt p7 = Inr (Some p8)" "engine_option opt p8 = Inr (Some p9)" "seed_option opt p9 = Inr (Some p10)"
      "buffer_option opt p10 = Inr (Some p)"
    unfolding option_steps_def andThen_Some_iff by blast
  let ?d0 = "dummy start_parsing"
  have d0: "dummy_ok ?d0" "unat (stride ?d0) < 2 ^ 63" "stride ?d0 = 65536" "\<not> use_random_alignment ?d0"
    by (simp_all add: start_parsing_def Target_def dummy_ok_def)
  have d4: "stride (dummy p4) = 65536" "\<not> use_random_alignment (dummy p4)"
    using size_options_ok [OF s(1) d0(1,2)] d0(3,4) time_options_same [OF s(2)] limit_options_same [OF s(3)] load_options_same [OF s(4)]
    by (simp_all add: same_offsets_def)
  have same: "stride (dummy p) = stride (dummy p5)" "block_size (dummy p) = block_size (dummy p5)"
    "use_random_alignment (dummy p) = use_random_alignment (dummy p5)"
    using caching_same [OF s(6)] thread_options_stride [OF s(7)] write_options_kept [OF s(8)] engine_same [OF s(9)]
      seed_same [OF s(10)] buffer_option_kept [OF s(11)]
    by (simp_all add: same_offsets_def)
  from stride_default [OF s(5) d4] show ?thesis by (simp add: same)
qed

definition rand_options :: options where
  "rand_options = Options\<lparr>opts := [RANDOM_ALIGN \<mapsto> 114], non_opts := [''f'']\<rparr>"

lemma default_strides_witness:
  "\<exists>p. option_steps rand_options start_parsing = Inr (Some p) \<and> use_random_alignment (dummy p) \<and> stride (dummy p) = 65536"
proof -
  have d: "map_option oarg (opt_map rand_options 114) = Some []"
  proof -
    have "map_of option_table 114 \<noteq> None" by code_simp
    then show ?thesis using parsed_map [OF parsed_init, of 114] by (auto simp: rand_options_def split: option.splits)
  qed
  have o: "opts rand_options ty = (if ty = RANDOM_ALIGN then Some 114 else None)" for ty by (simp add: rand_options_def)
  then have g: "get_arg RANDOM_ALIGN rand_options = Some []" using d by (simp add: get_arg_def)
  have "number tmax RANDOM_ALIGN bs rand_options store p = Inr (True, p)" for tmax bs store and p :: parsing
    using d o by (auto simp: number_def arg_to_number_def)
  then have "\<exists>p. option_steps rand_options start_parsing = Inr (Some p)"
    by (simp add: option_steps_def andThen_def size_options_def time_options_def limit_options_def load_options_def o
        stride_options_def caching_options_step_def thread_options_def write_options_def engine_option_def
        seed_option_def buffer_option_def Let_def)
  then obtain p where p: "option_steps rand_options start_parsing = Inr (Some p)" ..
  from default_strides [OF p] g p show ?thesis by blast
qed

end
