(* ===== verification/Result_Formatter.thy ===== *)
theory Result_Formatter
  imports Profile
begin

text \<open>
  The report (\<open>src/src/result_formatter.h\<close>, \<open>src/src/result_formatter.cc\<close>). The output is the list of
  the calls of \<open>printf\<close> in order, each with its format string and its arguments; how the C library
  renders them is not modelled. Doubles are real numbers; an exception or a division by zero ends
  the report with a fault. The XML and JSON formatters of the header are not implemented there.
\<close>

section \<open>Data\<close>

text \<open>
  An argument of \<open>printf\<close>: a number, a double, a string, or the double that \<open>snprintf\<close> has written with
  \<open>%10.3lf\<close> into a buffer of 11 bytes.
\<close>

datatype arg = U u64 | N u32 | Dbl real | Str string | Buf11 real

type_synonym printed = "string \<times> arg list"

datatype io_kind = READ_T | WRITE_T | RW_T

text \<open>A finished job: its options and targets, the results of its threads, and the cpu usage.\<close>

record job_report =
  report_options :: job_options
  report_targets :: "target list"
  thread_results :: "(u32 \<times> (target \<times> target_results) list) list"
  report_usage :: "(u32 \<times> double list) list"

definition tab :: "string \<Rightarrow> string" where
  "tab s = CHR 0x09 # s"

definition iops_get :: "io_kind \<Rightarrow> 'a \<Rightarrow> 'a \<Rightarrow> 'a \<Rightarrow> 'a" where
  "iops_get t rval wval rwval = (if t = READ_T then rval else if t = WRITE_T then wval else rwval)"

definition bytes_of :: "io_kind \<Rightarrow> target_results \<Rightarrow> u64" where
  "bytes_of t r = iops_get t (read_bytes_count r) (write_bytes_count r) (bytes_count r)"

definition iops_of :: "io_kind \<Rightarrow> target_results \<Rightarrow> u64" where
  "iops_of t r = iops_get t (read_iops_count r) (write_iops_count r) (iops_count r)"

section \<open>The table of the IOPS\<close>

definition iops_bar :: "job_options \<Rightarrow> printed list" where
  "iops_bar opt =
    [(''-------------------------------------------------------------------------------'', [])] @
    (if measure_iops_std_dev opt then [(''------------'', [])] else []) @
    (if measure_latency opt then [(''------------------------'', [])] else []) @ [(''\<newline>'', [])]"

definition iops_head :: "job_options \<Rightarrow> printed" where
  "iops_head opt =
    (''thread |           bytes |         I/Os |       MB/s |  I/O per s |%s%s%s file\<newline>'',
     [Str (if measure_iops_std_dev opt then '' IopsStdDev |'' else ''''),
      Str (if measure_latency opt then '' AvgLat(ms) |'' else ''''),
      Str (if measure_latency opt then '' LatStdDev  |'' else '''')])"

text \<open>What the loop over the results accumulates.\<close>

record iops_totals =
  total_bytes :: u64
  total_iops :: u64
  total_bucketizer :: io_bucketizer
  total_histogram :: histogram
  rows :: "printed list"

definition start_totals :: iops_totals where
  "start_totals = \<lparr>total_bytes = 0, total_iops = 0, total_bucketizer = IoBucketizer, total_histogram = Histogram,
     rows = []\<rparr>"

text \<open>The bucketizer and the histogram of a row: of the reads, of the writes, or of both.\<close>

definition curr_bucketizer :: "io_kind \<Rightarrow> target_results \<Rightarrow> io_bucketizer" where
  "curr_bucketizer t r =
    (let b = (if t = READ_T \<or> t = RW_T then bucketizer_Merge IoBucketizer (read_bucketizer r) else IoBucketizer)
     in if t = WRITE_T \<or> t = RW_T then bucketizer_Merge b (write_bucketizer r) else b)"

definition curr_histogram :: "io_kind \<Rightarrow> target_results \<Rightarrow> histogram" where
  "curr_histogram t r =
    (let h = (if t = READ_T \<or> t = RW_T then histogram_Merge Histogram (read_latency_histogram r) else Histogram)
     in if t = WRITE_T \<or> t = RW_T then histogram_Merge h (write_latency_histogram r) else h)"

text \<open>The average and the deviation of latencies, in ms.\<close>

definition latency_cells :: "string \<Rightarrow> histogram \<Rightarrow> fault + printed list" where
  "latency_cells no_value h =
    bindE (GetAvg h) (\<lambda>avg.
      let avg_cell = (''|    %8.3lf '', [Dbl (avg / 1000)])
      in if GetSampleSize h > 0 then bindE (GetStdDev h) (\<lambda>sd. Inr [avg_cell, (''|    %8.3lf '', [Dbl (sd / 1000)])])
         else Inr [avg_cell, (no_value, [])])"

definition rate_args :: "job_options \<Rightarrow> u64 \<Rightarrow> u64 \<Rightarrow> fault + arg list" where
  "rate_args opt nbytes iops =
    bindE (fdiv (real (unat nbytes) / 2 ^ 20) (real (unat (duration opt)))) (\<lambda>mbs.
    bindE (fdiv (real (unat iops)) (real (unat (duration opt)))) (\<lambda>per_s.
      Inr [U nbytes, U iops, Dbl mbs, Dbl per_s]))"

definition deviation_cell :: "job_options \<Rightarrow> io_bucketizer \<Rightarrow> fault + printed" where
  "deviation_cell opt b =
    bindE (fdiv (bucketizer_GetStandardDeviation b) (real (unat (io_bucket_duration_ms opt)) / 1000))
      (\<lambda>x. Inr (''| %10.2lf '', [Dbl x]))"

definition row_format :: string where
  "row_format = ''%6d | %15lu | %12lu | %10.2lf | %10.2lf ''"

definition total_format :: string where
  "total_format = ''total:   %15lu | %12lu | %10.2lf | %10.2lf ''"

text \<open>The row of one target of a thread.\<close>

definition iops_row ::
  "job_options \<Rightarrow> io_kind \<Rightarrow> u32 \<times> target \<times> target_results \<Rightarrow> iops_totals \<Rightarrow> fault + iops_totals" where
  "iops_row opt t = (\<lambda>(id, target, r) s.
    bindE (rate_args opt (bytes_of t r) (iops_of t r)) (\<lambda>args.
    bindE (if measure_iops_std_dev opt
           then bindE (deviation_cell opt (curr_bucketizer t r))
             (\<lambda>c. Inr ([c], bucketizer_Merge (total_bucketizer s) (curr_bucketizer t r)))
           else Inr ([], total_bucketizer s)) (\<lambda>(c1, tb).
    bindE (if measure_latency opt
           then bindE (latency_cells ''|       N/A '' (curr_histogram t r))
             (\<lambda>cs. Inr (cs, histogram_Merge (total_histogram s) (curr_histogram t r)))
           else Inr ([], total_histogram s)) (\<lambda>(c2, th).
      Inr (s\<lparr>total_bytes := total_bytes s + bytes_of t r, total_iops := total_iops s + iops_of t r,
        total_bucketizer := tb, total_histogram := th,
        rows := rows s @ [(row_format, N id # args)] @ c1 @ c2 @
          [(''| %s (%lu%s)'', [Str (path target), U (tsize target), Str ''B'']), (''\<newline>'', [])]\<rparr>)))))"

definition flat_results :: "(u32 \<times> (target \<times> target_results) list) list \<Rightarrow> (u32 \<times> target \<times> target_results) list" where
  "flat_results ths = concat (map (\<lambda>(id, rs). map (Pair id) rs) ths)"

definition print_iops :: "io_kind \<Rightarrow> job_report \<Rightarrow> fault + printed list" where
  "print_iops t job =
    (let opt = report_options job
     in bindE (foldE (iops_row opt t) (flat_results (thread_results job)) start_totals) (\<lambda>s.
        bindE (rate_args opt (total_bytes s) (total_iops s)) (\<lambda>args.
        bindE (if measure_iops_std_dev opt then bindE (deviation_cell opt (total_bucketizer s)) (\<lambda>c. Inr [c])
               else Inr []) (\<lambda>c1.
        bindE (if measure_latency opt then latency_cells (''|'' @ tab ''   N/A '') (total_histogram s)
               else Inr []) (\<lambda>c2.
          Inr ([iops_head opt] @ iops_bar opt @ rows s @ iops_bar opt @
            [(total_format, args)] @ c1 @ c2 @ [(''\<newline>\<newline>'', [])]))))))"

section \<open>The latency percentiles\<close>

definition percentiles :: "(double \<times> string) list" where
  "percentiles =
    [(0.25, ''25th''), (0.50, ''50th''), (0.75, ''75th''), (0.90, ''90th''), (0.95, ''95th''), (0.99, ''99th''),
     (0.999, ''3-nines''), (0.9999, ''4-nines''), (0.99999, ''5-nines''), (0.999999, ''6-nines''),
     (0.9999999, ''7-nines''), (0.99999999, ''8-nines''), (0.999999999, ''9-nines'')]"

definition in_ms :: "u64 \<Rightarrow> double" where
  "in_ms v = real (unat v) / 1000"

text \<open>The cell of a histogram that may be empty.\<close>

definition maybe_cell :: "bool \<Rightarrow> fault + u64 \<Rightarrow> fault + arg" where
  "maybe_cell given v = (if given then bindE v (\<lambda>x. Inr (Buf11 (in_ms x))) else Inr (Str ''N/A''))"

definition percentile_row ::
  "histogram \<Rightarrow> histogram \<Rightarrow> histogram \<Rightarrow> double \<times> string \<Rightarrow> fault + printed" where
  "percentile_row rh wh th = (\<lambda>(p, name).
    bindE (maybe_cell (GetSampleSize rh > 0) (GetPercentile p rh)) (\<lambda>rc.
    bindE (maybe_cell (GetSampleSize wh > 0) (GetPercentile p wh)) (\<lambda>wc.
    bindE (GetPercentile p th) (\<lambda>v.
      Inr (''%7s | %10s | %10s | %10.3lf\<newline>'', [Str name, rc, wc, Dbl (in_ms v)])))))"

text \<open>The three histograms: the third gets the two others again after every result.\<close>

definition merge_latencies :: "target_results \<Rightarrow> histogram \<times> histogram \<times> histogram \<Rightarrow> histogram \<times> histogram \<times> histogram" where
  "merge_latencies r = (\<lambda>(rh, wh, th).
    let rh' = histogram_Merge rh (read_latency_histogram r); wh' = histogram_Merge wh (write_latency_histogram r)
    in (rh', wh', histogram_Merge (histogram_Merge th rh') wh'))"

definition job_latencies :: "job_report \<Rightarrow> histogram \<times> histogram \<times> histogram" where
  "job_latencies job = fold (\<lambda>(id, target, r). merge_latencies r) (flat_results (thread_results job))
    (Histogram, Histogram, Histogram)"

definition latency_table :: "job_report \<Rightarrow> fault + printed list" where
  "latency_table job =
    (let (rh, wh, th) = job_latencies job;
         has_reads = GetSampleSize rh > 0; has_writes = GetSampleSize wh > 0
     in bindE (maybe_cell has_reads (Inr (GetMin rh))) (\<lambda>r0. bindE (maybe_cell has_writes (Inr (GetMin wh))) (\<lambda>w0.
        bindE (foldE (\<lambda>p out. bindE (percentile_row rh wh th p) (\<lambda>x. Inr (out @ [x]))) percentiles []) (\<lambda>body.
        bindE (maybe_cell has_reads (Inr (GetMax rh))) (\<lambda>r1. bindE (maybe_cell has_writes (Inr (GetMax wh))) (\<lambda>w1.
          Inr ([(''  %%-ile |'' @ tab ''Read (ms) | Write (ms) | Total (ms)\<newline>'', []),
              (''----------------------------------------------\<newline>'', []),
              (''    min | %10s | %10s | %10.3lf\<newline>'', [r0, w0, Dbl (in_ms (GetMin th))])] @ body @
            [(''    max | %10s | %10s | %10.3lf\<newline>'', [r1, w1, Dbl (in_ms (GetMax th))]), (''\<newline>'', [])])))))))"

section \<open>The parameters and the cpu usage\<close>

definition target_lines :: "job_options \<Rightarrow> target \<Rightarrow> printed list" where
  "target_lines opt t =
    [(tab ''path: '' @ [CHR 0x27] @ ''%s'' @ [CHR 0x27] @ ''\<newline>'', [Str (path t)]), (tab (tab ''size: %luB\<newline>''), [U (tsize t)])] @
    (if open_flags t AND O_DIRECT \<noteq> 0 then [(tab (tab ''using O_DIRECT\<newline>''), [])] else []) @
    (if open_flags t AND O_SYNC \<noteq> 0 then [(tab (tab ''using O_SYNC\<newline>''), [])] else []) @
    [(tab (tab ''performing mix test (read/write ratio: %u/%u)\<newline>''), [N (100 - write_percentage t), N (write_percentage t)]),
     (tab (tab ''block size: %lu\<newline>''), [U (block_size t)]),
     (if use_random_alignment t then (tab (tab ''using random I/O (alignment: %lu)\<newline>''), [U (stride t)])
      else if use_interlocked t then (tab (tab ''using interlocked sequential I/O (stride: %lu)\<newline>''), [U (stride t)])
      else (tab (tab ''using sequential I/O (stride: %lu)\<newline>''), [U (stride t)])),
     (tab (tab ''number of outstanding I/O operations: %u)\<newline>''), [N (overlap t)])] @
    (if base_offset t \<noteq> 0 then [(tab (tab ''base file offset: %lu bytes\<newline>''), [U (base_offset t)])] else []) @
    (if max_size t \<noteq> tsize t then [(tab (tab ''max file size: %lu bytes\<newline>''), [U (max_size t)])] else []) @
    [(tab (tab ''thread stride size: %lu\<newline>''), [U (thread_offset t)])] @
    (if zero_buffers t then [(tab (tab ''zeroing I/O buffers\<newline>''), [])]
     else if rand_buffers t then [(tab (tab ''filling I/O buffers with random data\<newline>''), [])] else []) @
    (if separate_buffers t then [(tab (tab ''separating read and write buffers\<newline>''), [])] else []) @
    (if \<not> use_total_threads opt then [(tab (tab ''threads per file: %u\<newline>''), [N (threads_per_target t)])] else []) @
    [(tab (tab ''block device: %s\<newline>''), [Str (device t)]), (tab (tab ''device scheduler: %s\<newline>''), [Str (scheduler t)])]"

definition all_threads :: "job_options \<Rightarrow> target list \<Rightarrow> u32" where
  "all_threads opt ts =
    (let n = (if use_total_threads opt then total_threads opt else 0)
     in if n = 0 then fold (\<lambda>t s. s + threads_per_target t) ts n else n)"

definition parameter_lines :: "u32 \<Rightarrow> job_report \<Rightarrow> printed list" where
  "parameter_lines jobnum job =
    (let opt = report_options job
     in [(''Input parameters:\<newline>\<newline>'', []), (tab ''job:   %u\<newline>'', [N jobnum]), (tab ''________\<newline>'', []),
         (tab ''duration: %us\<newline>'', [N (duration opt)]), (tab ''warm up time: %us\<newline>'', [N (warmup_time opt)])] @
        (if measure_latency opt then [(tab ''measuring latency\<newline>'', [])] else []) @
        (if measure_iops_std_dev opt
         then [(tab ''gathering IOPs at intervals of %ums\<newline>'', [N (io_bucket_duration_ms opt)])] else []) @
        [if use_time_seed opt then (tab '' using random_device for seed\<newline>'', []) else (tab ''random seed: %lu\<newline>'', [U (rand_seed opt)]),
         (tab ''total threads: %u\<newline>'', [N (all_threads opt (report_targets job))])] @
        concat (map (target_lines opt) (report_targets job)) @
        [(''\<newline>'', []), (''Results for job %u:\<newline>'', [N jobnum]), (''test time:         %us\<newline>'', [N (duration opt)]),
         (''*****************************************************\<newline>\<newline>'', [])])"

text \<open>One cpu: its percentages are added to the totals column by column and printed.\<close>

definition cpu_row ::
  "nat \<Rightarrow> u32 \<times> double list \<Rightarrow> double list \<times> printed list \<Rightarrow> fault + double list \<times> printed list" where
  "cpu_row num_cpu_fields = (\<lambda>(cpu, usage) (totals, out).
    if length usage < num_cpu_fields then Inl Undefined
    else Inr (map2 (+) totals (map (\<lambda>x. x * 100) (take num_cpu_fields usage)),
      out @ [(''%5u '', [N cpu])] @ map (\<lambda>x. (''| %6.2lf%% '', [Dbl (x * 100)])) (take num_cpu_fields usage) @ [(''\<newline>'', [])]))"

definition cpu_table :: "sys_info \<Rightarrow> (u32 \<times> double list) list \<Rightarrow> fault + printed list" where
  "cpu_table si usage =
    (if usage = [] then Inl Undefined
     else
       let num_cpu_fields = length (snd (hd usage)); bar = (''-------------------------------------------------------\<newline>'', [])
       in bindE (foldE (cpu_row num_cpu_fields) usage (replicate num_cpu_fields 0, [])) (\<lambda>(totals, out).
          bindE (foldE (\<lambda>i avgs. bindE (fdiv (totals ! i) (real (card (online_cpus si)))) (\<lambda>u.
              Inr (avgs @ [(''%6.2lf%%%s'', [Dbl u, Str (if i = num_cpu_fields - 1 then ''\<newline>'' else '' | '')])]))) [0..<num_cpu_fields] [])
            (\<lambda>avgs. Inr ([('' CPU  |  Usage  |   User  |  Kernel | IO Wait |   Idle \<newline>'', []), bar] @ out @
               [bar, ('' avg:'' @ tab '''', [])] @ avgs @ [(''\<newline>'', [])]))))"

section \<open>output_results\<close>

text \<open>The body of the loop over the jobs up to the latencies.\<close>

definition job_section :: "sys_info \<Rightarrow> u32 \<Rightarrow> job_report \<Rightarrow> fault + printed list" where
  "job_section si jobnum job =
    bindE (cpu_table si (report_usage job)) (\<lambda>cpus.
    bindE (print_iops RW_T job) (\<lambda>rw. bindE (print_iops READ_T job) (\<lambda>rd. bindE (print_iops WRITE_T job) (\<lambda>wr.
      Inr (parameter_lines jobnum job @ cpus @ [(''Total IO\<newline>'', [])] @ rw @ [(''Read IO\<newline>'', [])] @ rd @
        [(''Write IO\<newline>'', [])] @ wr @ [(''\<newline>'', [])])))))"

text \<open>The loop: the first job that does not measure latencies ends it.\<close>

primrec print_jobs :: "sys_info \<Rightarrow> u32 \<Rightarrow> job_report list \<Rightarrow> fault + printed list" where
  "print_jobs si jobnum [] = Inr []"
| "print_jobs si jobnum (job # reports) =
    bindE (job_section si jobnum job) (\<lambda>out.
      if \<not> measure_latency (report_options job) then Inr out
      else bindE (latency_table job) (\<lambda>lat.
           bindE (print_jobs si (jobnum + 1) reports) (\<lambda>rest. Inr (out @ lat @ rest))))"

definition output_results :: "string \<Rightarrow> sys_info \<Rightarrow> job_report list \<Rightarrow> fault + printed list" where
  "output_results line si reports =
    bindE (print_jobs si 1 reports) (\<lambda>out.
      Inr ([(''\<newline>Command Line: %s\<newline>\<newline>'', [Str line]), (''System info:\<newline>'', []),
            (tab ''processor count: %lu\<newline>'', [U (of_nat (card (online_cpus si)))])] @
           (if caching_options si \<noteq> '''' then [(tab ''caching options: %s\<newline>'', [Str (caching_options si)])] else []) @
           [(''\<newline>'', [])] @ out))"



section \<open>What the loops accumulate\<close>

text \<open>Of the reads, of the writes, or of both.\<close>

definition of_kind :: "io_kind \<Rightarrow> 'a::plus \<Rightarrow> 'a \<Rightarrow> 'a" where
  "of_kind t r w = (if t = READ_T then r else if t = WRITE_T then w else r + w)"

definition kind_latencies :: "io_kind \<Rightarrow> target_results \<Rightarrow> u64 multiset" where
  "kind_latencies t r = of_kind t (hist_samples (read_latency_histogram r)) (hist_samples (write_latency_histogram r))"

definition kind_buckets :: "io_kind \<Rightarrow> target_results \<Rightarrow> nat multiset" where
  "kind_buckets t r = of_kind t (bucket_samples (read_bucketizer r)) (bucket_samples (write_bucketizer r))"

definition containers_ok :: "target_results \<Rightarrow> bool" where
  "containers_ok r \<longleftrightarrow> histogram_inv (read_latency_histogram r) \<and> histogram_inv (write_latency_histogram r) \<and>
    bucketizer_inv (read_bucketizer r) \<and> bucketizer_inv (write_bucketizer r)"

lemma bucketizer_empty [simp]: "bucketizer_inv IoBucketizer" "bucket_samples IoBucketizer = {#}"
  by (simp_all add: bucketizer_inv_def IoBucketizer_def bucket_samples_def)

lemma curr_histogram_ok:
  assumes "containers_ok r" and "size (kind_latencies t r) < 2 ^ 32"
  shows "histogram_inv (curr_histogram t r) \<and> hist_samples (curr_histogram t r) = kind_latencies t r"
  using assms
  by (cases t) (simp_all add: curr_histogram_def kind_latencies_def of_kind_def containers_ok_def Let_def
      histogram.merge_inv histogram.merge_samples)

lemma curr_bucketizer_ok:
  assumes "containers_ok r" and "size (kind_buckets t r) < 2 ^ 32"
  shows "bucketizer_inv (curr_bucketizer t r) \<and> bucket_samples (curr_bucketizer t r) = kind_buckets t r"
  using assms
  by (cases t) (simp_all add: curr_bucketizer_def kind_buckets_def of_kind_def containers_ok_def Let_def
      bucketizer.merge_inv bucketizer.merge_samples)

lemma iops_row_fields:
  assumes "iops_row opt t (i, target, r) s = Inr s'"
  shows "\<exists>args c. rate_args opt (bytes_of t r) (iops_of t r) = Inr args \<and>
    total_bytes s' = total_bytes s + bytes_of t r \<and> total_iops s' = total_iops s + iops_of t r \<and>
    total_bucketizer s' = (if measure_iops_std_dev opt then bucketizer_Merge (total_bucketizer s) (curr_bucketizer t r)
      else total_bucketizer s) \<and>
    total_histogram s' = (if measure_latency opt then histogram_Merge (total_histogram s) (curr_histogram t r)
      else total_histogram s) \<and>
    rows s' = rows s @ [(row_format, N i # args)] @ c @
      [(''| %s (%lu%s)'', [Str (path target), U (tsize target), Str ''B'']), (''\<newline>'', [])] \<and>
    (\<forall>p \<in> set c. fst p \<noteq> row_format \<and> fst p \<noteq> total_format)"
  using assms
  by (auto simp: iops_row_def bindE_Inr_iff deviation_cell_def latency_cells_def Let_def row_format_def total_format_def
      split: if_splits)

lemma iops_rows_fold:
  assumes "foldE (iops_row opt t) rs s = Inr s'"
  shows "total_bytes s' = total_bytes s + (\<Sum>(i, target, r) \<leftarrow> rs. bytes_of t r) \<and>
    total_iops s' = total_iops s + (\<Sum>(i, target, r) \<leftarrow> rs. iops_of t r) \<and>
    (measure_iops_std_dev opt \<longrightarrow> total_bucketizer s' =
      fold (\<lambda>g h. bucketizer_Merge h g) (map (\<lambda>(i, target, r). curr_bucketizer t r) rs) (total_bucketizer s)) \<and>
    (measure_latency opt \<longrightarrow> total_histogram s' =
      fold (\<lambda>g h. histogram_Merge h g) (map (\<lambda>(i, target, r). curr_histogram t r) rs) (total_histogram s)) \<and>
    filter (\<lambda>p. fst p = total_format) (rows s') = filter (\<lambda>p. fst p = total_format) (rows s) \<and>
    map (Inr \<circ> snd) (filter (\<lambda>p. fst p = row_format) (rows s')) =
      map (Inr \<circ> snd) (filter (\<lambda>p. fst p = row_format) (rows s)) @
      map (\<lambda>(i, target, r). bindE (rate_args opt (bytes_of t r) (iops_of t r)) (\<lambda>args. Inr (N i # args))) rs"
  using assms
proof (induction rs arbitrary: s)
  case Nil
  then show ?case by simp
next
  case (Cons x rs)
  obtain i target r where x: "x = (i, target, r)" by (cases x) auto
  from Cons.prems obtain s1 where s1: "iops_row opt t (i, target, r) s = Inr s1" and rest: "foldE (iops_row opt t) rs s1 = Inr s'"
    by (auto simp: x bindE_Inr_iff)
  from iops_row_fields [OF s1] obtain args c where
    a: "rate_args opt (bytes_of t r) (iops_of t r) = Inr args" and
    f: "total_bytes s1 = total_bytes s + bytes_of t r" "total_iops s1 = total_iops s + iops_of t r"
      "measure_iops_std_dev opt \<Longrightarrow> total_bucketizer s1 = bucketizer_Merge (total_bucketizer s) (curr_bucketizer t r)"
      "measure_latency opt \<Longrightarrow> total_histogram s1 = histogram_Merge (total_histogram s) (curr_histogram t r)"
      "rows s1 = rows s @ [(row_format, N i # args)] @ c @
        [(''| %s (%lu%s)'', [Str (path target), U (tsize target), Str ''B'']), (''\<newline>'', [])]"
    and c: "\<forall>p \<in> set c. fst p \<noteq> row_format \<and> fst p \<noteq> total_format" by auto
  have e: "filter (\<lambda>p. fst p = row_format) c = []" "filter (\<lambda>p. fst p = total_format) c = []"
    using c by (auto simp: filter_empty_conv)
  have "filter (\<lambda>p. fst p = total_format) (rows s1) = filter (\<lambda>p. fst p = total_format) (rows s)"
    "filter (\<lambda>p. fst p = row_format) (rows s1) = filter (\<lambda>p. fst p = row_format) (rows s) @ [(row_format, N i # args)]"
    using e by (simp_all add: f(5)) (simp_all add: row_format_def total_format_def)
  with Cons.IH [OF rest] f(1-4) a show ?case by (simp add: x add.assoc)
qed

lemma latency_cells_value:
  assumes "histogram_inv h" and "hist_samples h \<noteq> {#}"
  shows "latency_cells nv h = Inr [(''|    %8.3lf '', [Dbl (sample_mean (hist_samples h) / 1000)]),
    (''|    %8.3lf '', [Dbl (sqrt (sample_sum (\<lambda>x. (x - sample_mean (hist_samples h))\<^sup>2) (hist_samples h)
      / real (size (hist_samples h))) / 1000)])]"
proof -
  have "unat (samples h) \<noteq> 0" using assms by (simp add: histogram_inv_def)
  then have "0 < GetSampleSize h" by (simp add: GetSampleSize_def unat_gt_0 word_neq_0_conv)
  with assms show ?thesis by (simp add: latency_cells_def GetAvg_def GetMean_eq GetStdDev_eq Let_def)
qed

section \<open>The latencies of a job\<close>

definition reads_of :: "u32 \<times> target \<times> target_results \<Rightarrow> u64 multiset" where
  "reads_of = (\<lambda>(i, t, r). hist_samples (read_latency_histogram r))"

definition writes_of :: "u32 \<times> target \<times> target_results \<Rightarrow> u64 multiset" where
  "writes_of = (\<lambda>(i, t, r). hist_samples (write_latency_histogram r))"

text \<open>The samples the third histogram gets: each result once for itself and once for every later one.\<close>

primrec repeated :: "u64 multiset list \<Rightarrow> u64 multiset" where
  "repeated [] = {#}"
| "repeated (M # Ms) = repeat_mset (length Ms + 1) M + repeated Ms"

lemma repeated_snoc: "repeated (Ms @ [M]) = repeated Ms + sum_list Ms + M"
  by (induction Ms) (simp_all add: ac_simps)

definition all_of :: "u32 \<times> target \<times> target_results \<Rightarrow> u64 multiset" where
  "all_of x = reads_of x + writes_of x"

lemma sum_all_of: "sum_list (map all_of rs) = sum_list (map reads_of rs) + sum_list (map writes_of rs)"
  by (induction rs) (simp_all add: all_of_def ac_simps)

lemma size_sum_list: "size (sum_list (Ms :: 'a multiset list)) = sum_list (map size Ms)"
  by (induction Ms) simp_all

lemma latencies_fold:
  assumes "\<forall>(i, t, r) \<in> set rs. containers_ok r" and "size (repeated (map all_of rs)) < 2 ^ 32"
    and "fold (\<lambda>(i, t, r). merge_latencies r) rs (Histogram, Histogram, Histogram) = (rh, wh, th)"
  shows "histogram_inv rh \<and> histogram_inv wh \<and> histogram_inv th \<and> hist_samples rh = sum_list (map reads_of rs) \<and>
    hist_samples wh = sum_list (map writes_of rs) \<and> hist_samples th = repeated (map all_of rs)"
  using assms
proof (induction rs arbitrary: rh wh th rule: rev_induct)
  case Nil
  then show ?case by simp
next
  case (snoc x rs)
  obtain i t r where x: "x = (i, t, r)" by (cases x) auto
  obtain rh0 wh0 th0 where f: "fold (\<lambda>(i, t, r). merge_latencies r) rs (Histogram, Histogram, Histogram) = (rh0, wh0, th0)"
    by (metis prod_cases3)
  let ?R = "sum_list (map reads_of rs)" and ?W = "sum_list (map writes_of rs)"
  have sz: "size (repeated (map all_of rs)) + size ?R + size ?W + size (reads_of x) + size (writes_of x) < 2 ^ 32"
    using snoc.prems(2) by (simp add: repeated_snoc sum_all_of all_of_def [of x])
  with snoc.IH [OF _ _ f] snoc.prems(1) have
    h: "histogram_inv rh0" "histogram_inv wh0" "histogram_inv th0" "hist_samples rh0 = ?R" "hist_samples wh0 = ?W"
      "hist_samples th0 = repeated (map all_of rs)" by auto
  have r: "histogram_inv (read_latency_histogram r)" "histogram_inv (write_latency_histogram r)"
    "hist_samples (read_latency_histogram r) = reads_of x" "hist_samples (write_latency_histogram r) = writes_of x"
    using snoc.prems(1) by (simp_all add: x containers_ok_def reads_of_def writes_of_def)
  have m: "rh = histogram_Merge rh0 (read_latency_histogram r)" "wh = histogram_Merge wh0 (write_latency_histogram r)"
    "th = histogram_Merge (histogram_Merge th0 rh) wh"
    using snoc.prems(3) f by (auto simp: x merge_latencies_def Let_def)
  have rw: "histogram_inv rh" "hist_samples rh = ?R + reads_of x" "histogram_inv wh" "hist_samples wh = ?W + writes_of x"
    using h r sz by (simp_all add: m(1,2) histogram.merge_inv histogram.merge_samples)
  have "histogram_inv (histogram_Merge th0 rh)" "hist_samples (histogram_Merge th0 rh) = repeated (map all_of rs) + (?R + reads_of x)"
    using h rw sz by (simp_all add: histogram.merge_inv histogram.merge_samples)
  with rw sz have "histogram_inv th" "hist_samples th = repeated (map all_of rs) + (?R + reads_of x) + (?W + writes_of x)"
    by (simp_all add: m(3) histogram.merge_inv histogram.merge_samples)
  with rw show ?case by (simp add: repeated_snoc sum_all_of all_of_def [of x] ac_simps)
qed

section \<open>Properties\<close>

text \<open>
  C23. The table of the IOPS has one row for each target of each thread, in order, with its operations and
  bytes (in total and per second), and one total row, with the sums over all the rows; and when the
  results are consistent, as the workers leave them, the bytes of the table of all operations are those
  of the table of the reads plus those of the table of the writes.
\<close>

theorem report_rows_and_totals:
  assumes "print_iops t job = Inr out"
  shows "map (Inr \<circ> snd) (filter (\<lambda>p. fst p = row_format) out) =
      map (\<lambda>(i, target, r). bindE (rate_args (report_options job) (bytes_of t r) (iops_of t r)) (\<lambda>args. Inr (N i # args)))
        (flat_results (thread_results job)) \<and>
    map (Inr \<circ> snd) (filter (\<lambda>p. fst p = total_format) out) =
      [rate_args (report_options job) (\<Sum>(i, target, r) \<leftarrow> flat_results (thread_results job). bytes_of t r)
        (\<Sum>(i, target, r) \<leftarrow> flat_results (thread_results job). iops_of t r)] \<and>
    ((\<forall>(i, target, r) \<in> set (flat_results (thread_results job)). results_ok (block_size target) r) \<longrightarrow>
      (\<Sum>(i, target, r) \<leftarrow> flat_results (thread_results job). bytes_of RW_T r) =
      (\<Sum>(i, target, r) \<leftarrow> flat_results (thread_results job). bytes_of READ_T r) +
      (\<Sum>(i, target, r) \<leftarrow> flat_results (thread_results job). bytes_of WRITE_T r))"
proof -
  let ?opt = "report_options job" and ?rs = "flat_results (thread_results job)"
  from assms obtain s args c where f: "foldE (iops_row ?opt t) ?rs start_totals = Inr s"
    and a: "rate_args ?opt (total_bytes s) (total_iops s) = Inr args"
    and c: "\<forall>p \<in> set c. fst p \<noteq> row_format \<and> fst p \<noteq> total_format"
    and out: "out = [iops_head ?opt] @ iops_bar ?opt @ rows s @ iops_bar ?opt @ [(total_format, args)] @ c @ [(''\<newline>\<newline>'', [])]"
    by (auto simp: print_iops_def Let_def bindE_Inr_iff deviation_cell_def latency_cells_def row_format_def total_format_def
        tab_def split: if_splits)
  have e: "filter (\<lambda>p. fst p = row_format) c = []" "filter (\<lambda>p. fst p = total_format) c = []"
    using c by (auto simp: filter_empty_conv)
  have e3: "filter (\<lambda>p. fst p = row_format) (iops_bar ?opt) = []" "filter (\<lambda>p. fst p = total_format) (iops_bar ?opt) = []"
    "fst (iops_head ?opt) \<noteq> row_format" "fst (iops_head ?opt) \<noteq> total_format" "total_format \<noteq> row_format"
    "row_format \<noteq> ''\<newline>\<newline>''" "total_format \<noteq> ''\<newline>\<newline>''"
    by (simp_all add: iops_bar_def iops_head_def row_format_def total_format_def)
  have "(\<Sum>(i, target, r) \<leftarrow> rs. bytes_of RW_T r) = (\<Sum>(i, target, r) \<leftarrow> rs. bytes_of READ_T r) + (\<Sum>(i, target, r) \<leftarrow> rs. bytes_of WRITE_T r)"
    if "\<forall>(i, target, r) \<in> set rs. results_ok (block_size target) r" for rs :: "(u32 \<times> target \<times> target_results) list"
    using that by (induction rs) (auto simp: bytes_of_def iops_get_def results_ok_def)
  moreover note iops_rows_fold [OF f]
  ultimately show ?thesis
    using e e3 a by (auto simp: out start_totals_def)
qed

text \<open>Two threads on a file of 64 bytes: one read of 10 us, and two writes of 20 us.\<close>

definition small_file :: target where
  "small_file = (Target ''f'')\<lparr>tsize := 64, max_size := 64, block_size := 16, stride := 16\<rparr>"

definition one_read :: target_results where
  "one_read = TargetResults\<lparr>bytes_count := 16, read_bytes_count := 16, iops_count := 1, read_iops_count := 1,
     read_latency_histogram := \<lparr>samples = 1, hdata = [(10, 1)]\<rparr>\<rparr>"

definition two_writes :: target_results where
  "two_writes = TargetResults\<lparr>bytes_count := 32, write_bytes_count := 32, iops_count := 2, write_iops_count := 2,
     write_latency_histogram := \<lparr>samples = 2, hdata = [(20, 2)]\<rparr>\<rparr>"

definition small_report :: "job_options \<Rightarrow> job_report" where
  "small_report opt = \<lparr>report_options = opt, report_targets = [small_file],
     thread_results = [(0, [(small_file, one_read)]), (1, [(small_file, two_writes)])], report_usage = []\<rparr>"

lemma small_flat: "flat_results (thread_results (small_report opt)) =
    [(0, small_file, one_read), (1, small_file, two_writes)]"
  by (simp add: flat_results_def small_report_def)

lemma small_results: "\<forall>(i, target, r) \<in> set (flat_results (thread_results (small_report opt))). results_ok (block_size target) r"
  by (simp add: small_flat results_ok_def small_file_def one_read_def two_writes_def TargetResults_def)

lemma report_rows_and_totals_witness:
  "\<exists>out. print_iops RW_T (small_report JobOptions) = Inr out \<and>
    map (Inr \<circ> snd) (filter (\<lambda>p. fst p = total_format) out) = [rate_args JobOptions 48 3]"
proof -
  have "\<exists>out. print_iops RW_T (small_report JobOptions) = Inr out"
    by (simp add: print_iops_def small_flat) (simp add: small_report_def iops_row_def rate_args_def fdiv_def JobOptions_def Let_def)
  then obtain out where o: "print_iops RW_T (small_report JobOptions) = Inr out" ..
  have b: "(\<Sum>(i, target, r) \<leftarrow> flat_results (thread_results (small_report JobOptions)). bytes_of RW_T r) = 48"
    "(\<Sum>(i, target, r) \<leftarrow> flat_results (thread_results (small_report JobOptions)). iops_of RW_T r) = 3"
    by (simp_all add: small_flat bytes_of_def iops_of_def iops_get_def one_read_def two_writes_def)
  have j: "report_options (small_report JobOptions) = JobOptions" by (simp add: small_report_def)
  from conjunct1 [OF conjunct2 [OF report_rows_and_totals [OF o]]]
  have "map (Inr \<circ> snd) (filter (\<lambda>p. fst p = total_format) out) = [rate_args JobOptions 48 3]"
    unfolding b j .
  with o show ?thesis by (intro exI [of _ out] conjI)
qed

text \<open>
  C24. The total row stands for all operations: the bucketizer and the histogram that the loop accumulates
  hold the completions and the latencies of all rows (of the kind of the table), so that with \<open>-L\<close> the
  total row prints the mean and the standard deviation of all latencies.
\<close>

theorem report_deviations_of_all:
  assumes "foldE (iops_row opt t) rs start_totals = Inr s" and "measure_latency opt" and "measure_iops_std_dev opt"
    and "\<forall>(i, target, r) \<in> set rs. containers_ok r"
    and "(\<Sum>(i, target, r) \<leftarrow> rs. size (kind_latencies t r)) < 2 ^ 32" and "(\<Sum>(i, target, r) \<leftarrow> rs. size (kind_buckets t r)) < 2 ^ 32"
  defines "M \<equiv> (\<Sum>(i, target, r) \<leftarrow> rs. kind_latencies t r)"
  shows "bucket_samples (total_bucketizer s) = (\<Sum>(i, target, r) \<leftarrow> rs. kind_buckets t r) \<and>
    hist_samples (total_histogram s) = M \<and>
    (M \<noteq> {#} \<longrightarrow> latency_cells nv (total_histogram s) = Inr [(''|    %8.3lf '', [Dbl (sample_mean M / 1000)]),
      (''|    %8.3lf '', [Dbl (sqrt (sample_sum (\<lambda>x. (x - sample_mean M)\<^sup>2) M / real (size M)) / 1000)])])"
proof -
  have small: "size (kind_latencies t r) < 2 ^ 32 \<and> size (kind_buckets t r) < 2 ^ 32" if "(i, target, r) \<in> set rs" for i target r
    using that assms(5,6) member_le_sum_list [of "size (kind_latencies t r)" "map (\<lambda>(i, target, r). size (kind_latencies t r)) rs"]
      member_le_sum_list [of "size (kind_buckets t r)" "map (\<lambda>(i, target, r). size (kind_buckets t r)) rs"]
    by force
  define hs where "hs = map (\<lambda>(i, target, r). curr_histogram t r) rs"
  define bs where "bs = map (\<lambda>(i, target, r). curr_bucketizer t r) rs"
  have h: "\<forall>g \<in> set hs. histogram_inv g" "map hist_samples hs = map (\<lambda>(i, target, r). kind_latencies t r) rs"
    and b: "\<forall>g \<in> set bs. bucketizer_inv g" "map bucket_samples bs = map (\<lambda>(i, target, r). kind_buckets t r) rs"
    using assms(4) small curr_histogram_ok curr_bucketizer_ok unfolding hs_def bs_def by fastforce+
  have sz: "map (\<lambda>g. size (hist_samples g)) hs = map (\<lambda>(i, target, r). size (kind_latencies t r)) rs"
      "map (\<lambda>g. size (bucket_samples g)) bs = map (\<lambda>(i, target, r). size (kind_buckets t r)) rs"
    using arg_cong [OF h(2), of "map size"] arg_cong [OF b(2), of "map size"] by (simp_all add: comp_def case_prod_unfold)
  have tot: "total_histogram s = fold (\<lambda>g h. histogram_Merge h g) hs Histogram"
      "total_bucketizer s = fold (\<lambda>g h. bucketizer_Merge h g) bs IoBucketizer"
    using iops_rows_fold [OF assms(1)] assms(2,3) by (simp_all add: start_totals_def hs_def bs_def)
  from histogram.merge_all [of Histogram, OF _ h(1)] assms(5) have H: "histogram_inv (total_histogram s)"
    "hist_samples (total_histogram s) = M" by (simp_all add: tot sz h(2) M_def)
  from bucketizer.merge_all [of IoBucketizer, OF _ b(1)] assms(6)
  have "bucket_samples (total_bucketizer s) = (\<Sum>(i, target, r) \<leftarrow> rs. kind_buckets t r)" by (simp add: tot sz b(2))
  with H latency_cells_value [OF H(1)] show ?thesis by simp
qed

text \<open>
  C25. The column \<open>Total\<close> of the percentiles is not computed from the latencies of the job: the loop merges
  the reads and writes accumulated so far into the total after every result, so the first of \<open>n\<close>
  results is counted \<open>n\<close> times and the last once. The columns of the reads and of the writes are
  right. In the witness the median of the latencies 10, 20 and 20 is printed as 10.
\<close>

theorem latency_totals_repeat:
  assumes "\<forall>(i, t, r) \<in> set (flat_results (thread_results job)). containers_ok r"
    and "size (repeated (map all_of (flat_results (thread_results job)))) < 2 ^ 32"
    and "job_latencies job = (rh, wh, th)"
  shows "hist_samples rh = sum_list (map reads_of (flat_results (thread_results job))) \<and>
    hist_samples wh = sum_list (map writes_of (flat_results (thread_results job))) \<and>
    hist_samples th = repeated (map all_of (flat_results (thread_results job)))"
  using latencies_fold [OF assms(1,2)] assms(3) by (simp add: job_latencies_def)

lemma latency_totals_repeat_witness:
  "\<exists>rh wh th. job_latencies (small_report JobOptions) = (rh, wh, th) \<and> hist_samples th = {#10, 10, 20, 20#} \<and>
    hist_samples rh + hist_samples wh = {#10, 20, 20#} \<and> GetPercentile 0.5 th = Inr 10"
proof -
  obtain rh wh th where j: "job_latencies (small_report JobOptions) = (rh, wh, th)" by (metis prod_cases3)
  have two: "replicate_mset 2 x = {#x, x#}" "repeat_mset 2 {#x#} = {#x, x#}" for x :: u64 by (simp_all add: numeral_2_eq_2)
  have e: "map all_of (flat_results (thread_results (small_report JobOptions))) = [{#10#}, {#20, 20#}]"
    "map reads_of (flat_results (thread_results (small_report JobOptions))) = [{#10#}, {#}]"
    "map writes_of (flat_results (thread_results (small_report JobOptions))) = [{#}, {#20, 20#}]"
    by (simp_all add: small_flat all_of_def reads_of_def writes_of_def hist_samples_def one_read_def two_writes_def
        TargetResults_def Histogram_def two)
  have c: "\<forall>(i, t, r) \<in> set (flat_results (thread_results (small_report JobOptions))). containers_ok r"
    by (simp add: small_flat containers_ok_def one_read_def two_writes_def TargetResults_def histogram_inv_def hist_samples_def Histogram_def)
  have "GetPercentile 0.5 th = Inr 10"
    using j by (simp add: job_latencies_def small_flat merge_latencies_def Let_def one_read_def two_writes_def TargetResults_def
        histogram_Merge_def Histogram_def GetPercentile_def GetSampleSize_def GetSortedData_def)
      (auto simp: GetSampleSize_def)
  with latency_totals_repeat [OF c _ j] j show ?thesis by (simp add: e two)
qed

text \<open>
  C26. With \<open>-L\<close> and no operation recorded the report fails: the percentiles of the total are asked for
  without a check of the sample size, \<open>GetPercentile\<close> throws \<open>std::runtime_error\<close>, and nothing
  catches it.
\<close>

theorem latency_report_needs_operations:
  assumes "\<forall>(i, t, r) \<in> set (flat_results (thread_results job)).
      read_latency_histogram r = Histogram \<and> write_latency_histogram r = Histogram"
  shows "latency_table job = Inl Runtime_Error"
proof -
  have m: "histogram_Merge Histogram Histogram = Histogram" by (simp add: histogram_Merge_def Histogram_def)
  have "fold (\<lambda>(i, target, r). merge_latencies r) rs (Histogram, Histogram, Histogram) = (Histogram, Histogram, Histogram)"
    if "\<forall>(i, t, r) \<in> set rs. read_latency_histogram r = Histogram \<and> write_latency_histogram r = Histogram"
    for rs :: "(u32 \<times> target \<times> target_results) list"
    using that by (induction rs) (auto simp: merge_latencies_def m)
  from this [OF assms] have j: "job_latencies job = (Histogram, Histogram, Histogram)" by (simp add: job_latencies_def)
  have "GetPercentile (25 / 100) Histogram = Inl Runtime_Error"
    by (simp add: GetPercentile_def GetSortedData_def Histogram_def)
  then show ?thesis
    by (simp add: latency_table_def j Let_def percentiles_def percentile_row_def maybe_cell_def)
qed

lemma latency_report_needs_operations_witness:
  "latency_table \<lparr>report_options = JobOptions\<lparr>measure_latency := True\<rparr>, report_targets = [small_file],
     thread_results = [(0, [(small_file, TargetResults)])], report_usage = []\<rparr> = Inl Runtime_Error"
  by (rule latency_report_needs_operations) (simp add: flat_results_def TargetResults_def)

lemma report_deviations_of_all_witness:
  "\<exists>s. foldE (iops_row (JobOptions\<lparr>measure_latency := True, measure_iops_std_dev := True\<rparr>) RW_T)
      (flat_results (thread_results (small_report JobOptions))) start_totals = Inr s \<and>
    hist_samples (total_histogram s) = {#10, 20, 20#} \<and>
    latency_cells '''' (total_histogram s) = Inr [(''|    %8.3lf '', [Dbl (50 / 3 / 1000)]),
      (''|    %8.3lf '', [Dbl (sqrt ((10 - 50 / 3)\<^sup>2 / 3 + 2 * (20 - 50 / 3)\<^sup>2 / 3) / 1000)])]"
proof -
  let ?o = "JobOptions\<lparr>measure_latency := True, measure_iops_std_dev := True\<rparr>"
    and ?rs = "flat_results (thread_results (small_report JobOptions))"
  have h: "curr_histogram RW_T one_read = \<lparr>samples = 1, hdata = [(10, 1)]\<rparr>"
    "curr_histogram RW_T two_writes = \<lparr>samples = 2, hdata = [(20, 2)]\<rparr>"
    by (simp_all add: curr_histogram_def histogram_Merge_def one_read_def two_writes_def TargetResults_def Histogram_def)
  have c: "\<exists>x. latency_cells nv (curr_histogram RW_T r) = Inr x" if "r \<in> {one_read, two_writes}" for r nv
    using that by (auto simp: h latency_cells_def GetAvg_def GetMean_def GetStdDev_def histogram_GetStandardDeviation_def
        mean_step_def fdiv_def GetSampleSize_def)
  have row: "\<exists>s'. iops_row ?o RW_T (i, t, r) s = Inr s'" if r: "r \<in> {one_read, two_writes}" for i t r s
  proof -
    obtain a where "rate_args ?o (bytes_of RW_T r) (iops_of RW_T r) = Inr a" by (simp add: rate_args_def fdiv_def JobOptions_def)
    moreover obtain d where "deviation_cell ?o (curr_bucketizer RW_T r) = Inr d"
      by (simp add: deviation_cell_def fdiv_def JobOptions_def)
    moreover obtain x where "latency_cells ''|       N/A '' (curr_histogram RW_T r) = Inr x" using c [OF r] by blast
    ultimately show ?thesis by (simp add: iops_row_def)
  qed
  obtain s1 where s1: "iops_row ?o RW_T (0, small_file, one_read) start_totals = Inr s1" using row by blast
  obtain s where "iops_row ?o RW_T (1, small_file, two_writes) s1 = Inr s" using row by blast
  with s1 have f: "foldE (iops_row ?o RW_T) ?rs start_totals = Inr s" by (simp add: small_flat)
  have two: "replicate_mset 2 x = {#x, x#}" for x :: u64 by (simp add: numeral_2_eq_2)
  have k: "kind_latencies RW_T one_read = {#10#}" "kind_latencies RW_T two_writes = {#20, 20#}"
    "kind_buckets RW_T one_read = {#}" "kind_buckets RW_T two_writes = {#}"
    by (simp_all add: kind_latencies_def kind_buckets_def of_kind_def hist_samples_def one_read_def two_writes_def
        TargetResults_def Histogram_def two)
  have "\<forall>(i, t, r) \<in> set ?rs. containers_ok r"
    by (simp add: small_flat containers_ok_def one_read_def two_writes_def TargetResults_def histogram_inv_def hist_samples_def Histogram_def)
  from report_deviations_of_all [OF f _ _ this, of "''''"] f show ?thesis
    by (auto simp: small_flat k sample_mean_def sample_sum_def add_divide_distrib intro!: exI [of _ s])
qed

end
