(* ===== verification/Program.thy ===== *)
theory Program
  imports Workers Result_Formatter
begin

text \<open>
  The program as a whole (\<open>src/src/diskspd.cc\<close>): \<open>main\<close>, the workers that a job hands to its threads, and
  the lemmas that carry the facts about an accepted command line through the setup of the job to the
  targets of every worker. At the end one command line is followed through the whole program.
\<close>

section \<open>main\<close>

text \<open>
  \<open>main\<close> (\<open>src/src/diskspd.cc\<close>) over any way \<open>run\<close> to run a job: the exit code and the report.
\<close>

definition main ::
  "argp \<Rightarrow> sysfs \<Rightarrow> (string \<Rightarrow> stat_result) \<Rightarrow> (job_setup \<Rightarrow> 'w \<Rightarrow> fault + (bool \<times> job_report) \<times> 'w) \<Rightarrow> string list \<Rightarrow> 'w
    \<Rightarrow> fault + (int \<times> printed list) \<times> 'w" where
  "main argp_parse fs stat run argv w =
    bindE (parse_options argp_parse fs stat argv) (\<lambda>p. case p of
        None \<Rightarrow> Inr ((1, []), w)
      | Some pr \<Rightarrow> bindE (run_jobs run (jobs pr) w) (\<lambda>((ok, reports), w1).
          if \<not> ok then Inr ((1, []), w1)
          else bindE (output_results (cmd_line pr) (pr_sys_info pr) reports) (\<lambda>out. Inr ((0, out), w1))))"

section \<open>From the command line to the workers\<close>

text \<open>Thread \<open>i\<close> of a job, as \<open>_thread_func\<close> finds it, over an engine in the state \<open>s\<close>.\<close>

definition worker_of :: "job_results \<Rightarrow> nat \<Rightarrow> ('g, 'h) rng_engine \<Rightarrow> 's \<Rightarrow> ('g, 'h, 's) worker" where
  "worker_of r i g s = \<lparr>params = ts_params (jr_threads r ! i), job_targets = jr_targets r,
     targets = ts_targets (jr_threads r ! i), th_rng = g, rw_rng = g, io = s, thread_bytes_count = 0\<rparr>"

text \<open>
  The job as the formatter finds it when its threads have ended in the states \<open>ws\<close>, in the order of
  their creation: each \<open>ThreadResults\<close> has the id of its thread and shares the results of its targets.
\<close>

definition report_of :: "job_results \<Rightarrow> ('g, 'h, 's) worker list \<Rightarrow> job_report" where
  "report_of r ws = \<lparr>report_options = jr_settings r, report_targets = jr_targets r,
     thread_results = map (\<lambda>w. (thread_id (params w),
       map (\<lambda>td. (job_targets w ! td_target td, td_results td)) (targets w))) ws,
     report_usage = cpu_usage_percentages r\<rparr>"

lemma report_of_consistent:
  assumes "\<forall>w \<in> set ws. results_of_ok w"
  shows "\<forall>(i, target, res) \<in> set (flat_results (thread_results (report_of r ws))). results_ok (block_size target) res"
  using assms by (fastforce simp: flat_results_def report_of_def results_of_ok_def target_of_def in_set_conv_nth)

lemma name_devices_fields:
  assumes "name_devices fs stat si ts = Inr ts'"
  shows "length ts' = length ts \<and> (\<forall>j < length ts. \<exists>d sch. ts' ! j = (ts ! j)\<lparr>device := d, scheduler := sch\<rparr>)"
  using assms
proof (induction ts arbitrary: ts')
  case Nil
  then show ?case by simp
next
  case (Cons t ts)
  from Cons.prems obtain d sch us where u: "ts' = t\<lparr>device := d, scheduler := sch\<rparr> # us" and us: "name_devices fs stat si ts = Inr us"
    by (auto simp: name_device_def Let_def bindE_Inr_iff)
  from Cons.IH [OF us] show ?case by (auto simp: u nth_Cons split: nat.splits)
qed

lemma run_job_prepared:
  assumes "run_job ops fs stat si inp js w = Inr ((ok, Some r), w')"
  shows "\<exists>w1 idx ov. layout_targets ops (settings js) (setup_targets_of js) w = Inr (True, w1) \<and>
    name_devices fs stat si (setup_targets_of js) = Inr (jr_targets r) \<and>
    assign_targets (settings js) (jr_targets r) = Inr (jr_threads r, idx, ov)"
proof -
  from assms obtain w1 ts ths idx ov where
    l: "layout_targets ops (settings js) (setup_targets_of js) w = Inr (True, w1)"
    and n: "name_devices fs stat si (setup_targets_of js) = Inr ts"
    and a: "assign_targets (settings js) ts = Inr (ths, idx, ov)"
    by (auto simp: run_job_def Let_def bindE_Inr_iff split: if_splits)
  let ?r = "\<lparr>jr_settings = settings js, jr_targets = ts, jr_threads = ths, jr_started = [], jr_events = [],
                     cpu_usage_percentages = []\<rparr>"
  have ph: "jr_targets r' = ts \<and> jr_threads r' = ths" if "run_started si inp (?r\<lparr>jr_started := st\<rparr>) = Inr (ok', r')" for st ok' r'
    using that by (auto simp: run_started_def dest: run_phases_events split: init_result.splits if_splits)
  have "jr_targets r = ts \<and> jr_threads r = ths"
    using assms ph by (auto simp: run_job_def Let_def l n a bindE_Inr_iff split: if_splits)
  with l n a show ?thesis by auto
qed

lemma named_target:
  assumes "name_devices fs stat si ts = Inr us" and "u \<in> set us"
  shows "\<exists>t d sch. u = t\<lparr>device := d, scheduler := sch\<rparr> \<and> t \<in> set ts"
  using name_devices_fields [OF assms(1)] assms(2) by (metis in_set_conv_nth nth_mem)

lemma device_fields [simp]:
  "check_target opt (t\<lparr>device := d, scheduler := sch\<rparr>) = check_target opt t"
  "area_ok (t\<lparr>device := d, scheduler := sch\<rparr>) = area_ok t"
  "random_range (t\<lparr>device := d, scheduler := sch\<rparr>) = random_range t"
  "in_range (t\<lparr>device := d, scheduler := sch\<rparr>) off = in_range t off"
  by (simp_all add: check_target_def unaligned_direct_def no_threads_def area_ok_def random_range_def in_range_def)

lemma workers_prepared:
  assumes a: "\<forall>t \<in> set (setup_targets_of js). area_ok t \<and> (use_interlocked t \<longrightarrow> interlocked_offset t = base_offset t)"
    and n: "threads_add_up (settings js) (setup_targets_of js)"
    and D: "\<forall>t \<in> set (setup_targets_of js). use_random_alignment t \<longrightarrow>
      uniform D \<and> 0 < unat (stride t) \<and> random_range t \<le> 2 ^ 31"
    and r: "run_job ops fs stat si inp js w = Inr ((ok, Some r), w')" and i: "i < length (jr_threads r)"
  shows "targets_ok D (worker_of r i g s) \<and> results_of_ok (worker_of r i g s) \<and>
    thread_id (ts_params (jr_threads r ! i)) = of_nat i"
proof -
  let ?ts = "setup_targets_of js" and ?us = "jr_targets r"
  from run_job_prepared [OF r] obtain w1 idx ov where
    l: "layout_targets ops (settings js) ?ts w = Inr (True, w1)" and nd: "name_devices fs stat si ?ts = Inr ?us"
    and asg: "assign_targets (settings js) ?us = Inr (jr_threads r, idx, ov)" by blast
  have len: "length ?us = length ?ts" and dev: "\<And>j. j < length ?ts \<Longrightarrow> \<exists>d sch. ?us ! j = (?ts ! j)\<lparr>device := d, scheduler := sch\<rparr>"
    using name_devices_fields [OF nd] by simp_all
  note each = named_target [OF nd]
  have c: "\<forall>u \<in> set ?us. check_target (settings js) u = Inr True" "\<forall>u \<in> set ?us. area_ok u"
    using each layout_targets_checked [OF l] a by fastforce+
  have m: "map threads_per_target ?us = map threads_per_target ?ts"
    using len dev by (intro nth_equalityI) fastforce+
  have "(\<Sum>t \<leftarrow> ?us. unat (threads_per_target t)) = (\<Sum>t \<leftarrow> ?ts. unat (threads_per_target t))"
    using arg_cong [OF m, of "\<lambda>xs. sum_list (map unat xs)"] by (simp add: comp_def)
  with n have "threads_add_up (settings js) ?us" by (simp add: threads_add_up_def)
  from thread_areas [OF c this] asg i have t: "thread_id (ts_params (jr_threads r ! i)) = of_nat i"
    "\<And>td. td \<in> set (ts_targets (jr_threads r ! i)) \<Longrightarrow> td_target td < length ?us \<and> td_results td = TargetResults \<and>
       target_ok (rel_thread_id (ts_params (jr_threads r ! i))) (?us ! td_target td)" by auto
  have "offset_inv D (rel_thread_id (ts_params (jr_threads r ! i))) (?us ! td_target td, g)"
    if "td \<in> set (ts_targets (jr_threads r ! i))" for td
  proof -
    from t(2) [OF that] have "?us ! td_target td \<in> set ?us" by simp
    from each [OF this] obtain u d sch where u: "?us ! td_target td = u\<lparr>device := d, scheduler := sch\<rparr>" "u \<in> set ?ts" by blast
    with a have "area_ok u" by simp
    then have "use_interlocked u \<Longrightarrow> in_range u (interlocked_offset u)"
      using a u(2) by (simp add: in_range_def area_ok_def)
    with t(2) [OF that] D u show ?thesis by (simp add: offset_inv_def)
  qed
  with t show ?thesis
    by (simp add: targets_ok_def results_of_ok_def worker_of_def target_of_def results_ok_def TargetResults_def)
qed

lemma accepted_job:
  assumes "parse_options argp_parse fs stat argv = Inr (Some pr)" and "js \<in> set (jobs pr)"
    and "(\<Sum>t \<leftarrow> setup_targets_of js. unat (threads_per_target t)) < 2 ^ 32"
  shows "(\<forall>t \<in> set (setup_targets_of js). area_ok t \<and> (use_interlocked t \<longrightarrow> interlocked_offset t = base_offset t) \<and>
      max_size t \<le>s tsize t) \<and> threads_add_up (settings js) (setup_targets_of js)"
proof -
  from parse_options_ok [OF assms(1)] obtain p :: parsing and js' where j: "jobs pr = [js']"
    and ts': "\<forall>t \<in> set (setup_targets_of js'). accepted_target (dummy p) t"
    and se': "settings js' = (p_job p)\<lparr>total_threads := (if use_total_threads (p_job p) then total_threads (p_job p)
        else of_nat (length (setup_targets_of js')) * threads_per_target (dummy p))\<rparr>" by blast
  have "js' = js" using j assms(2) by simp
  note ts = ts' [unfolded this] and se = se' [unfolded this]
  have "\<forall>t \<in> set (setup_targets_of js). threads_per_target t = threads_per_target (dummy p)"
    using ts by (simp add: accepted_target_def)
  from threads_product [OF this assms(3)] ts show ?thesis
    by (simp add: threads_add_up_def se accepted_target_def)
qed

lemma run_jobs_all: "run_jobs run js w = Inr ((True, rs), w') \<Longrightarrow> length rs = length js"
  by (induction js arbitrary: w rs) (auto simp: bindE_Inr_iff split: if_splits)

section \<open>A command line\<close>

text \<open>\<open>diskspd -b16 f\<close> on a file of 1 MiB.\<close>

definition b16_argp :: argp where
  "b16_argp = fixed_argp [(98, Some ''16''), (ARGP_KEY_ARG, Some ''f'')]"

lemma b16_parse:
  "\<exists>opt. parse_args b16_argp [''diskspd'', ''-b16'', ''f''] Options = Inr (True, opt) \<and> opts opt = [BLOCK_SIZE \<mapsto> 98] \<and>
     get_non_opts opt = [''f''] \<and> map_option (\<lambda>d. (oarg d, oflags d)) (opt_map opt 98) = Some (''16'', OPT_BYTE_SIZE OR OPT_NON_ZERO)"
proof -
  have "case parse_args b16_argp [''diskspd'', ''-b16'', ''f''] Options of Inl f \<Rightarrow> False | Inr (b, opt) \<Rightarrow> b"
    by code_simp
  then obtain opt where p: "parse_args b16_argp [''diskspd'', ''-b16'', ''f''] Options = Inr (True, opt)"
    by (auto split: sum.splits)
  then have "drive parse_arg [(98, Some ''16''), (ARGP_KEY_ARG, Some ''f'')] Options = Inr (EOK, opt)"
    by (auto simp: parse_args_def b16_argp_def fixed_argp_def bindE_Inr_iff split: if_splits)
  from parsed_drive [OF parsed_init this] have pd: "parsed [(98, Some ''16''), (ARGP_KEY_ARG, Some ''f'')] opt" by simp
  have t: "map_option (\<lambda>d. (otype d, oflags d)) (map_of option_table 98) = Some (BLOCK_SIZE, OPT_BYTE_SIZE OR OPT_NON_ZERO)"
    by code_simp
  then obtain d where d: "map_of option_table 98 = Some d" "otype d = BLOCK_SIZE" "oflags d = OPT_BYTE_SIZE OR OPT_NON_ZERO" by auto
  have "opts opt ty = (if ty = BLOCK_SIZE then Some 98 else None)" for ty
    using parsed_opts [OF pd, of ty "the (opts opt ty)"] parsed_opts [OF pd, of ty 98] d no_key_arg by (cases "opts opt ty") auto
  then have "opts opt = [BLOCK_SIZE \<mapsto> 98]" by auto
  moreover have "opt_map opt 98 = Some (d\<lparr>oarg := ''16''\<rparr>)" using parsed_map [OF pd, of 98] d by (simp add: arg_string_def)
  moreover have "get_non_opts opt = [''f'']"
    using parsed_non_opts [OF pd] by (simp add: get_non_opts_def positional_def arg_string_def ARGP_KEY_ARG_def)
  ultimately show ?thesis using p d by auto
qed

lemma b16_size: "byte_size_from_arg ''16'' 1 = Inr 16"
  by (simp add: byte_size_from_arg_def strtoull_def getSizeMultiplier_def Let_def code_def is_digit_def is_space_def digits_value_def char_at_def sless0_unat)

definition b16_fs :: sysfs where
  "b16_fs = sample_fs\<lparr>dir_names := (\<lambda>_. Some [''sda'']), stat_rdev := (\<lambda>_. Some 2049), readlink := (\<lambda>_. Some ''block/sda'')\<rparr>"

definition b16_target :: target where
  "b16_target = (Target ''f'')\<lparr>tsize := 1048576, max_size := 1048576, block_size := 16, stride := 16\<rparr>"

definition b16_job :: job_setup where
  "b16_job = \<lparr>settings = JobOptions\<lparr>total_threads := 1\<rparr>, job_engine = Kernel_Engine, setup_targets_of = [b16_target]\<rparr>"

lemma b16_info: "\<exists>si. init_sys_info b16_fs None SysInfo = Inr si \<and> id_to_device si 2049 = Some ''sda'' \<and> affinity_cpus si \<noteq> {}"
  by (simp add: init_sys_info_def SysInfo_def init_cpus_def b16_fs_def sample_fs_def example_fs_def str_to_cpu_set_def
      cpu_fields.simps char_at_def strtoull_def Let_def is_digit_def is_space_def code_def digits_value_def insert_range_def
      init_devices_def map_device_def word_le_nat_alt NUL_def)

definition b16_parsing :: parsing where
  "b16_parsing = upd_dummy (\<lambda>d. d\<lparr>block_size := 16, stride := 16\<rparr>) start_parsing"

lemma b16_steps:
  assumes o: "opts opt = [BLOCK_SIZE \<mapsto> 98]" and m: "map_option (\<lambda>d. (oarg d, oflags d)) (opt_map opt 98) = Some (''16'', OPT_BYTE_SIZE OR OPT_NON_ZERO)"
  shows "option_steps opt start_parsing = Inr (Some b16_parsing)"
proof -
  have f: "(OPT_BYTE_SIZE OR OPT_NON_ZERO) AND OPT_NUMERIC = 0" "(OPT_BYTE_SIZE OR OPT_NON_ZERO) AND OPT_BYTE_SIZE \<noteq> 0"
    by (simp_all add: OPT_BYTE_SIZE_def OPT_NON_ZERO_def OPT_NUMERIC_def)
  have "number max_u64 BLOCK_SIZE 1 opt store p = Inr (True, store 16 p)" for store p
    using o m f b16_size by (auto simp: number_def arg_to_number_def max_u64_def)
  then show ?thesis
    by (simp add: option_steps_def andThen_def size_options_def time_options_def limit_options_def load_options_def
      stride_options_def caching_options_step_def thread_options_def write_options_def engine_option_def seed_option_def
      buffer_option_def Let_def o upd_dummy_def b16_parsing_def) (simp add: start_parsing_def)
qed

lemma b16_targets:
  "setup_loop fs file_stat si (dummy b16_parsing) [Target ''f''] (p_job b16_parsing) =
   Inr (Some ([b16_target], JobOptions\<lparr>total_threads := 1\<rparr>))" "p_engine b16_parsing = Kernel_Engine"
  by (simp_all add: b16_parsing_def upd_dummy_def start_parsing_def Target_def JobOptions_def setup_one_def andThen_def find_size_def file_stat_def
      stat_data_def apply_dummy_def limit_size_def Let_def word_sle_eq b16_target_def)

lemma b16_accepted:
  "\<exists>pr. parse_options b16_argp b16_fs file_stat [''diskspd'', ''-b16'', ''f''] = Inr (Some pr) \<and> jobs pr = [b16_job] \<and>
    id_to_device (pr_sys_info pr) 2049 = Some ''sda'' \<and> affinity_cpus (pr_sys_info pr) \<noteq> {}"
proof -
  from b16_info obtain si where si: "init_sys_info b16_fs None SysInfo = Inr si" "id_to_device si 2049 = Some ''sda''"
    "affinity_cpus si \<noteq> {}" by blast
  from b16_parse obtain opt where opt: "parse_args b16_argp [''diskspd'', ''-b16'', ''f''] Options = Inr (True, opt)"
    "opts opt = [BLOCK_SIZE \<mapsto> 98]" "get_non_opts opt = [''f'']"
    "map_option (\<lambda>d. (oarg d, oflags d)) (opt_map opt 98) = Some (''16'', OPT_BYTE_SIZE OR OPT_NON_ZERO)" by blast
  have a: "get_arg CPU_AFFINITY opt = None" using opt(2) by (simp add: get_arg_def)
  show ?thesis
    using si by (simp add: parse_options_def opt(1,3) a b16_steps [OF opt(2,4)] b16_targets andThen_def b16_job_def
        del: setup_loop.simps)
qed

definition b16_inputs :: job_inputs where
  "b16_inputs = \<lparr>io_starts = (\<lambda>_. True), create_errors = (\<lambda>i. 0), affinity_errors = (\<lambda>_ _. 0),
     first_counter = 1, wakes = [], init_failed = False, warmup_timeout = True, warmup_failed = True,
     stat_start = b16_fs, start_ns = Inr 0, main_timeout = True, main_failed = False, stat_end = b16_fs\<rparr>"

lemma b16_run:
  assumes "id_to_device si 2049 = Some ''sda''" and "affinity_cpus si \<noteq> {}"
  shows "\<exists>r. run_job memo_ops b16_fs file_stat si b16_inputs b16_job [] = Inr ((False, Some r), []) \<and>
    jr_settings r = JobOptions\<lparr>total_threads := 1\<rparr> \<and> jr_targets r = [b16_target\<lparr>device := ''sda'', scheduler := ''cfq''\<rparr>] \<and>
    jr_threads r = [give_target 0 0 (new_thread 0)]"
proof -
  let ?o = "JobOptions\<lparr>total_threads := 1\<rparr>" and ?t = "b16_target\<lparr>device := ''sda'', scheduler := ''cfq''\<rparr>"
  have l: "layout_targets memo_ops ?o [b16_target] [] = Inr (True, [])"
    by (simp add: layout_target_def check_target_def unaligned_direct_def no_threads_def b16_target_def Target_def
        JobOptions_def O_RDWR_def O_DIRECT_def sint64)
  have b: "basename (dirname ''block/sda'') = ''block''" by code_simp
  have s: "scheduler_from_device b16_fs ''sda'' = Inr ''cfq''"
    by (simp add: scheduler_from_device_def b16_fs_def sample_fs_def)
  have "device_from_id b16_fs 2049 si = Inr ''sda''"
    using b by (simp add: device_from_id_def assms(1)) (simp add: b16_fs_def)
  then have n: "name_devices b16_fs file_stat si [b16_target] = Inr [?t]"
    by (simp add: name_device_def file_stat_def stat_data_def Let_def s)
  have a: "assign_targets ?o [?t] = Inr ([give_target 0 0 (new_thread 0)], 1, 2)"
    by (simp add: assign_targets_def assign_target_def assign_one_def no_threads_def create_threads_def JobOptions_def
        b16_target_def Target_def Let_def)
  obtain c cs where c: "sorted_list_of_set (affinity_cpus si) = c # cs"
    using assms(2) by (cases "sorted_list_of_set (affinity_cpus si)") auto
  have o: "disable_affinity JobOptions = False" "warmup_time JobOptions \<noteq> 0" by (simp_all add: JobOptions_def)
  show ?thesis
    by (simp add: run_job_def b16_job_def l n a c o Let_def b16_inputs_def run_started_def run_phases_def
        del: layout_targets.simps name_devices.simps)
qed

definition b16_worker :: "(unit, unit, u64 list kernel_state) worker" where
  "b16_worker = \<lparr>params = ts_params (give_target 0 0 (new_thread 0)),
     job_targets = [b16_target\<lparr>device := ''sda'', scheduler := ''cfq''\<rparr>],
     targets = ts_targets (give_target 0 0 (new_thread 0)), th_rng = \<lparr>engine64 = (), engine = ()\<rparr>,
     rw_rng = \<lparr>engine64 = (), engine = ()\<rparr>, io = (KernelAsyncIOManager [])\<lparr>k_started := True\<rparr>, thread_bytes_count = 0\<rparr>"

lemma b16_start:
  "case bindE (thread_start (kernel_manager small_lib) small_env (JobOptions\<lparr>total_threads := 1\<rparr>) b16_worker)
     (\<lambda>(b, w). bindE (work_loop (kernel_manager small_lib) small_env (JobOptions\<lparr>total_threads := 1\<rparr>) [([0], round_reads), ([0], round_reads)] w)
        (\<lambda>(out, w'). Inr (b \<and> length (job_targets w) = 1 \<and> \<not> use_interlocked (job_targets w ! 0) \<and> out = Continue)))
   of Inl f \<Rightarrow> False | Inr b \<Rightarrow> b"
  by code_simp

end
