(* ===== verification/Spec2Isabelle.thy ===== *)
theory Spec2Isabelle
  imports Program
begin

text \<open>
  A model of diskspd for Linux, the storage load generator of \<open>src/src\<close>, and what makes it correct.

  \<^bold>\<open>The program.\<close> \<open>main\<close> (\<open>diskspd.cc\<close>) lets \<open>Profile\<close> parse the command line into one \<open>Job\<close>, runs the job
  and prints the report. The job checks and lays out its targets (files or devices), gives every
  thread its targets and starts the threads. A thread opens its targets, makes as many operations as
  their \<open>-o\<close> asks for, submits them to an asynchronous I/O engine, and then waits for an operation,
  records it, moves it to its next offset and submits it again, until the job says that the time is
  over. The job and its threads share three flags, the threads share the engine and, under \<open>-si\<close>, the
  offset of a target.

  \<^bold>\<open>The theories\<close>, in the order of their imports, with the files they model:

  \<^item> \<open>Prelude\<close>: the types of the model, \<open>fault\<close> (the ways in which the program ends early), the error
    monad \<open>bindE\<close> and its loop \<open>foldE\<close>, vectors, and the locale \<open>accumulator\<close>: the contract of a
    container that stands for the multiset of what was added to it.
  \<^item> \<open>Histogram\<close> (\<open>Histogram.h\<close>) and \<open>Io_Bucketizer\<close> (\<open>IoBucketizer.h\<close>, \<open>IoBucketizer.cc\<close>): latencies and I/O
    counts over time. Both interpret \<open>accumulator\<close>. Percentiles are nearest ranks, mean and deviation
    are those of the samples, and merging is collecting both streams.
  \<^item> \<open>Perf_Clock\<close> (\<open>perf_clock.h\<close>) and \<open>Rng_Engine\<close> (\<open>rng_engine.h\<close>): the wrappers over the clock and over the
    random number generators of the C++ library, which are parameters.
  \<^item> \<open>Options\<close> (\<open>options.h\<close>, \<open>options.cc\<close>): the table of options, the checks and the conversion of arguments,
    and the callback that glibc's \<open>argp\<close> drives: which command lines are accepted and what the object
    then holds.
  \<^item> \<open>Sys_Info\<close> (\<open>sys_info.h\<close>, \<open>sys_info.cc\<close>): cpu sets, devices, schedulers and cpu times from the kernel's files.
  \<^item> \<open>Target\<close> (\<open>target.h\<close>): a target and its results, the aligned buffers, and the offsets of sequential,
    interlocked and random access: they never leave the target and go through it in the right order. The
    contract of the two offset operations is the locale \<open>offset_source\<close>.
  \<^item> \<open>Async_IO\<close> (\<open>async_io.h\<close>): an engine as a record of its operations, and its contract as the locales
    \<open>async_io\<close>, \<open>async_io_attrs\<close> and \<open>async_io_start\<close>: multisets of queued and of flying operations, which
    operations belong to a group, and that nothing but the setters changes an operation. \<open>async_io_service\<close>
    adds a device on which every request succeeds.
  \<^item> \<open>Kernel_AIO\<close> (\<open>kernel_aio.h\<close>, \<open>kernel_aio.cc\<close>) and \<open>Posix_AIO\<close> (\<open>posix_aio.h\<close>, \<open>posix_aio.cc\<close>): the two engines, with their queues,
    groups, control blocks and errors. Each interprets the contract on its own definitions.
  \<^item> \<open>Thread\<close> (\<open>thread.h\<close>, \<open>thread.cc\<close>, and the options of \<open>job.h\<close>): the setup of a worker, its first operations and the
    rounds of its loop over any engine; the invariant of the loop is proved once, inside the locales.
  \<^item> \<open>Progress\<close>: over a device that serves, a worker starts and its loop goes on, inside \<open>async_io_service\<close>.
  \<^item> \<open>Workers\<close>: the lemmas of \<open>Thread\<close> and \<open>Progress\<close> for both engines.
  \<^item> \<open>Files\<close> (the layout in \<open>job.cc\<close>): the buffers, the loop that writes a file, and what POSIX documents of the
    system calls on files (\<open>files_behave\<close>, the hypothesis of the theorem about a laid out file, which \<open>disk_ops\<close> meets).
  \<^item> \<open>Job\<close> (\<open>job.h\<close>, \<open>job.cc\<close>): the checks, the layout of files, the distribution of targets and cpus over threads, the
    wait for the threads, the phases of the run and the cpu usage.
  \<^item> \<open>Profile\<close> (\<open>profile.h\<close>, \<open>profile.cc\<close>): the options one by one in the order of the source, and the setup of the targets.
  \<^item> \<open>Result_Formatter\<close> (\<open>result_formatter.h\<close>, \<open>result_formatter.cc\<close>): the report, \<open>printf\<close> by \<open>printf\<close>.
  \<^item> \<open>Program\<close> (\<open>diskspd.cc\<close>): \<open>main\<close>, and the facts that go from the command line through the job to the workers.

  \<^bold>\<open>Correspondence.\<close> A definition has the name of the function it models, with a prefix where two classes
  share a name (\<open>kernel_wait\<close>, \<open>posix_wait\<close>) and a descriptive name where it is a part of a long function
  (\<open>start_op\<close> is the body of the inner loop of \<open>ThreadParams::thread_func\<close>). Objects are records, passed and
  returned; \<open>uint64_t\<close>, \<open>size_t\<close> and \<open>off_t\<close> are 64-bit words, compared signed or unsigned as the source
  does, \<open>unsigned\<close> is a 32-bit word, \<open>int\<close> of a system call is an \<open>int\<close>. Assertions, \<open>exit\<close>, exceptions, undefined
  behaviour and deadlock are values of \<open>fault\<close> in the left of a sum; an early \<open>return false\<close> is a boolean or
  \<open>None\<close> in the right. Doubles are real numbers, without rounding, so equations about means and
  deviations hold of the program up to rounding (its deviation of equal counts may be some 1e-16 and not 0).
  A division by zero is a fault that ends the program; the code stores NaN (\<open>cpu_usage\<close>) or prints inf (\<open>rate_args\<close>)
  and goes on, and the theorems about these exclude it.

  \<^bold>\<open>Concurrency.\<close> A round of a worker (\<open>work_step\<close>) gets what it reads of the shared flags and of the clock as an
  input (\<open>reads\<close>), and between two rounds the other threads may move the offset of an interlocked target
  anywhere inside it (\<open>interfere\<close>, \<open>rely\<close>); that they do so is what each of them guarantees. Moves of that
  offset while a worker makes its first operations (\<open>thread_start\<close>) are not modelled. The theorems
  about workers hold for every sequence of such inputs. The groups of an engine are used by one thread each,
  so that the calls of the others do not change what a thread sees of its own group; the locks around the maps
  of groups are modelled where they are left locked.

  \<^bold>\<open>Parameters.\<close> glibc's \<open>argp_parse\<close> (it calls the callback for some sequence of options and arguments),
  \<open>stat\<close>, the files under \<open>/sys\<close> and \<open>/proc\<close>, libaio (what it reports as submitted is pending until its event is
  returned), POSIX AIO, the clock, the allocator, \<open>open\<close> and the other calls on files, thread creation, and the random distributions
  (a draw lies in the interval asked for).

  \<^bold>\<open>Loops and bounds.\<close> All loops are structural recursions over what they iterate on, except the one that writes a
  file, which terminates because the remaining bytes decrease (\<open>write_loop\<close>), and the search of a flight id that
  is not in use (\<open>free_id\<close>), which may not end in general and does as long as not all ids are (\<open>free_id_ends\<close>). The loop that waits for the threads
  and the loop of a worker are recursions over the list of the inputs they read; that the first ends is
  \<open>init_wait_ends\<close>. Counters that wrap (32-bit samples, 64-bit bytes) are words; where a theorem needs that they do
  not wrap, it says so. There is no fuel anywhere.

  \<^bold>\<open>What is shown.\<close> For each component its functional behaviour, with the errors, and across components: every
  operation of a run asks for one block inside a target of the command line (\<open>kernel_run_in_targets\<close>), the queue
  depth of a worker is the one asked for and its results are consistent (\<open>kernel_worker_run\<close>,
  \<open>posix_worker_run\<close>), a worker makes progress when the device does (\<open>kernel_worker_progress\<close>,
  \<open>posix_worker_progress\<close>), and the report adds these results up (\<open>report_rows_and_totals\<close>, \<open>report_deviations_of_all\<close>). Where the code does not do what
  it means to do, the theorem states what it does: the percentiles of the total count early results several
  times (\<open>latency_totals_repeat\<close>), an empty report with \<open>-L\<close> throws, blocks of 2 GB abort the
  run (\<open>large_blocks_abort\<close>), a bare \<open>-r\<close> aligns to 64 KiB, a failed group leaves a mutex
  locked, a failed job leaves its threads running, and the layout of a file
  leaves the old file open and goes on after a failed \<open>lseek\<close> (\<open>layout_fills_area\<close>).

  \<^bold>\<open>Not modelled.\<close> The texts on stderr and the verbose and debug output (\<open>debug.h\<close>); the rendering of
  numbers by \<open>printf\<close>; destructors; a run of all the threads of a job
  side by side (running a job is a parameter of \<open>main\<close>; \<open>report_of\<close> gives what the formatter then finds, from \<open>run_job\<close> and the
  workers at their ends); the contents of the I/O; the constructors of the XML and JSON formatters,
  which only assert; and the memory model of the flags that threads share without synchronization.
\<close>

section \<open>Properties of the whole program\<close>

text \<open>
  C8. From the command line to the workers: a job of an accepted command line whose setup succeeds
  gives thread \<open>i\<close> the id \<open>i\<close> and targets on which it can work: the area of its first block under \<open>-T\<close>
  lies inside each of them, the offset shared under \<open>-si\<close> too, and its counters start consistent. For
  random access the alignment must not be 0 and there must be at most 2 to the 31 aligned blocks.
\<close>

theorem command_line_to_workers:
  assumes "parse_options argp_parse fs stat argv = Inr (Some pr)" and "js \<in> set (jobs pr)"
    and "(\<Sum>t \<leftarrow> setup_targets_of js. unat (threads_per_target t)) < 2 ^ 32"
    and "\<forall>t \<in> set (setup_targets_of js). use_random_alignment t \<longrightarrow>
      uniform D \<and> 0 < unat (stride t) \<and> random_range t \<le> 2 ^ 31"
    and "run_job ops fs' stat' (pr_sys_info pr) inp js w = Inr ((ok, Some r), w')" and "i < length (jr_threads r)"
  shows "targets_ok D (worker_of r i g s) \<and> results_of_ok (worker_of r i g s) \<and>
    thread_id (ts_params (jr_threads r ! i)) = of_nat i"
proof (rule workers_prepared [OF _ _ assms(4-6)])
  show "\<forall>t \<in> set (setup_targets_of js). area_ok t \<and> (use_interlocked t \<longrightarrow> interlocked_offset t = base_offset t)"
    "threads_add_up (settings js) (setup_targets_of js)" using accepted_job [OF assms(1-3)] by simp_all
qed

lemma command_line_to_workers_witness:
  "\<exists>pr r. parse_options b16_argp b16_fs file_stat [''diskspd'', ''-b16'', ''f''] = Inr (Some pr) \<and>
    run_job memo_ops b16_fs file_stat (pr_sys_info pr) b16_inputs b16_job [] = Inr ((False, Some r), []) \<and>
    length (jr_threads r) = 1 \<and> targets_ok draw_low (worker_of r 0 (\<lparr>engine64 = (), engine = ()\<rparr> :: (unit, unit) rng_engine) ())"
proof -
  from b16_accepted obtain pr where pr: "parse_options b16_argp b16_fs file_stat [''diskspd'', ''-b16'', ''f''] = Inr (Some pr)"
    "jobs pr = [b16_job]" "id_to_device (pr_sys_info pr) 2049 = Some ''sda''" "affinity_cpus (pr_sys_info pr) \<noteq> {}" by blast
  from b16_run [OF pr(3,4)] obtain r where r: "run_job memo_ops b16_fs file_stat (pr_sys_info pr) b16_inputs b16_job [] = Inr ((False, Some r), [])"
    "jr_threads r = [give_target 0 0 (new_thread 0)]" by blast
  have j: "b16_job \<in> set (jobs pr)" "0 < length (jr_threads r)" using pr(2) r(2) by simp_all
  have t: "(\<Sum>t \<leftarrow> setup_targets_of b16_job. unat (threads_per_target t)) < 2 ^ 32"
    "\<forall>t \<in> set (setup_targets_of b16_job). use_random_alignment t \<longrightarrow>
      uniform draw_low \<and> 0 < unat (stride t) \<and> random_range t \<le> 2 ^ 31"
    by (simp_all add: b16_job_def b16_target_def Target_def)
  have "targets_ok draw_low (worker_of r 0 (\<lparr>engine64 = (), engine = ()\<rparr> :: (unit, unit) rng_engine) ())"
    by (rule conjunct1 [OF command_line_to_workers [OF pr(1) j(1) t r(1) j(2)]])
  with pr(1) r show ?thesis by (intro exI [of _ pr] exI [of _ r]) simp
qed

text \<open>
  C1. The whole way: however the command line, the files, the flags and the clock are, every operation
  that a worker over kernel AIO ever makes, up to an abort, asks for one block between the base offset and
  the maximum size of one of the targets given on the command line, and the maximum size is at most its size.
\<close>

theorem kernel_run_in_targets:
  assumes "parse_options argp_parse fs stat argv = Inr (Some pr)" and "js \<in> set (jobs pr)"
    and "(\<Sum>t \<leftarrow> setup_targets_of js. unat (threads_per_target t)) < 2 ^ 32"
    and "\<forall>t \<in> set (setup_targets_of js). use_random_alignment t \<longrightarrow>
      uniform (dist64 env) \<and> 0 < unat (stride t) \<and> random_range t \<le> 2 ^ 31"
    and "run_job ops fs' stat' (pr_sys_info pr) inp js w = Inr ((ok, Some r), w')" and "i < length (jr_threads r)"
    and "kernel_fresh lib pending (sint (of_nat i :: u32)) s" and "time_us env = Inr now"
    and "depth (worker_of r i g s) \<le> kernel_room s"
    and "thread_start (kernel_manager lib) env (jr_settings r) (worker_of r i g s) = Inr (True, w1)"
    and "\<forall>x \<in> set xs. rely w1 (fst x)" and "work_loop (kernel_manager lib) env (jr_settings r) xs w1 = Inr (out, w2)" and "out \<noteq> Aborted"
  shows "\<forall>op. kernel_owns (sint (of_nat i :: u32)) (io w2) op \<longrightarrow> (\<exists>t \<in> set (setup_targets_of js).
    unat (base_offset t) \<le> unat (c_offset (cb (k_ops (io w2) ! op))) \<and> c_nbytes (cb (k_ops (io w2) ! op)) = block_size t \<and>
    unat (c_offset (cb (k_ops (io w2) ! op))) + unat (c_nbytes (cb (k_ops (io w2) ! op))) \<le> unat (max_size t) \<and>
    max_size t \<le>s tsize t)"
proof (intro allI impI)
  fix op assume own: "kernel_owns (sint (of_nat i :: u32)) (io w2) op"
  let ?w = "worker_of r i g s" and ?gid = "sint (of_nat i :: u32)"
  let ?k = "k_target_data (k_ops (io w2) ! op)" and ?off = "c_offset (cb (k_ops (io w2) ! op))" and ?n = "c_nbytes (cb (k_ops (io w2) ! op))"
  note acc = accepted_job [OF assms(1-3)]
  have t: "targets_ok (dist64 env) ?w" "results_of_ok ?w" and n: "thread_id (ts_params (jr_threads r ! i)) = of_nat i"
    using acc workers_prepared [OF _ _ assms(4-6), of g s] by simp_all
  have g: "thread_gid ?w = ?gid" by (simp add: thread_gid_def worker_of_def n)
  have io: "kernel_fresh lib pending ?gid (io ?w)" "depth ?w \<le> kernel_room (io ?w)"
    using assms(7,9) by (simp_all add: worker_of_def)
  from async_io_start.worker_run_areas [OF kernel_starts.async_io_start_axioms io(1) g t assms(8) io(2) assms(10-13) own]
  have k: "?k < length (targets ?w)" and off: "in_range (target_of ?w ?k) ?off" "?n = block_size (target_of ?w ?k)"
    by (simp_all add: kernel_manager_def)
  from t(1) k have "target_of ?w ?k \<in> set (jr_targets r)"
    by (simp add: targets_ok_def target_of_def worker_of_def)
  moreover from run_job_prepared [OF assms(5)] have nd: "name_devices fs' stat' (pr_sys_info pr) (setup_targets_of js) = Inr (jr_targets r)"
    by blast
  ultimately obtain u d sch where u: "target_of ?w ?k = u\<lparr>device := d, scheduler := sch\<rparr>" "u \<in> set (setup_targets_of js)"
    using named_target [OF nd] by blast
  from off have "in_range u ?off" "?n = block_size u" by (simp_all add: u(1))
  with u(2) acc show "\<exists>t \<in> set (setup_targets_of js). unat (base_offset t) \<le> unat ?off \<and> ?n = block_size t \<and>
      unat ?off + unat ?n \<le> unat (max_size t) \<and> max_size t \<le>s tsize t"
    by (auto simp: in_range_def)
qed

lemma kernel_run_in_targets_witness:
  "\<exists>pr r w1 w2. parse_options b16_argp b16_fs file_stat [''diskspd'', ''-b16'', ''f''] = Inr (Some pr) \<and>
    run_job memo_ops b16_fs file_stat (pr_sys_info pr) b16_inputs b16_job [] = Inr ((False, Some r), []) \<and>
    thread_start (kernel_manager small_lib) small_env (jr_settings r) (worker_of r 0 \<lparr>engine64 = (), engine = ()\<rparr>
      ((KernelAsyncIOManager [])\<lparr>k_started := True\<rparr>)) = Inr (True, w1) \<and>
    work_loop (kernel_manager small_lib) small_env (jr_settings r) [([0], round_reads), ([0], round_reads)] w1 = Inr (Continue, w2) \<and>
    (\<forall>op. kernel_owns 0 (io w2) op \<longrightarrow> c_nbytes (cb (k_ops (io w2) ! op)) = 16 \<and>
      unat (c_offset (cb (k_ops (io w2) ! op))) + unat (c_nbytes (cb (k_ops (io w2) ! op))) \<le> 1048576)"
proof -
  let ?s = "(KernelAsyncIOManager [])\<lparr>k_started := True\<rparr> :: u64 list kernel_state" and ?g = "\<lparr>engine64 = (), engine = ()\<rparr> :: (unit, unit) rng_engine"
  let ?xs = "[([0 :: off_t], round_reads), ([0], round_reads)]"
  from b16_accepted obtain pr where pr: "parse_options b16_argp b16_fs file_stat [''diskspd'', ''-b16'', ''f''] = Inr (Some pr)"
    "jobs pr = [b16_job]" "id_to_device (pr_sys_info pr) 2049 = Some ''sda''" "affinity_cpus (pr_sys_info pr) \<noteq> {}" by blast
  from b16_run [OF pr(3,4)] obtain r where r: "run_job memo_ops b16_fs file_stat (pr_sys_info pr) b16_inputs b16_job [] = Inr ((False, Some r), [])"
    "jr_settings r = JobOptions\<lparr>total_threads := 1\<rparr>" "jr_targets r = [b16_target\<lparr>device := ''sda'', scheduler := ''cfq''\<rparr>]"
    "jr_threads r = [give_target 0 0 (new_thread 0)]" by blast
  have wo: "worker_of r 0 ?g ?s = b16_worker" by (simp add: worker_of_def b16_worker_def r(3,4))
  from sum_caseD [OF b16_start] obtain w1 w2 where
    w1: "thread_start (kernel_manager small_lib) small_env (jr_settings r) (worker_of r 0 ?g ?s) = Inr (True, w1)"
      "length (job_targets w1) = 1" "\<not> use_interlocked (job_targets w1 ! 0)"
    and w2: "work_loop (kernel_manager small_lib) small_env (jr_settings r) ?xs w1 = Inr (Continue, w2)"
    unfolding wo r(2) by (auto simp: bindE_Inr_iff simp del: work_loop.simps)
  have j: "b16_job \<in> set (jobs pr)" "0 < length (jr_threads r)" using pr(2) r(4) by simp_all
  have t: "(\<Sum>t \<leftarrow> setup_targets_of b16_job. unat (threads_per_target t)) < 2 ^ 32"
    "\<forall>t \<in> set (setup_targets_of b16_job). use_random_alignment t \<longrightarrow>
      uniform (dist64 small_env) \<and> 0 < unat (stride t) \<and> random_range t \<le> 2 ^ 31"
    by (simp_all add: b16_job_def b16_target_def Target_def)
  have "libaio_ok small_lib fifo_pending"
    by (auto simp: libaio_ok_def small_lib_def fifo_lib_def fifo_pending_def split: list.splits)
  then have f: "kernel_fresh small_lib fifo_pending (sint (of_nat 0 :: u32)) ?s"
    by (simp add: kernel_fresh_def KernelAsyncIOManager_def small_lib_def fifo_lib_def fifo_pending_def)
  have d: "depth (worker_of r 0 ?g ?s) \<le> kernel_room ?s"
    unfolding wo by (simp add: depth_def b16_worker_def give_target_def new_thread_def target_of_def TargetData_def b16_target_def
        Target_def kernel_room_def KernelAsyncIOManager_def)
  have rl: "\<forall>x \<in> set ?xs. rely w1 (fst x)" using w1(2,3) by (simp add: rely_def)
  have now: "time_us small_env = Inr 1000" by (simp add: small_env_def)
  from kernel_run_in_targets [OF pr(1) j(1) t r(1) j(2) f now d w1(1) rl w2] have
    "\<forall>op. kernel_owns 0 (io w2) op \<longrightarrow> c_nbytes (cb (k_ops (io w2) ! op)) = 16 \<and>
      unat (c_offset (cb (k_ops (io w2) ! op))) + unat (c_nbytes (cb (k_ops (io w2) ! op))) \<le> 1048576"
    by (auto simp: b16_job_def b16_target_def Target_def)
  with pr(1) r(1) w1(1) w2 show ?thesis by blast
qed

text \<open>
  C27. The exit code: \<open>main\<close> returns 1 without a report when the options are refused or a job fails, and 0
  exactly when all jobs have succeeded, with the report over the results of every job.
\<close>

theorem main_exit_code:
  assumes "main argp_parse fs stat run argv w = Inr ((exit_code, out), w')"
  shows "exit_code = 1 \<and> out = [] \<and> (parse_options argp_parse fs stat argv = Inr None \<or>
      (\<exists>pr rs. parse_options argp_parse fs stat argv = Inr (Some pr) \<and> run_jobs run (jobs pr) w = Inr ((False, rs), w'))) \<or>
    exit_code = 0 \<and> (\<exists>pr rs. parse_options argp_parse fs stat argv = Inr (Some pr) \<and> run_jobs run (jobs pr) w = Inr ((True, rs), w') \<and>
      length rs = length (jobs pr) \<and> output_results (cmd_line pr) (pr_sys_info pr) rs = Inr out)"
proof (cases "parse_options argp_parse fs stat argv")
  case (Inl f)
  with assms show ?thesis by (simp add: main_def)
next
  case (Inr p)
  show ?thesis
  proof (cases p)
    case None
    with Inr assms show ?thesis by (simp add: main_def)
  next
    case (Some pr)
    with Inr assms obtain ok rs w1 where r: "run_jobs run (jobs pr) w = Inr ((ok, rs), w1)"
      by (auto simp: main_def bindE_Inr_iff)
    with Some Inr assms show ?thesis
      by (cases ok) (auto simp: main_def bindE_Inr_iff dest: run_jobs_all)
  qed
qed

lemma main_exit_code_witness:
  "main b16_argp b16_fs file_stat (\<lambda>js w. Inr ((False, small_report JobOptions), w)) [''diskspd'', ''-b16'', ''f''] () = Inr ((1, []), ()) \<and>
    \<not> (\<exists>pr rs. parse_options b16_argp b16_fs file_stat [''diskspd'', ''-b16'', ''f''] = Inr (Some pr) \<and>
      run_jobs (\<lambda>js w. Inr ((False, small_report JobOptions), w)) (jobs pr) () = Inr ((True, rs), ()))"
proof -
  let ?run = "\<lambda>js w. Inr ((False, small_report JobOptions), w)"
  from b16_accepted obtain pr where pr: "parse_options b16_argp b16_fs file_stat [''diskspd'', ''-b16'', ''f''] = Inr (Some pr)"
    "jobs pr = [b16_job]" by blast
  then have m: "main b16_argp b16_fs file_stat ?run [''diskspd'', ''-b16'', ''f''] () = Inr ((1, []), ())" by (simp add: main_def)
  from main_exit_code [OF m] pr m show ?thesis by auto
qed

end
